(* ===== verification/Prelude.thy ===== *)
theory Prelude
  imports Main "HOL-Library.Word"
begin

text \<open>
  Shared vocabulary of the development: bytes and Go strings, Go errors and results, the
  big-endian codecs of \<^verbatim>\<open>encoding/binary\<close> and \<^verbatim>\<open>math/big\<close>, computations that read and write
  state, and the generic lemmas on lists and words the component theories use.
\<close>

unbundle bit_operations_syntax

named_theorems io_defs "definitions of the stateful combinators"
named_theorems codec_simps "round-trip equations of the byte codecs"

section \<open>Bytes and strings\<close>

type_synonym byte = "8 word"
type_synonym bytes = "byte list"

text \<open>A Go string is a byte sequence; so is a HOL \<open>string\<close>, whose characters are bytes.\<close>

definition byte_of_char :: "char \<Rightarrow> byte" where
  "byte_of_char c = word_of_nat (of_char c)"

definition char_of_byte :: "byte \<Rightarrow> char" where
  "char_of_byte b = char_of (unat b)"

definition bytes_of_string :: "string \<Rightarrow> bytes" where
  "bytes_of_string s = map byte_of_char s"

definition string_of_bytes :: "bytes \<Rightarrow> string" where
  "string_of_bytes b = map char_of_byte b"

lemma char_of_byte_of_char [simp]: "char_of_byte (byte_of_char c) = c"
proof -
  have "(of_char c :: nat) < 256" by simp
  then have "unat (word_of_nat (of_char c) :: byte) = of_char c"
    by (simp add: unat_of_nat)
  then show ?thesis by (simp add: char_of_byte_def byte_of_char_def)
qed

lemma byte_of_char_of_byte [simp]: "byte_of_char (char_of_byte b) = b"
proof -
  have "unat b < 256" using unsigned_less [of b] by simp
  then show ?thesis by (simp add: char_of_byte_def byte_of_char_def)
qed

lemma string_of_bytes_of_string [simp]: "string_of_bytes (bytes_of_string s) = s"
  by (simp add: string_of_bytes_def bytes_of_string_def o_def)

lemma bytes_of_string_of_bytes [simp]: "bytes_of_string (string_of_bytes b) = b"
  by (simp add: string_of_bytes_def bytes_of_string_def o_def)

lemma length_bytes_of_string [simp]: "length (bytes_of_string s) = length s"
  by (simp add: bytes_of_string_def)

lemma length_string_of_bytes [simp]: "length (string_of_bytes b) = length b"
  by (simp add: string_of_bytes_def)

lemma bytes_of_string_append [simp]:
  "bytes_of_string (s @ t) = bytes_of_string s @ bytes_of_string t"
  by (simp add: bytes_of_string_def)

lemma bytes_of_string_inject [simp]: "bytes_of_string s = bytes_of_string t \<longleftrightarrow> s = t"
  by (metis string_of_bytes_of_string)

section \<open>Errors and results\<close>

text \<open>
  Go's \<^verbatim>\<open>error\<close> values. \<open>AfpError\<close> is \<^verbatim>\<open>*afp.Error\<close>, \<open>PathError\<close> is
  \<^verbatim>\<open>*os.PathError\<close>, \<open>Errorf\<close> is what \<^verbatim>\<open>fmt.Errorf\<close> builds, with its format string and
  arguments (a \<^verbatim>\<open>%w\<close> argument is an \<open>AErr\<close>, so wrapped errors stay reachable); the
  sentinels of \<^verbatim>\<open>io\<close>, \<^verbatim>\<open>net\<close> and \<^verbatim>\<open>os\<close> are constants; \<open>Opaque\<close> is an error that
  comes from outside the program (the network, a context, the random source).
\<close>

datatype goerr =
    AfpError string int
  | Errorf string "fmtarg list"
  | PathError string string goerr
  | EOF
  | ErrUnexpectedEOF
  | ErrClosed
  | ErrNotExist
  | ErrPermission
  | ErrExist
  | Opaque string
and fmtarg = AInt int | AStr string | AStrs "string list" | AErr goerr

text \<open>
  The outcome of a Go call: a value, an error, or a run-time panic. A call that does not
  return at all has no outcome (see \<open>io\<close> below).
\<close>

datatype 'a res = Ok 'a | Err goerr | Panic

fun res_bind :: "'a res \<Rightarrow> ('a \<Rightarrow> 'b res) \<Rightarrow> 'b res" where
  "res_bind (Ok a) f = f a"
| "res_bind (Err e) f = Err e"
| "res_bind Panic f = Panic"

lemma res_bind_Ok_iff: "res_bind m f = Ok b \<longleftrightarrow> (\<exists>a. m = Ok a \<and> f a = Ok b)"
  by (cases m) auto

lemma res_bind_Panic_iff: "res_bind m f = Panic \<longleftrightarrow> m = Panic \<or> (\<exists>a. m = Ok a \<and> f a = Panic)"
  by (cases m) auto

fun of_err :: "goerr option \<Rightarrow> unit res" where
  "of_err None = Ok ()"
| "of_err (Some e) = Err e"

lemma of_err_not_Panic [simp]: "of_err e \<noteq> Panic"
  by (cases e) auto

section \<open>Indexing and slicing, with Go's bounds checks\<close>

text \<open>\<^verbatim>\<open>b[i]\<close> and \<^verbatim>\<open>b[i:j]\<close> panic outside the slice.\<close>

definition go_index :: "'a list \<Rightarrow> int \<Rightarrow> 'a res" where
  "go_index b i = (if 0 \<le> i \<and> i < int (length b) then Ok (b ! nat i) else Panic)"

definition go_slice :: "'a list \<Rightarrow> int \<Rightarrow> int \<Rightarrow> 'a list res" where
  "go_slice b i j =
     (if 0 \<le> i \<and> i \<le> j \<and> j \<le> int (length b) then Ok (take (nat (j - i)) (drop (nat i) b))
      else Panic)"

lemma go_index_Ok [simp]: "0 \<le> i \<Longrightarrow> i < int (length b) \<Longrightarrow> go_index b i = Ok (b ! nat i)"
  by (simp add: go_index_def)

lemma go_slice_Ok [simp]:
  "0 \<le> i \<Longrightarrow> i \<le> j \<Longrightarrow> j \<le> int (length b) \<Longrightarrow>
   go_slice b i j = Ok (take (nat (j - i)) (drop (nat i) b))"
  by (simp add: go_slice_def)

lemma take_drop_glue: "m + n = k \<Longrightarrow> take n (drop m xs) @ drop k xs = drop m xs"
  using append_take_drop_id [of n "drop m xs"] by (simp add: add.commute)

section \<open>Big-endian integers\<close>

text \<open>
  \<open>be_val\<close> is \<^verbatim>\<open>big.Int.SetBytes\<close>; \<open>be_bytes n\<close> writes the low \<open>n\<close> bytes of a
  value, most significant first, as \<^verbatim>\<open>binary.BigEndian.PutUint16/32/64\<close> do for
  \<open>n = 2, 4, 8\<close>.
\<close>

fun be_val_acc :: "nat \<Rightarrow> bytes \<Rightarrow> nat" where
  "be_val_acc a [] = a"
| "be_val_acc a (b # bs) = be_val_acc (a * 256 + unat b) bs"

definition be_val :: "bytes \<Rightarrow> nat" where
  "be_val bs = be_val_acc 0 bs"

fun be_bytes :: "nat \<Rightarrow> nat \<Rightarrow> bytes" where
  "be_bytes 0 v = []"
| "be_bytes (Suc n) v = be_bytes n (v div 256) @ [word_of_nat v]"

lemma length_be_bytes [simp]: "length (be_bytes n v) = n"
  by (induction n arbitrary: v) auto

lemma be_val_acc_append: "be_val_acc a (xs @ ys) = be_val_acc (be_val_acc a xs) ys"
  by (induction xs arbitrary: a) auto

lemma be_val_snoc: "be_val (xs @ [b]) = be_val xs * 256 + unat b"
  by (simp add: be_val_def be_val_acc_append)

lemma be_val_Nil [simp]: "be_val [] = 0"
  by (simp add: be_val_def)

lemma unat_byte_of_nat: "unat (word_of_nat v :: byte) = v mod 256"
  by (simp add: unat_of_nat)

lemma unat_byte_less [simp]: "unat (b :: byte) < 256"
  using unsigned_less [of b] by simp

lemma be_val_be_bytes [codec_simps]: "be_val (be_bytes n v) = v mod 256 ^ n"
proof (induction n arbitrary: v)
  case 0
  then show ?case by simp
next
  case (Suc n)
  have "be_val (be_bytes (Suc n) v) = (v div 256 mod 256 ^ n) * 256 + v mod 256"
    by (simp add: be_val_snoc Suc.IH unat_byte_of_nat)
  also have "\<dots> = v mod (256 * 256 ^ n)"
    by (simp add: mod_mult2_eq mult.commute)
  finally show ?case by simp
qed

lemma be_val_less: "be_val bs < 256 ^ length bs"
proof (induction bs rule: rev_induct)
  case Nil
  then show ?case by simp
next
  case (snoc b bs)
  have "be_val bs * 256 + unat b < (be_val bs + 1) * 256"
    using unat_byte_less [of b] by simp
  also have "\<dots> \<le> 256 ^ length bs * 256"
    using snoc.IH by (intro mult_right_mono) auto
  finally have "be_val bs * 256 + unat b < 256 ^ length bs * 256" .
  then show ?case by (simp add: be_val_snoc)
qed

lemma be_bytes_be_val [codec_simps]: "be_bytes (length bs) (be_val bs) = bs"
proof (induction bs rule: rev_induct)
  case Nil
  then show ?case by simp
next
  case (snoc b bs)
  have "(word_of_nat (be_val bs * 256 + unat b) :: byte) = b"
  proof (rule word_unat_eq_iff [THEN iffD2])
    show "unat (word_of_nat (be_val bs * 256 + unat b) :: byte) = unat b"
      by (simp only: unat_byte_of_nat) simp
  qed
  with snoc.IH show ?case by (simp add: be_val_snoc)
qed

section \<open>Fixed-width codecs\<close>

text \<open>
  What a pair of an encoder and a decoder of \<open>width\<close> bytes promises: both directions of the
  round trip. The clients (the wire reader and builder, the packet header) read a field off
  the front of a longer buffer, and tell values apart by their encodings.
\<close>

locale codec =
  fixes enc :: "'a \<Rightarrow> bytes"
    and dec :: "bytes \<Rightarrow> 'a"
    and width :: nat
  assumes enc_len: "length (enc x) = width"
    and dec_enc: "dec (enc x) = x"
    and enc_dec: "length bs = width \<Longrightarrow> enc (dec bs) = bs"
begin

lemma enc_inject: "enc x = enc y \<longleftrightarrow> x = y"
  by (metis dec_enc)

lemma dec_inject: "length as = width \<Longrightarrow> length bs = width \<Longrightarrow> dec as = dec bs \<longleftrightarrow> as = bs"
  by (metis enc_dec)

lemma dec_front: "dec (take width (enc x @ rest)) = x"
  using enc_len [of x] dec_enc [of x] by simp

lemma drop_front: "drop width (enc x @ rest) = rest"
  using enc_len [of x] by simp

lemma enc_append_inject: "enc x @ as = enc y @ bs \<longleftrightarrow> x = y \<and> as = bs"
  using enc_len [of x] enc_len [of y] enc_inject [of x y] by auto

lemma enc_unique: "length bs = width \<Longrightarrow> \<exists>!x. enc x = bs"
  using enc_dec enc_inject by metis

end

definition put16 :: "16 word \<Rightarrow> bytes" where
  "put16 v = be_bytes 2 (unat v)"

definition get16 :: "bytes \<Rightarrow> 16 word" where
  "get16 bs = word_of_nat (be_val bs)"

definition put32 :: "32 word \<Rightarrow> bytes" where
  "put32 v = be_bytes 4 (unat v)"

definition get32 :: "bytes \<Rightarrow> 32 word" where
  "get32 bs = word_of_nat (be_val bs)"

definition put64 :: "64 word \<Rightarrow> bytes" where
  "put64 v = be_bytes 8 (unat v)"

definition get64 :: "bytes \<Rightarrow> 64 word" where
  "get64 bs = word_of_nat (be_val bs)"

lemma be_word_decode:
  assumes "256 ^ n = (2 :: nat) ^ LENGTH('a)"
  shows "word_of_nat (be_val (be_bytes n (unat v))) = (v :: 'a::len word)"
proof -
  have "unat v < 256 ^ n"
    unfolding assms by (rule unsigned_less)
  then show ?thesis by (simp add: be_val_be_bytes)
qed

lemma be_word_encode:
  assumes "256 ^ n = (2 :: nat) ^ LENGTH('a)" and "length bs = n"
  shows "be_bytes n (unat (word_of_nat (be_val bs) :: 'a::len word)) = bs"
proof -
  have "be_val bs < 2 ^ LENGTH('a)"
    using be_val_less [of bs] assms by simp
  then have "unat (word_of_nat (be_val bs) :: 'a word) = be_val bs"
    by (simp add: unat_of_nat)
  with assms(2) show ?thesis
    using be_bytes_be_val [of bs] by simp
qed

interpretation c8: codec "\<lambda>b. [b]" "\<lambda>bs. bs ! 0" 1
  by unfold_locales (auto simp: length_Suc_conv)

interpretation c16: codec put16 get16 2
  by unfold_locales (simp_all add: put16_def get16_def be_word_decode be_word_encode)

interpretation c32: codec put32 get32 4
  by unfold_locales (simp_all add: put32_def get32_def be_word_decode be_word_encode)

interpretation c64: codec put64 get64 8
  by unfold_locales (simp_all add: put64_def get64_def be_word_decode be_word_encode)

lemmas put_len [simp] = c16.enc_len c32.enc_len c64.enc_len
lemmas get_put [simp, codec_simps] = c16.dec_enc c32.dec_enc c64.dec_enc
lemmas put_get [codec_simps] = c16.enc_dec c32.enc_dec c64.enc_dec

section \<open>Stateful computations\<close>

text \<open>
  A Go call with effects takes the state and gives its outcome and the new state, or
  \<open>None\<close> when it does not return (a loop without end, a wait that nothing ends).
  \<open>io_bind\<close> sequences two calls with the early return of \<^verbatim>\<open>if err != nil { return err }\<close>;
  \<open>io_catch\<close> is the branch of a caller that handles the error; \<open>io_defer\<close> runs a
  deferred call on every way out, whose own error is dropped.
\<close>

type_synonym ('s, 'a) io = "'s \<Rightarrow> ('a res \<times> 's) option"

definition io_ret :: "'a \<Rightarrow> ('s, 'a) io" where
  [io_defs]: "io_ret a = (\<lambda>s. Some (Ok a, s))"

definition io_res :: "'a res \<Rightarrow> ('s, 'a) io" where
  [io_defs]: "io_res r = (\<lambda>s. Some (r, s))"

definition io_bind :: "('s, 'a) io \<Rightarrow> ('a \<Rightarrow> ('s, 'b) io) \<Rightarrow> ('s, 'b) io" where
  [io_defs]: "io_bind m f = (\<lambda>s.
     case m s of
       None \<Rightarrow> None
     | Some (r, s') \<Rightarrow>
         (case r of Ok a \<Rightarrow> f a s' | Err e \<Rightarrow> Some (Err e, s') | Panic \<Rightarrow> Some (Panic, s')))"

definition io_catch :: "('s, 'a) io \<Rightarrow> (goerr \<Rightarrow> ('s, 'a) io) \<Rightarrow> ('s, 'a) io" where
  [io_defs]: "io_catch m h = (\<lambda>s.
     case m s of
       None \<Rightarrow> None
     | Some (r, s') \<Rightarrow>
         (case r of Ok a \<Rightarrow> Some (Ok a, s') | Err e \<Rightarrow> h e s' | Panic \<Rightarrow> Some (Panic, s')))"

definition io_defer :: "('s, 'a) io \<Rightarrow> ('s, 'b) io \<Rightarrow> ('s, 'a) io" where
  [io_defs]: "io_defer m d = (\<lambda>s.
     case m s of
       None \<Rightarrow> None
     | Some (r, s') \<Rightarrow>
         (case d s' of
            None \<Rightarrow> None
          | Some (r', s'') \<Rightarrow> Some (if r' = Panic then Panic else r, s'')))"

lemma io_bind_run [simp]:
  "m s = None \<Longrightarrow> io_bind m f s = None"
  "m s = Some (Ok a, s') \<Longrightarrow> io_bind m f s = f a s'"
  "m s = Some (Err e, s') \<Longrightarrow> io_bind m f s = Some (Err e, s')"
  "m s = Some (Panic, s') \<Longrightarrow> io_bind m f s = Some (Panic, s')"
  by (simp_all add: io_bind_def)

lemma io_bind_ret [simp]: "io_bind (io_ret a) f = f a"
  by (simp add: io_defs)

lemma io_ret_bind [simp]: "io_bind m io_ret = m"
  by (rule ext) (auto simp: io_defs split: option.splits res.splits)

lemma io_bind_assoc: "io_bind (io_bind m f) g = io_bind m (\<lambda>a. io_bind (f a) g)"
  by (rule ext) (auto simp: io_defs split: option.splits res.splits)

lemma io_bind_Some_Ok:
  "io_bind m f s = Some (Ok b, s'') \<longleftrightarrow>
   (\<exists>a s'. m s = Some (Ok a, s') \<and> f a s' = Some (Ok b, s''))"
  by (auto simp: io_bind_def split: option.splits res.splits)

subsection \<open>Properties of the state that a computation keeps\<close>

definition io_keeps :: "('s \<Rightarrow> bool) \<Rightarrow> ('s, 'a) io \<Rightarrow> bool" where
  "io_keeps P m \<longleftrightarrow> (\<forall>s r s'. P s \<longrightarrow> m s = Some (r, s') \<longrightarrow> P s')"

lemma io_keepsD: "io_keeps P m \<Longrightarrow> P s \<Longrightarrow> m s = Some (r, s') \<Longrightarrow> P s'"
  by (auto simp: io_keeps_def)

lemma io_keeps_ret [simp, intro!]: "io_keeps P (io_ret a)"
  by (auto simp: io_keeps_def io_defs)

lemma io_keeps_res [simp, intro!]: "io_keeps P (io_res r)"
  by (auto simp: io_keeps_def io_defs)

lemma io_keeps_bind [intro]:
  assumes "io_keeps P m" and "\<And>a. io_keeps P (f a)"
  shows "io_keeps P (io_bind m f)"
  unfolding io_keeps_def
proof (intro allI impI)
  fix s r s' assume "P s" and "io_bind m f s = Some (r, s')"
  then show "P s'"
    using io_keepsD [OF assms(1) \<open>P s\<close>] io_keepsD [OF assms(2)]
    by (auto simp: io_bind_def split: option.splits res.splits)
qed

lemma io_keeps_catch [intro]:
  assumes "io_keeps P m" and "\<And>e. io_keeps P (h e)"
  shows "io_keeps P (io_catch m h)"
  unfolding io_keeps_def
proof (intro allI impI)
  fix s r s' assume "P s" and "io_catch m h s = Some (r, s')"
  then show "P s'"
    using io_keepsD [OF assms(1) \<open>P s\<close>] io_keepsD [OF assms(2)]
    by (auto simp: io_catch_def split: option.splits res.splits)
qed

lemma io_keeps_defer [intro]:
  assumes "io_keeps P m" and "io_keeps P d"
  shows "io_keeps P (io_defer m d)"
  unfolding io_keeps_def
proof (intro allI impI)
  fix s r s' assume "P s" and "io_defer m d s = Some (r, s')"
  then show "P s'"
    using io_keepsD [OF assms(1) \<open>P s\<close>] io_keepsD [OF assms(2)]
    by (auto simp: io_defer_def split: option.splits)
qed

subsection \<open>Computations that return, do not panic and keep an invariant\<close>

definition io_safe :: "('s \<Rightarrow> bool) \<Rightarrow> ('s, 'a) io \<Rightarrow> bool" where
  "io_safe P m \<longleftrightarrow> (\<forall>s. P s \<longrightarrow> (\<exists>r s'. m s = Some (r, s') \<and> r \<noteq> Panic \<and> P s'))"

lemma io_safeD: "io_safe P m \<Longrightarrow> P s \<Longrightarrow> \<exists>r s'. m s = Some (r, s') \<and> r \<noteq> Panic \<and> P s'"
  by (auto simp: io_safe_def)

lemma io_safeE:
  assumes "io_safe P m" and "P s"
  obtains (Ok) a s' where "m s = Some (Ok a, s')" "P s'"
    | (Err) e s' where "m s = Some (Err e, s')" "P s'"
proof -
  obtain r s' where "m s = Some (r, s')" "r \<noteq> Panic" "P s'"
    using io_safeD [OF assms] by blast
  then show thesis using Ok Err by (cases r) auto
qed

lemma io_safe_ret [simp, intro!]: "io_safe P (io_ret a)"
  by (auto simp: io_safe_def io_defs)

lemma io_safe_res [simp, intro]: "r \<noteq> Panic \<Longrightarrow> io_safe P (io_res r)"
  by (auto simp: io_safe_def io_defs)

lemma io_safe_bind [intro]:
  assumes "io_safe P m" and "\<And>a. io_safe P (f a)"
  shows "io_safe P (io_bind m f)"
  unfolding io_safe_def
proof (intro allI impI)
  fix s assume "P s"
  from assms(1) this show "\<exists>r s'. io_bind m f s = Some (r, s') \<and> r \<noteq> Panic \<and> P s'"
  proof (cases rule: io_safeE)
    case (Ok a s')
    then show ?thesis using io_safeD [OF assms(2) \<open>P s'\<close>, of a] by simp
  qed simp
qed

lemma io_safe_catch [intro]:
  assumes "io_safe P m" and "\<And>e. io_safe P (h e)"
  shows "io_safe P (io_catch m h)"
  unfolding io_safe_def
proof (intro allI impI)
  fix s assume "P s"
  from assms(1) this show "\<exists>r s'. io_catch m h s = Some (r, s') \<and> r \<noteq> Panic \<and> P s'"
  proof (cases rule: io_safeE)
    case (Err e s')
    then show ?thesis using io_safeD [OF assms(2) \<open>P s'\<close>, of e] by (simp add: io_catch_def)
  qed (simp add: io_catch_def)
qed

lemma io_safe_defer [intro]:
  assumes "io_safe P m" and "io_safe P d"
  shows "io_safe P (io_defer m d)"
  unfolding io_safe_def
proof (intro allI impI)
  fix s assume "P s"
  then obtain r s' where m: "m s = Some (r, s')" "r \<noteq> Panic" "P s'"
    using io_safeD [OF assms(1)] by blast
  then obtain r' s'' where "d s' = Some (r', s'')" "r' \<noteq> Panic" "P s''"
    using io_safeD [OF assms(2)] by blast
  with m show "\<exists>r s'. io_defer m d s = Some (r, s') \<and> r \<noteq> Panic \<and> P s'"
    by (simp add: io_defer_def)
qed

lemma io_safe_bind_res:
  "r \<noteq> Panic \<Longrightarrow> (\<And>a. r = Ok a \<Longrightarrow> io_safe P (f a)) \<Longrightarrow> io_safe P (io_bind (io_res r) f)"
  by (cases r) (auto simp: io_safe_def io_defs)

lemma io_safe_prod [intro]: "(\<And>a b. io_safe P (f a b)) \<Longrightarrow> io_safe P (case x of (a, b) \<Rightarrow> f a b)"
  by (cases x) simp

lemma io_safe_if [intro]: "(c \<Longrightarrow> io_safe P m) \<Longrightarrow> (\<not> c \<Longrightarrow> io_safe P n) \<Longrightarrow> io_safe P (if c then m else n)"
  by simp

lemma io_safe_keeps: "io_safe P m \<Longrightarrow> io_keeps P m"
  unfolding io_safe_def io_keeps_def by fastforce

subsection \<open>Computations that return, perhaps by a panic, and keep an invariant\<close>

definition io_ends :: "('s \<Rightarrow> bool) \<Rightarrow> ('s, 'a) io \<Rightarrow> bool" where
  "io_ends P m \<longleftrightarrow> (\<forall>s. P s \<longrightarrow> (\<exists>r s'. m s = Some (r, s') \<and> P s'))"

lemma io_endsD: "io_ends P m \<Longrightarrow> P s \<Longrightarrow> \<exists>r s'. m s = Some (r, s') \<and> P s'"
  by (auto simp: io_ends_def)

lemma io_safe_ends: "io_safe P m \<Longrightarrow> io_ends P m"
  unfolding io_safe_def io_ends_def by blast

lemma io_ends_ret [intro!]: "io_ends P (io_ret a)" and io_ends_res [intro!]: "io_ends P (io_res r)"
  by (simp_all add: io_ends_def io_defs)

lemma io_ends_bind [intro]:
  assumes "io_ends P m" and "\<And>a s s'. m s = Some (Ok a, s') \<Longrightarrow> io_ends P (f a)"
  shows "io_ends P (io_bind m f)"
  unfolding io_ends_def
proof (intro allI impI)
  fix s assume "P s"
  then obtain r s' where m: "m s = Some (r, s')" "P s'" using io_endsD [OF assms(1)] by blast
  then show "\<exists>r s'. io_bind m f s = Some (r, s') \<and> P s'"
    using io_endsD [OF assms(2)] by (cases r) (auto simp: io_bind_def)
qed

lemma io_ends_defer [intro]:
  assumes "io_ends P m" and "io_ends P d"
  shows "io_ends P (io_defer m d)"
  unfolding io_ends_def
proof (intro allI impI)
  fix s assume "P s"
  then obtain r s' where m: "m s = Some (r, s')" "P s'" using io_endsD [OF assms(1)] by blast
  then obtain r' s'' where "d s' = Some (r', s'')" "P s''" using io_endsD [OF assms(2)] by blast
  with m show "\<exists>r s'. io_defer m d s = Some (r, s') \<and> P s'" by (simp add: io_defer_def)
qed

lemma io_ends_prod [intro]: "(\<And>a b. io_ends P (f a b)) \<Longrightarrow> io_ends P (case x of (a, b) \<Rightarrow> f a b)"
  by (cases x) simp

lemma io_ends_option [intro]:
  "io_ends P m \<Longrightarrow> (\<And>a. io_ends P (f a)) \<Longrightarrow> io_ends P (case x of None \<Rightarrow> m | Some a \<Rightarrow> f a)"
  by (cases x) simp_all

lemma io_ends_if [intro]: "io_ends P m \<Longrightarrow> io_ends P n \<Longrightarrow> io_ends P (if c then m else n)"
  by simp

section \<open>Invariants of state machines\<close>

text \<open>
  The interface of an inductive invariant: it holds at the start and every step keeps it.
  Client: it holds in every state a run reaches, and so does what it implies.
\<close>

locale invariant =
  fixes init :: "'s \<Rightarrow> bool"
    and step :: "'s \<Rightarrow> 's \<Rightarrow> bool"
    and inv :: "'s \<Rightarrow> bool"
  assumes inv_init: "init s \<Longrightarrow> inv s"
    and inv_step: "inv s \<Longrightarrow> step s t \<Longrightarrow> inv t"
begin

lemma inv_steps: "step\<^sup>*\<^sup>* s t \<Longrightarrow> inv s \<Longrightarrow> inv t"
  by (induction rule: rtranclp_induct) (auto intro: inv_step)

lemma inv_reach: "init s \<Longrightarrow> step\<^sup>*\<^sup>* s t \<Longrightarrow> inv t"
  using inv_steps inv_init by blast

end

end
