(* ===== verification/Dsi_Header.thy ===== *)
theory Dsi_Header
  imports Prelude
begin

text \<open>\<^verbatim>\<open>internal/dsi/header.go\<close>: the DSI command codes and the 16-byte packet header.\<close>

definition CmdCloseSession :: "8 word" where "CmdCloseSession = 1"
definition CmdCommand :: "8 word" where "CmdCommand = 2"
definition CmdGetStatus :: "8 word" where "CmdGetStatus = 3"
definition CmdOpenSession :: "8 word" where "CmdOpenSession = 4"
definition CmdTickle :: "8 word" where "CmdTickle = 5"
definition CmdWrite :: "8 word" where "CmdWrite = 6"
definition CmdAttention :: "8 word" where "CmdAttention = 8"

definition flagRequest :: "8 word" where "flagRequest = 0"
definition flagReply :: "8 word" where "flagReply = 1"

lemmas dsi_codes =
  CmdCloseSession_def CmdCommand_def CmdGetStatus_def CmdOpenSession_def CmdTickle_def
  CmdWrite_def CmdAttention_def flagRequest_def flagReply_def

definition HeaderSize :: nat where "HeaderSize = 16"

record header =
  Flags :: "8 word"
  Command :: "8 word"
  RequestID :: "16 word"
  ErrCode :: "32 word"
  Length :: "32 word"
  Reserved :: "32 word"

definition encode :: "header \<Rightarrow> bytes" where
  "encode h =
     [Flags h, Command h] @ put16 (RequestID h) @ put32 (ErrCode h) @ put32 (Length h)
       @ put32 (Reserved h)"

definition decodeHeader :: "bytes \<Rightarrow> header" where
  "decodeHeader b =
     \<lparr>Flags = b ! 0, Command = b ! 1,
      RequestID = get16 (take 2 (drop 2 b)),
      ErrCode = get32 (take 4 (drop 4 b)),
      Length = get32 (take 4 (drop 8 b)),
      Reserved = get32 (take 4 (drop 12 b))\<rparr>"

lemma length_encode [simp]: "length (encode h) = HeaderSize"
  by (simp add: encode_def HeaderSize_def)

lemma decodeHeader_encode [simp]: "decodeHeader (encode h) = h"
  by (simp add: decodeHeader_def encode_def)

lemma split_header_bytes:
  assumes "length b = 16"
  shows "[b ! 0, b ! 1] @ take 2 (drop 2 b) @ take 4 (drop 4 b) @ take 4 (drop 8 b)
           @ take 4 (drop 12 b) = b"
proof -
  have "[b ! 0, b ! 1] @ drop 2 b = b"
    using assms by (cases b; cases "tl b") auto
  moreover have "take 4 (drop 12 b) = drop 12 b" using assms by simp
  ultimately show ?thesis
    by (simp add: take_drop_glue)
qed

lemma encode_decodeHeader: "length b = HeaderSize \<Longrightarrow> encode (decodeHeader b) = b"
  using split_header_bytes [of b]
  by (simp add: encode_def decodeHeader_def HeaderSize_def c16.enc_dec c32.enc_dec)

interpretation hdr: codec encode decodeHeader HeaderSize
  by unfold_locales (simp_all add: encode_decodeHeader)

end
