(* ===== verification/Dsi_Conn.thy ===== *)
theory Dsi_Conn
  imports Dsi_Header
begin

text \<open>
  \<^verbatim>\<open>internal/dsi/conn.go\<close>: the state of a connection, its atomic operations, the reader
  loop over the incoming bytes, and a request as one caller performs it. Concurrent callers
  are the subject of \<open>Dsi_Mux\<close>.
\<close>

section \<open>State and atomic operations\<close>

definition maxPayload :: nat where "maxPayload = 16 * 2 ^ 20"
definition attentionQuantum :: "32 word" where "attentionQuantum = 1024"
definition optServerQuantum :: "8 word" where "optServerQuantum = 0"
definition optAttentionQuantum :: "8 word" where "optAttentionQuantum = 1"

record reply =
  Header :: header
  Payload :: bytes

text \<open>
  A channel is named by a number; \<open>doneClosed\<close> says whether the channel \<^verbatim>\<open>done\<close> is closed and
  \<open>ncClosed\<close> whether \<^verbatim>\<open>nc.Close\<close> was called.
\<close>

record conn =
  nextID :: "16 word"
  pending :: "16 word \<rightharpoonup> nat"
  closeErr :: "goerr option"
  doneClosed :: bool
  ncClosed :: bool
  ServerQuantum :: "32 word"

definition NewConn :: conn where
  "NewConn = \<lparr>nextID = 0, pending = Map.empty, closeErr = None, doneClosed = False,
     ncClosed = False, ServerQuantum = 0\<rparr>"

text \<open>
  The search of \<^verbatim>\<open>register\<close> for a free ID has no exit when all 65536 are taken: it then
  does not return (\<open>None\<close>), while it holds the mutex.
\<close>

partial_function (option) register_loop :: "(16 word \<rightharpoonup> nat) \<Rightarrow> 16 word \<Rightarrow> 16 word option" where
  "register_loop p i = (if p (i + 1) = None then Some (i + 1) else register_loop p (i + 1))"

definition register :: "nat \<Rightarrow> (conn, 16 word) io" where
  "register ch c =
     (case closeErr c of
        Some e \<Rightarrow> Some (Err e, c)
      | None \<Rightarrow>
          (case register_loop (pending c) (nextID c) of
             None \<Rightarrow> None
           | Some i \<Rightarrow> Some (Ok i, c\<lparr>nextID := i, pending := (pending c)(i \<mapsto> ch)\<rparr>)))"

definition unregister :: "16 word \<Rightarrow> conn \<Rightarrow> conn" where
  "unregister i c = c\<lparr>pending := (pending c)(i := None)\<rparr>"

definition newID :: "conn \<Rightarrow> 16 word \<times> conn" where
  "newID c = (nextID c + 1, c\<lparr>nextID := nextID c + 1\<rparr>)"

definition IsAlive :: "conn \<Rightarrow> bool" where
  "IsAlive c \<longleftrightarrow> closeErr c = None"

text \<open>\<^verbatim>\<open>close(c.done)\<close> panics when the channel is closed already.\<close>

definition conn_fail :: "goerr \<Rightarrow> (conn, unit) io" where
  "conn_fail e c =
     (if closeErr c \<noteq> None then Some (Ok (), c)
      else if doneClosed c then Some (Panic, c)
      else Some (Ok (), c\<lparr>closeErr := Some e, doneClosed := True\<rparr>))"

definition nc_Close :: "(conn, unit) io" where
  "nc_Close c = Some (Ok (), c\<lparr>ncClosed := True\<rparr>)"

text \<open>The bytes \<^verbatim>\<open>send\<close> hands to the transport in one write.\<close>

definition packet :: "header \<Rightarrow> bytes \<Rightarrow> bytes" where
  "packet h payload = encode h @ payload"

section \<open>The reader loop\<close>

text \<open>\<^verbatim>\<open>io.ReadFull\<close> on a stream that holds \<open>inp\<close> and then fails with \<open>e\<close>.\<close>

definition readFull :: "goerr \<Rightarrow> bytes \<Rightarrow> nat \<Rightarrow> (goerr + bytes) \<times> bytes" where
  "readFull e inp n =
     (if n \<le> length inp then (Inr (take n inp), drop n inp)
      else (Inl (if e = EOF \<and> inp \<noteq> [] then ErrUnexpectedEOF else e), []))"

text \<open>What the two reads at the head of an iteration give.\<close>

datatype inbound = HeaderErr goerr | PayloadErr header goerr | Frame header bytes

definition next_inbound :: "goerr \<Rightarrow> bytes \<Rightarrow> inbound \<times> bytes" where
  "next_inbound e inp =
     (case readFull e inp HeaderSize of
        (Inl er, inp1) \<Rightarrow> (HeaderErr er, inp1)
      | (Inr hb, inp1) \<Rightarrow>
          let h = decodeHeader hb in
          if unat (Length h) > maxPayload then (Frame h [], inp1)
          else (case readFull e inp1 (unat (Length h)) of
                  (Inl er, inp2) \<Rightarrow> (PayloadErr h er, inp2)
                | (Inr payload, inp2) \<Rightarrow> (Frame h payload, inp2)))"

text \<open>
  One iteration of \<^verbatim>\<open>readLoop\<close>: the reply to hand to a waiting channel, if any, and whether
  the loop goes on.
\<close>

definition too_large :: "header \<Rightarrow> goerr" where
  "too_large h = Errorf ''dsi: server claims %d byte payload'' [AInt (uint (Length h))]"

definition server_closed :: goerr where
  "server_closed = Errorf ''dsi: server closed the session'' []"

fun readLoop_iter :: "inbound \<Rightarrow> (conn, (nat \<times> reply) option \<times> bool) io" where
  "readLoop_iter (HeaderErr e) c = io_bind (conn_fail e) (\<lambda>_. io_ret (None, False)) c"
| "readLoop_iter (PayloadErr h e) c = io_bind (conn_fail e) (\<lambda>_. io_ret (None, False)) c"
| "readLoop_iter (Frame h payload) c =
     (if unat (Length h) > maxPayload then
        io_bind (conn_fail (too_large h)) (\<lambda>_.
        io_bind nc_Close (\<lambda>_. io_ret (None, False))) c
      else if Flags h = flagReply then
        (case pending c (RequestID h) of
           None \<Rightarrow> io_ret (None, True) c
         | Some ch \<Rightarrow> io_ret (Some (ch, \<lparr>Header = h, Payload = payload\<rparr>), True) c)
      else if Command h = CmdCloseSession then
        io_bind (conn_fail server_closed) (\<lambda>_.
        io_bind nc_Close (\<lambda>_. io_ret (None, False))) c
      else io_ret (None, True) c)"

text \<open>
  The loop over the bytes that have arrived, with the deliveries it makes in order and the
  bytes left over. \<open>fe\<close> is the error the stream ends in, \<open>None\<close> while it is open: the
  loop is then blocked in \<^verbatim>\<open>io.ReadFull\<close> as soon as no whole packet is there. This is the
  run of the reader in which \<^verbatim>\<open>ch <- Reply\<close> always finds room in the channel and no other
  goroutine changes the table meanwhile; \<open>readLoop_frames\<close> of \<open>Dsi_Mux\<close> shows when the
  interleaved reader does just that, \<open>reader_wedged\<close> what happens when a channel is full.
\<close>

definition frame_ready :: "bytes \<Rightarrow> bool" where
  "frame_ready inp \<longleftrightarrow>
     HeaderSize \<le> length inp \<and>
     (let n = unat (Length (decodeHeader (take HeaderSize inp)))
      in n > maxPayload \<or> HeaderSize + n \<le> length inp)"

lemma next_inbound_shrinks:
  "next_inbound e inp = (Frame h p, inp') \<Longrightarrow> length inp' < length inp"
  by (cases "HeaderSize \<le> length inp")
     (auto simp: next_inbound_def readFull_def Let_def HeaderSize_def split: if_split_asm)

lemma readLoop_iter_more:
  "readLoop_iter ib c = Some (Ok (d, True), c') \<Longrightarrow> (\<exists>h p. ib = Frame h p) \<and> c' = c"
  by (cases ib) (auto simp: io_defs conn_fail_def nc_Close_def split: if_splits option.splits)

function readLoop ::
    "goerr option \<Rightarrow> bytes \<Rightarrow> (nat \<times> reply) list \<Rightarrow> (conn, (nat \<times> reply) list \<times> bytes) io" where
  "readLoop fe inp out c =
     (if fe = None \<and> \<not> frame_ready inp then Some (Ok (out, inp), c)
      else
        (case next_inbound (case fe of None \<Rightarrow> EOF | Some e \<Rightarrow> e) inp of
           (ib, inp') \<Rightarrow>
             (case readLoop_iter ib c of
                None \<Rightarrow> None
              | Some (Err er, c') \<Rightarrow> Some (Err er, c')
              | Some (Panic, c') \<Rightarrow> Some (Panic, c')
              | Some (Ok (d, go_on), c') \<Rightarrow>
                  let out' = (case d of None \<Rightarrow> out | Some x \<Rightarrow> out @ [x]) in
                  if go_on then readLoop fe inp' out' c' else Some (Ok (out', inp'), c'))))"
  by pat_completeness auto
termination
  by (relation "measure (\<lambda>(fe, inp, out, c). length inp)")
     (auto dest!: readLoop_iter_more dest: next_inbound_shrinks [OF sym])

declare readLoop.simps [simp del]

section \<open>A request\<close>

text \<open>
  The transport below the connection, a \<^verbatim>\<open>net.Conn\<close>: \<open>nc_Write\<close> sends bytes or fails;
  \<open>nc_arrive\<close> gives, for one wait of a caller, the bytes that arrive during it, the error
  the stream ends in, if it does, and the error of the caller's context, which ends a wait
  that nothing else ended. Both are functions: a write is taken to end, although the code sets no
  deadline on it, and a wait to end, as it does when the context has one.
\<close>

record 'w net =
  nc_Write :: "bytes \<Rightarrow> 'w \<Rightarrow> goerr option \<times> 'w"
  nc_arrive :: "'w \<Rightarrow> bytes \<times> goerr option \<times> goerr \<times> 'w"

text \<open>The connection, the number of channels made so far, the bytes not yet read, the world.\<close>

record 'w dsi =
  dconn :: conn
  dchan :: nat
  dinp :: bytes
  dworld :: 'w

definition on_conn :: "(conn, 'a) io \<Rightarrow> ('w dsi, 'a) io" where
  "on_conn m s =
     (case m (dconn s) of None \<Rightarrow> None | Some (r, c) \<Rightarrow> Some (r, s\<lparr>dconn := c\<rparr>))"

definition send :: "'w net \<Rightarrow> header \<Rightarrow> bytes \<Rightarrow> ('w dsi, unit) io" where
  "send N h payload s =
     (case nc_Write N (packet h payload) (dworld s) of
        (None, w) \<Rightarrow> Some (Ok (), s\<lparr>dworld := w\<rparr>)
      | (Some e, w) \<Rightarrow> Some (Err e, s\<lparr>dworld := w\<rparr>))"

definition zero_header :: header where
  "zero_header = \<lparr>Flags = 0, Command = 0, RequestID = 0, ErrCode = 0, Length = 0, Reserved = 0\<rparr>"

definition zero_reply :: reply where
  "zero_reply = \<lparr>Header = zero_header, Payload = []\<rparr>"

text \<open>The \<^verbatim>\<open>select\<close>: the first reply on the channel, the closed connection, or the context.\<close>

definition await :: "'w net \<Rightarrow> nat \<Rightarrow> ('w dsi, reply) io" where
  "await N ch s =
     (case nc_arrive N (dworld s) of
        (arr, fe, ctxe, w) \<Rightarrow>
          io_bind (on_conn (readLoop fe (dinp s @ arr) [])) (\<lambda>(ds, rest) s.
            case map_of ds ch of
              Some r \<Rightarrow> Some (Ok r, s\<lparr>dinp := rest\<rparr>)
            | None \<Rightarrow>
                if doneClosed (dconn s)
                then Some (case closeErr (dconn s) of Some e \<Rightarrow> Err e | None \<Rightarrow> Ok zero_reply,
                           s\<lparr>dinp := rest\<rparr>)
                else Some (Err ctxe, s\<lparr>dinp := rest\<rparr>))
          (s\<lparr>dworld := w\<rparr>))"

definition request_header :: "8 word \<Rightarrow> 16 word \<Rightarrow> 32 word \<Rightarrow> bytes \<Rightarrow> header" where
  "request_header cmd i errOrOffset payload =
     \<lparr>Flags = flagRequest, Command = cmd, RequestID = i, ErrCode = errOrOffset,
      Length = word_of_nat (length payload), Reserved = 0\<rparr>"

definition request :: "'w net \<Rightarrow> 8 word \<Rightarrow> 32 word \<Rightarrow> bytes \<Rightarrow> ('w dsi, reply) io" where
  "request N cmd errOrOffset payload s =
     (let ch = dchan s in
      io_bind (on_conn (register ch)) (\<lambda>i.
        io_defer
          (io_bind (send N (request_header cmd i errOrOffset payload) payload) (\<lambda>_. await N ch))
          (on_conn (\<lambda>c. Some (Ok (), unregister i c))))
      (s\<lparr>dchan := Suc ch\<rparr>))"

definition Request :: "'w net \<Rightarrow> 8 word \<Rightarrow> bytes \<Rightarrow> ('w dsi, reply) io" where
  "Request N cmd payload = request N cmd 0 payload"

definition RequestWrite :: "'w net \<Rightarrow> 32 word \<Rightarrow> bytes \<Rightarrow> ('w dsi, reply) io" where
  "RequestWrite N dataOffset payload = request N CmdWrite dataOffset payload"

section \<open>OpenSession, GetStatus, Close\<close>

text \<open>The option loop: the quantum found so far, and the error that ended the loop, if any.\<close>

fun open_options :: "bytes \<Rightarrow> 32 word \<Rightarrow> 32 word \<times> goerr option" where
  "open_options (typ # n # rest) q =
     (if unat n > length rest
      then (q, Some (Errorf ''dsi: malformed OpenSession option %#x'' [AInt (uint typ)]))
      else open_options (drop (unat n) rest)
             (if typ = optServerQuantum \<and> n = 4 then get32 (take 4 rest) else q))"
| "open_options rest q = (q, None)"

definition open_payload :: bytes where
  "open_payload = [optAttentionQuantum, 4] @ put32 attentionQuantum"

text \<open>The \<^verbatim>\<open>go c.tickleLoop\<close> of \<^verbatim>\<open>OpenSession\<close> is the step \<open>ticks\<close> of \<open>Dsi_Mux\<close>; one caller alone does not see it.\<close>

definition OpenSession :: "'w net \<Rightarrow> ('w dsi, unit) io" where
  "OpenSession N =
     io_bind (Request N CmdOpenSession open_payload) (\<lambda>r s.
       let (q, e) = open_options (Payload r) (ServerQuantum (dconn s))
       in Some (of_err e, s\<lparr>dconn := (dconn s)\<lparr>ServerQuantum := q\<rparr>\<rparr>))"

definition GetStatus :: "'w net \<Rightarrow> ('w dsi, bytes) io" where
  "GetStatus N = io_bind (Request N CmdGetStatus []) (\<lambda>r. io_ret (Payload r))"

text \<open>
  \<^verbatim>\<open>Close\<close> ignores the error of the farewell packet; the error of \<^verbatim>\<open>nc.Close\<close> itself,
  which its callers ignore, is not modelled. A tickle is the same packet with its own code.
\<close>

definition control_header :: "8 word \<Rightarrow> 16 word \<Rightarrow> header" where
  "control_header cmd i =
     \<lparr>Flags = flagRequest, Command = cmd, RequestID = i, ErrCode = 0, Length = 0, Reserved = 0\<rparr>"

definition conn_newID :: "('w dsi, 16 word) io" where
  "conn_newID = on_conn (\<lambda>c. Some (Ok (fst (newID c)), snd (newID c)))"

definition conn_Close :: "'w net \<Rightarrow> ('w dsi, unit) io" where
  "conn_Close N =
     io_bind conn_newID (\<lambda>i.
     io_bind (io_catch (send N (control_header CmdCloseSession i) []) (\<lambda>_. io_ret ())) (\<lambda>_.
     io_bind (on_conn nc_Close) (\<lambda>_. on_conn (conn_fail ErrClosed))))"

definition tickle :: "'w net \<Rightarrow> ('w dsi, unit) io" where
  "tickle N = io_bind conn_newID (\<lambda>i. send N (control_header CmdTickle i) [])"

text \<open>\<^verbatim>\<open>tickleLoop\<close> over the first \<open>n\<close> ticks of its timer.\<close>

fun tickleLoop :: "'w net \<Rightarrow> nat \<Rightarrow> ('w dsi, unit) io" where
  "tickleLoop N 0 s = Some (Ok (), s)"
| "tickleLoop N (Suc n) s =
     (if doneClosed (dconn s) then Some (Ok (), s)
      else (case tickle N s of
              None \<Rightarrow> None
            | Some (Panic, s') \<Rightarrow> Some (Panic, s')
            | Some (Err e, s') \<Rightarrow> Some (Ok (), s')
            | Some (Ok _, s') \<Rightarrow> tickleLoop N n s'))"

section \<open>The search for a free request ID\<close>

lemma register_loop_reaches:
  "p (i + word_of_nat (Suc k)) = None \<Longrightarrow>
   \<exists>j\<le>k. register_loop p i = Some (i + word_of_nat (Suc j))
        \<and> p (i + word_of_nat (Suc j)) = None \<and> (\<forall>m<j. p (i + word_of_nat (Suc m)) \<noteq> None)"
proof (induction k arbitrary: i)
  case 0
  then show ?case by (subst register_loop.simps) simp
next
  case (Suc k)
  show ?case
  proof (cases "p (i + 1) = None")
    case True
    then show ?thesis by (intro exI [of _ 0]) (subst register_loop.simps, simp)
  next
    case False
    have "p (i + 1 + word_of_nat (Suc k)) = None"
      using Suc.prems by (simp add: add.assoc)
    then obtain j where j: "j \<le> k"
        "register_loop p (i + 1) = Some (i + 1 + word_of_nat (Suc j))"
        "p (i + 1 + word_of_nat (Suc j)) = None"
        "\<forall>m<j. p (i + 1 + word_of_nat (Suc m)) \<noteq> None"
      using Suc.IH by blast
    have "register_loop p i = register_loop p (i + 1)"
      using False by (auto simp: register_loop.simps [of p i])
    moreover have "\<forall>m<Suc j. p (i + word_of_nat (Suc m)) \<noteq> None"
      using j(4) False by (auto simp: less_Suc_eq_0_disj add.assoc)
    ultimately show ?thesis
      using j(1-3) by (intro exI [of _ "Suc j"]) (simp add: add.assoc)
  qed
qed

lemma register_loop_free:
  assumes ret: "register_loop p i = Some j"
  shows "p j = None"
proof (rule register_loop.raw_induct [where P = "\<lambda>p i j. p j = None", OF _ ret])
  fix f :: "(16 word \<rightharpoonup> nat) \<Rightarrow> 16 word \<Rightarrow> 16 word option" and p i j
  assume "\<And>p i j. f p i = Some j \<Longrightarrow> p j = None"
    and "(if p (i + 1) = None then Some (i + 1) else f p (i + 1)) = Some j"
  then show "p j = None" by (cases "p (i + 1)") auto
qed

lemma register_loop_total: "p x = None \<Longrightarrow> \<exists>j. register_loop p i = Some j"
proof -
  assume "p x = None"
  moreover have "x = i + word_of_nat (Suc (unat (x - i - 1)))" by simp
  ultimately show ?thesis using register_loop_reaches [of p i "unat (x - i - 1)"] by metis
qed

lemma register_loop_iff: "(\<exists>j. register_loop p i = Some j) \<longleftrightarrow> (\<exists>x. p x = None)"
  using register_loop_free register_loop_total by blast

section \<open>The invariant of a connection\<close>

text \<open>The channel \<^verbatim>\<open>done\<close> is closed exactly when an error is recorded.\<close>

definition conn_ok :: "conn \<Rightarrow> bool" where
  "conn_ok c \<longleftrightarrow> (doneClosed c \<longleftrightarrow> closeErr c \<noteq> None)"

lemma conn_ok_New [simp]: "conn_ok NewConn"
  by (simp add: conn_ok_def NewConn_def)

lemma conn_ok_upd [simp]:
  "conn_ok (c\<lparr>nextID := i\<rparr>) = conn_ok c" "conn_ok (c\<lparr>pending := p\<rparr>) = conn_ok c"
  "conn_ok (c\<lparr>ncClosed := b\<rparr>) = conn_ok c" "conn_ok (c\<lparr>ServerQuantum := q\<rparr>) = conn_ok c"
  by (simp_all add: conn_ok_def)

lemma conn_fail_run:
  "conn_ok c \<Longrightarrow>
   conn_fail e c = Some (Ok (), if closeErr c = None
                                then c\<lparr>closeErr := Some e, doneClosed := True\<rparr> else c)"
  by (auto simp: conn_fail_def conn_ok_def)

lemma conn_ok_fail: "conn_ok c \<Longrightarrow> conn_fail e c = Some (r, c') \<Longrightarrow> conn_ok c'"
  by (auto simp: conn_fail_run conn_ok_def split: if_splits)

text \<open>What an iteration of the reader does not touch, and what it delivers.\<close>

definition same_table :: "conn \<Rightarrow> conn \<Rightarrow> bool" where
  "same_table c c' \<longleftrightarrow> nextID c' = nextID c \<and> pending c' = pending c
     \<and> ServerQuantum c' = ServerQuantum c \<and> (closeErr c \<noteq> None \<longrightarrow> closeErr c' = closeErr c)"

definition sound_reply :: "(16 word \<rightharpoonup> nat) \<Rightarrow> nat \<times> reply \<Rightarrow> bool" where
  "sound_reply p x \<longleftrightarrow> (case x of (ch, r) \<Rightarrow>
     p (RequestID (Header r)) = Some ch \<and> Flags (Header r) = flagReply
     \<and> length (Payload r) = unat (Length (Header r)) \<and> length (Payload r) \<le> maxPayload)"

definition inbound_ok :: "inbound \<Rightarrow> bool" where
  "inbound_ok ib = (case ib of
     Frame h p \<Rightarrow> unat (Length h) \<le> maxPayload \<longrightarrow> length p = unat (Length h) | _ \<Rightarrow> True)"

lemma next_inbound_ok: "next_inbound e inp = (ib, inp') \<Longrightarrow> inbound_ok ib"
  by (auto simp: next_inbound_def readFull_def inbound_ok_def Let_def split: if_split_asm)

lemma readLoop_iter_run:
  assumes "conn_ok c" and "inbound_ok ib"
  shows "\<exists>d g c'. readLoop_iter ib c = Some (Ok (d, g), c') \<and> conn_ok c' \<and> same_table c c'
           \<and> (\<forall>x. d = Some x \<longrightarrow> sound_reply (pending c) x)"
proof (cases ib)
  case (HeaderErr e)
  with assms show ?thesis by (auto simp: conn_fail_run io_defs same_table_def conn_ok_def)
next
  case (PayloadErr h e)
  with assms show ?thesis by (auto simp: conn_fail_run io_defs same_table_def conn_ok_def)
next
  case (Frame h p)
  with assms show ?thesis
    by (auto simp: conn_fail_run io_defs same_table_def conn_ok_def nc_Close_def inbound_ok_def
          sound_reply_def split: option.split)
qed

lemma same_table_refl [simp]: "same_table c c"
  by (simp add: same_table_def)

lemma same_table_trans: "same_table a b \<Longrightarrow> same_table b c \<Longrightarrow> same_table a c"
  by (auto simp: same_table_def)

lemma readLoop_step:
  assumes "\<not> (fe = None \<and> \<not> frame_ready inp)"
    and "next_inbound (case fe of None \<Rightarrow> EOF | Some e \<Rightarrow> e) inp = (ib, inp')"
    and "readLoop_iter ib c = Some (Ok (d, g), c')"
  shows "readLoop fe inp out c =
     (if g then readLoop fe inp' (case d of None \<Rightarrow> out | Some x \<Rightarrow> out @ [x]) c'
      else Some (Ok (case d of None \<Rightarrow> out | Some x \<Rightarrow> out @ [x], inp'), c'))"
  unfolding readLoop.simps [of fe inp out c] if_not_P [OF assms(1)]
  using assms(2,3) by (simp add: Let_def)

lemma readLoop_run:
  assumes "conn_ok c" and "\<forall>x\<in>set out. sound_reply (pending c) x"
  shows "\<exists>ds rest c'. readLoop fe inp out c = Some (Ok (ds, rest), c') \<and> conn_ok c'
           \<and> same_table c c' \<and> (\<forall>x\<in>set ds. sound_reply (pending c) x)"
  using assms
proof (induction fe inp out c rule: readLoop.induct)
  case (1 fe inp out c)
  show ?case
  proof (cases "fe = None \<and> \<not> frame_ready inp")
    case True
    then have "readLoop fe inp out c = Some (Ok (out, inp), c)"
      by (subst readLoop.simps) simp
    with "1.prems" show ?thesis by simp
  next
    case False
    obtain ib inp' where n: "next_inbound (case fe of None \<Rightarrow> EOF | Some e \<Rightarrow> e) inp = (ib, inp')"
      by fastforce
    obtain d g c' where i: "readLoop_iter ib c = Some (Ok (d, g), c')" "conn_ok c'"
        "same_table c c'" "\<forall>x. d = Some x \<longrightarrow> sound_reply (pending c) x"
      using readLoop_iter_run [OF "1.prems"(1) next_inbound_ok [OF n]] by blast
    let ?out = "case d of None \<Rightarrow> out | Some x \<Rightarrow> out @ [x]"
    have out: "\<forall>x\<in>set ?out. sound_reply (pending c) x"
      using i(4) "1.prems"(2) by (auto split: option.splits)
    have eq: "readLoop fe inp out c =
        (if g then readLoop fe inp' ?out c' else Some (Ok (?out, inp'), c'))"
      by (rule readLoop_step [OF False n i(1)])
    show ?thesis
    proof (cases g)
      case True
      have "\<exists>ds rest c''. readLoop fe inp' ?out c' = Some (Ok (ds, rest), c'') \<and> conn_ok c''
          \<and> same_table c' c'' \<and> (\<forall>x\<in>set ds. sound_reply (pending c') x)"
        using "1.IH" [OF False n [symmetric] i(1) refl refl refl refl True i(2)] out i(3)
        by (simp add: same_table_def)
      then show ?thesis
        using eq True i(3) same_table_trans by (auto simp: same_table_def)
    next
      case False
      then show ?thesis using eq i(2,3) out by simp
    qed
  qed
qed

section \<open>The contract of the transport\<close>

text \<open>
  What the AFP layer relies on of \<^verbatim>\<open>Conn.Request\<close> and \<^verbatim>\<open>Conn.RequestWrite\<close>: a request
  returns, with a reply or an error, and leaves the connection fit for the next one; a reply
  is marked as one and its payload is bounded.
\<close>

locale transport =
  fixes rq :: "8 word \<Rightarrow> 32 word \<Rightarrow> bytes \<Rightarrow> ('s, reply) io"
    and inv :: "'s \<Rightarrow> bool"
  assumes rq_returns: "inv s \<Longrightarrow> \<exists>r s'. rq cmd off p s = Some (r, s') \<and> r \<noteq> Panic \<and> inv s'"
    and rq_reply: "inv s \<Longrightarrow> rq cmd off p s = Some (Ok r, s') \<Longrightarrow>
          Flags (Header r) = flagReply \<and> length (Payload r) \<le> maxPayload"
begin

lemma rq_keeps: "io_keeps inv (rq cmd off p)"
  unfolding io_keeps_def
proof (intro allI impI)
  fix s r s' assume "inv s" and "rq cmd off p s = Some (r, s')"
  then show "inv s'" using rq_returns [of s cmd off p] by auto
qed

lemma rq_cases:
  assumes "inv s"
  obtains (reply) r s' where "rq cmd off p s = Some (Ok r, s')" "inv s'"
        "Flags (Header r) = flagReply" "length (Payload r) \<le> maxPayload"
    | (error) e s' where "rq cmd off p s = Some (Err e, s')" "inv s'"
proof -
  obtain r s' where r: "rq cmd off p s = Some (r, s')" "r \<noteq> Panic" "inv s'"
    using rq_returns [OF assms] by blast
  show thesis
  proof (cases r)
    case (Ok a)
    with r show ?thesis using rq_reply [OF assms] reply by simp
  next
    case (Err e)
    with r show ?thesis using error by simp
  next
    case Panic
    with r show ?thesis by simp
  qed
qed

end

text \<open>Between two requests of one caller nothing is pending.\<close>

definition dsi_ok :: "'w dsi \<Rightarrow> bool" where
  "dsi_ok s \<longleftrightarrow> conn_ok (dconn s) \<and> pending (dconn s) = Map.empty"

lemma await_run:
  assumes "conn_ok (dconn s)"
  shows "\<exists>r s'. await N ch s = Some (r, s') \<and> r \<noteq> Panic \<and> conn_ok (dconn s')
           \<and> same_table (dconn s) (dconn s')
           \<and> (\<forall>rp. r = Ok rp \<longrightarrow> sound_reply (pending (dconn s)) (ch, rp))"
proof -
  obtain arr fe ctxe w where a: "nc_arrive N (dworld s) = (arr, fe, ctxe, w)"
    by (metis prod_cases4)
  obtain ds rest c' where l: "readLoop fe (dinp s @ arr) [] (dconn s) = Some (Ok (ds, rest), c')"
      "conn_ok c'" "same_table (dconn s) c'" "\<forall>x\<in>set ds. sound_reply (pending (dconn s)) x"
    using readLoop_run [OF assms, of "[]" fe "dinp s @ arr"] by auto
  show ?thesis
  proof (cases "map_of ds ch")
    case None
    with a l show ?thesis
      by (auto simp: await_def io_bind_def on_conn_def conn_ok_def split: option.splits)
  next
    case (Some r)
    then have "(ch, r) \<in> set ds" by (rule map_of_SomeD)
    with a l Some show ?thesis
      by (auto simp: await_def io_bind_def on_conn_def)
  qed
qed

lemma send_run:
  "\<exists>r s'. send N h p s = Some (r, s') \<and> r \<noteq> Panic \<and> dconn s' = dconn s"
  by (auto simp: send_def split: prod.split option.split)

lemma send_await_run:
  assumes "conn_ok (dconn s)"
  shows "\<exists>r s'. io_bind (send N h p) (\<lambda>_. await N ch) s = Some (r, s') \<and> r \<noteq> Panic
           \<and> conn_ok (dconn s') \<and> same_table (dconn s) (dconn s')
           \<and> (\<forall>rp. r = Ok rp \<longrightarrow> sound_reply (pending (dconn s)) (ch, rp))"
proof -
  obtain r s1 where r: "send N h p s = Some (r, s1)" "r \<noteq> Panic" "dconn s1 = dconn s"
    using send_run by blast
  show ?thesis
  proof (cases r)
    case (Ok u)
    with r show ?thesis using await_run [of s1 N ch] assms by simp
  next
    case (Err e)
    with r assms show ?thesis by simp
  next
    case Panic
    with r show ?thesis by simp
  qed
qed

text \<open>A request of a lone caller: it returns, nothing stays pending, and a reply is its own.\<close>

lemma request_run:
  assumes "dsi_ok s"
  shows "\<exists>r s'. request N cmd off p s = Some (r, s') \<and> r \<noteq> Panic \<and> dsi_ok s'
           \<and> (\<forall>rp. r = Ok rp \<longrightarrow> sound_reply [nextID (dconn s) + 1 \<mapsto> dchan s] (dchan s, rp))"
proof (cases "closeErr (dconn s)")
  case (Some e)
  with assms show ?thesis
    by (simp add: request_def io_bind_def on_conn_def register_def dsi_ok_def)
next
  case None
  let ?i = "nextID (dconn s) + 1"
  let ?s1 = "s\<lparr>dchan := Suc (dchan s),
      dconn := (dconn s)\<lparr>nextID := ?i, pending := [?i \<mapsto> dchan s]\<rparr>\<rparr>"
  have reg: "on_conn (register (dchan s)) (s\<lparr>dchan := Suc (dchan s)\<rparr>) = Some (Ok ?i, ?s1)"
    using None assms
    by (simp add: on_conn_def register_def dsi_ok_def register_loop.simps [of Map.empty])
  obtain r s2 where r: "io_bind (send N (request_header cmd ?i off p) p) (\<lambda>_. await N (dchan s)) ?s1
        = Some (r, s2)" "r \<noteq> Panic" "conn_ok (dconn s2)" "same_table (dconn ?s1) (dconn s2)"
      "\<forall>rp. r = Ok rp \<longrightarrow> sound_reply (pending (dconn ?s1)) (dchan s, rp)"
    using send_await_run [of ?s1 N "request_header cmd ?i off p" p "dchan s"] assms
    by (auto simp: dsi_ok_def)
  then show ?thesis
    using reg
    by (auto simp: request_def Let_def io_defer_def on_conn_def unregister_def dsi_ok_def
          same_table_def)
qed

interpretation dsi: transport "request N" dsi_ok for N
proof
  fix s :: "'a dsi" and cmd off p
  assume "dsi_ok s"
  then show "\<exists>r s'. request N cmd off p s = Some (r, s') \<and> r \<noteq> Panic \<and> dsi_ok s'"
    using request_run [of s N cmd off p] by blast
next
  fix s s' :: "'a dsi" and cmd off p r
  assume "dsi_ok s" and "request N cmd off p s = Some (Ok r, s')"
  then show "Flags (Header r) = flagReply \<and> length (Payload r) \<le> maxPayload"
    using request_run [of s N cmd off p] by (auto simp: sound_reply_def)
qed

section \<open>Properties\<close>

text \<open>
  The packet header survives the wire in both directions: decoding an encoded header
  gives it back, and every 16 bytes are the encoding of the header they decode to.
\<close>

theorem header_roundtrip:
  "decodeHeader (encode h) = h \<and> (length b = HeaderSize \<longrightarrow> encode (decodeHeader b) = b)"
  using hdr.dec_enc hdr.enc_dec by blast

theorem header_roundtrip_witness:
  "length (replicate 16 (7 :: byte)) = HeaderSize
   \<and> encode (decodeHeader (replicate 16 7)) = replicate 16 7"
  using header_roundtrip [of zero_header "replicate 16 7"] by (simp add: HeaderSize_def)

text \<open>Packets a reader passes on: whole, of accepted size, and not the server's farewell.\<close>

definition packet_ok :: "header \<times> bytes \<Rightarrow> bool" where
  "packet_ok hp \<longleftrightarrow> (case hp of (h, p) \<Rightarrow>
     length p = unat (Length h) \<and> length p \<le> maxPayload
     \<and> (Flags h = flagReply \<or> Command h \<noteq> CmdCloseSession))"

fun deliveries :: "(16 word \<rightharpoonup> nat) \<Rightarrow> (header \<times> bytes) list \<Rightarrow> (nat \<times> reply) list" where
  "deliveries tbl [] = []"
| "deliveries tbl ((h, p) # fs) =
     (if Flags h = flagReply
      then (case tbl (RequestID h) of None \<Rightarrow> [] | Some ch \<Rightarrow> [(ch, \<lparr>Header = h, Payload = p\<rparr>)])
      else []) @ deliveries tbl fs"

lemma next_inbound_packet:
  assumes "length p = unat (Length h)" and "length p \<le> maxPayload"
  shows "next_inbound e (packet h p @ rest) = (Frame h p, rest)"
  using assms by (simp add: next_inbound_def readFull_def packet_def)

lemma frame_ready_packet:
  assumes "length p = unat (Length h)"
  shows "frame_ready (packet h p @ rest)"
  using assms by (simp add: frame_ready_def packet_def)

lemma readLoop_iter_packet:
  assumes "packet_ok (h, p)"
  shows "readLoop_iter (Frame h p) c =
     Some (Ok (if Flags h = flagReply
               then map_option (\<lambda>ch. (ch, \<lparr>Header = h, Payload = p\<rparr>)) (pending c (RequestID h))
               else None, True), c)"
  using assms by (auto simp: packet_ok_def io_defs split: option.split)

lemma readLoop_packets:
  assumes "\<forall>hp\<in>set fs. packet_ok hp"
  shows "readLoop fe (concat (map (\<lambda>(h, p). packet h p) fs) @ rest) out c =
    readLoop fe rest (out @ deliveries (pending c) fs) c"
  using assms
proof (induction fs arbitrary: out)
  case Nil
  then show ?case by simp
next
  case (Cons hp fs)
  obtain h p where hp: "hp = (h, p)" by fastforce
  let ?rest = "concat (map (\<lambda>(h, p). packet h p) fs) @ rest"
  have ok: "packet_ok (h, p)" using Cons.prems hp by simp
  then have len: "length p = unat (Length h)" "length p \<le> maxPayload"
    by (simp_all add: packet_ok_def)
  have "readLoop fe (packet h p @ ?rest) out c =
      readLoop fe ?rest (out @ deliveries (pending c) [(h, p)]) c"
    using readLoop_step [OF _ next_inbound_packet [OF len, of _ ?rest] readLoop_iter_packet [OF ok],
        of fe out c] frame_ready_packet [OF len(1), of ?rest]
    by (auto split: option.split)
  also have "\<dots> = readLoop fe rest (out @ deliveries (pending c) [(h, p)]
      @ deliveries (pending c) fs) c"
    using Cons.IH [of "out @ deliveries (pending c) [(h, p)]"] Cons.prems by simp
  finally show ?case using hp by simp
qed

lemma readLoop_whole:
  assumes "\<forall>hp\<in>set fs. packet_ok hp" and "\<not> frame_ready rest"
  shows "readLoop None (concat (map (\<lambda>(h, p). packet h p) fs) @ rest) [] c =
    Some (Ok (deliveries (pending c) fs, rest), c)"
proof -
  have "readLoop None rest out c = Some (Ok (out, rest), c)" for out
    using assms(2) by (subst readLoop.simps) simp
  then show ?thesis using readLoop_packets [OF assms(1), of None rest "[]" c] by simp
qed

text \<open>
  A packet that claims more than 16 MiB ends the connection: nothing is delivered, no
  payload is read, the error is recorded once and the transport is closed.
\<close>

theorem readLoop_oversize:
  assumes "conn_ok c" and "closeErr c = None" and "unat (Length h) > maxPayload"
  shows "readLoop fe (encode h @ rest) out c =
    Some (Ok (out, rest),
          c\<lparr>closeErr := Some (too_large h), doneClosed := True, ncClosed := True\<rparr>)"
proof -
  have n: "next_inbound e (encode h @ rest) = (Frame h [], rest)" for e
    using assms(3) by (simp add: next_inbound_def readFull_def)
  have f: "frame_ready (encode h @ rest)"
    using assms(3) by (simp add: frame_ready_def)
  have i: "readLoop_iter (Frame h []) c = Some (Ok (None, False),
      c\<lparr>closeErr := Some (too_large h), doneClosed := True, ncClosed := True\<rparr>)"
    using assms by (simp add: io_defs conn_fail_run nc_Close_def)
  show ?thesis
    using readLoop_step [OF _ n i, of fe out] f by simp
qed

theorem readLoop_oversize_witness:
  "readLoop None (encode (zero_header\<lparr>Length := 0x2000000\<rparr>) @ [5]) [] NewConn =
    Some (Ok ([], [5]),
      NewConn\<lparr>closeErr := Some (too_large (zero_header\<lparr>Length := 0x2000000\<rparr>)),
              doneClosed := True, ncClosed := True\<rparr>)"
  using readLoop_oversize [of NewConn "zero_header\<lparr>Length := 0x2000000\<rparr>" None "[5]" "[]"]
  by (simp add: NewConn_def conn_ok_def zero_header_def maxPayload_def)

text \<open>
  (C31) On a live connection \<^verbatim>\<open>register\<close> returns exactly when one of the 65536 request IDs
  is free; it then takes the first free ID after the last one used, wrapping around, enters
  the channel under it and touches no other entry. With all IDs taken it never returns.
\<close>

theorem register_fresh:
  assumes "closeErr c = None"
  shows "((\<exists>x. pending c x = None) \<longrightarrow>
           (\<exists>k. register ch c =
              Some (Ok (nextID c + word_of_nat (Suc k)),
                c\<lparr>nextID := nextID c + word_of_nat (Suc k),
                  pending := (pending c)(nextID c + word_of_nat (Suc k) \<mapsto> ch)\<rparr>)
              \<and> pending c (nextID c + word_of_nat (Suc k)) = None
              \<and> (\<forall>m<k. pending c (nextID c + word_of_nat (Suc m)) \<noteq> None)))
    \<and> ((\<forall>x. pending c x \<noteq> None) \<longrightarrow> register ch c = None)"
proof (intro conjI impI)
  assume "\<exists>x. pending c x = None"
  then obtain x where "pending c x = None" by blast
  moreover have "x = nextID c + word_of_nat (Suc (unat (x - nextID c - 1)))" by simp
  ultimately obtain k where
    "register_loop (pending c) (nextID c) = Some (nextID c + word_of_nat (Suc k))"
    "pending c (nextID c + word_of_nat (Suc k)) = None"
    "\<forall>m<k. pending c (nextID c + word_of_nat (Suc m)) \<noteq> None"
    using register_loop_reaches [of "pending c" "nextID c" "unat (x - nextID c - 1)"] by metis
  then show "\<exists>k. register ch c =
              Some (Ok (nextID c + word_of_nat (Suc k)),
                c\<lparr>nextID := nextID c + word_of_nat (Suc k),
                  pending := (pending c)(nextID c + word_of_nat (Suc k) \<mapsto> ch)\<rparr>)
              \<and> pending c (nextID c + word_of_nat (Suc k)) = None
              \<and> (\<forall>m<k. pending c (nextID c + word_of_nat (Suc m)) \<noteq> None)"
    using assms by (intro exI [of _ k]) (simp add: register_def)
next
  assume all: "\<forall>x. pending c x \<noteq> None"
  have "register_loop (pending c) (nextID c) = None"
  proof (cases "register_loop (pending c) (nextID c)")
    case (Some j)
    with all register_loop_free [OF Some] show ?thesis by blast
  qed simp
  then show "register ch c = None" using assms by (simp add: register_def)
qed

theorem register_fresh_witness:
  "\<exists>k. register 7 (NewConn\<lparr>nextID := 65535, pending := [0 \<mapsto> 2]\<rparr>) =
     Some (Ok (65535 + word_of_nat (Suc k)),
       NewConn\<lparr>nextID := 65535 + word_of_nat (Suc k),
               pending := [0 \<mapsto> 2, 65535 + word_of_nat (Suc k) \<mapsto> 7]\<rparr>)"
proof -
  let ?c = "NewConn\<lparr>nextID := 65535, pending := [0 \<mapsto> 2]\<rparr>"
  have "closeErr ?c = None" by (simp add: NewConn_def)
  moreover have "\<exists>x. pending ?c x = None" by (rule exI [of _ 1]) simp
  ultimately show ?thesis using register_fresh [of ?c 7] by auto
qed

text \<open>
  (C21) A request by itself returns, with a reply or an error and never a panic, whatever
  the transport delivers; it leaves nothing pending and the connection consistent, and a
  reply it returns carries the ID it was sent under.
\<close>

theorem request_isolated:
  assumes "dsi_ok s"
  shows "\<exists>r s'. request N cmd off p s = Some (r, s') \<and> r \<noteq> Panic
    \<and> pending (dconn s') = Map.empty \<and> conn_ok (dconn s')
    \<and> (\<forall>rp. r = Ok rp \<longrightarrow> RequestID (Header rp) = nextID (dconn s) + 1
          \<and> length (Payload rp) = unat (Length (Header rp)))"
proof -
  obtain r s' where r: "request N cmd off p s = Some (r, s')" "r \<noteq> Panic" "dsi_ok s'"
      "\<forall>rp. r = Ok rp \<longrightarrow> sound_reply [nextID (dconn s) + 1 \<mapsto> dchan s] (dchan s, rp)"
    using request_run [OF assms, of N cmd off p] by blast
  then show ?thesis
    by (auto simp: dsi_ok_def sound_reply_def split: if_splits)
qed

definition echo_net :: "header \<Rightarrow> bytes \<Rightarrow> unit net" where
  "echo_net h p = \<lparr>nc_Write = (\<lambda>_ w. (None, w)),
     nc_arrive = (\<lambda>w. (packet h p, None, Opaque ''context canceled'', w))\<rparr>"

definition fresh_dsi :: "'w \<Rightarrow> 'w dsi" where
  "fresh_dsi w = \<lparr>dconn = NewConn, dchan = 0, dinp = [], dworld = w\<rparr>"

theorem request_isolated_witness:
  "dsi_ok (fresh_dsi ()) \<and>
   (\<exists>r s'. request (echo_net (zero_header\<lparr>Flags := flagReply, RequestID := 1\<rparr>) []) CmdCommand 0 []
            (fresh_dsi ()) = Some (r, s') \<and> r \<noteq> Panic \<and> pending (dconn s') = Map.empty)"
proof -
  have ok: "dsi_ok (fresh_dsi ())" by (simp add: dsi_ok_def fresh_dsi_def) (simp add: NewConn_def)
  show ?thesis
    using request_isolated [OF ok] ok by blast
qed

text \<open>The options of an OpenSession reply, as a server lays them out.\<close>

definition put_option :: "8 word \<times> bytes \<Rightarrow> bytes" where
  "put_option tv = (case tv of (t, v) \<Rightarrow> t # word_of_nat (length v) # v)"

definition quantum_of :: "8 word \<times> bytes \<Rightarrow> 32 word \<Rightarrow> 32 word" where
  "quantum_of tv q =
     (case tv of (t, v) \<Rightarrow> if t = optServerQuantum \<and> length v = 4 then get32 v else q)"

lemma length8_eq_4: "length v < 256 \<Longrightarrow> (word_of_nat (length v) :: 8 word) = 4 \<longleftrightarrow> length v = 4"
  by (simp only: word_unat_eq_iff unat_of_nat) simp

text \<open>
  From a well-formed list of options \<^verbatim>\<open>OpenSession\<close> takes the last 4-byte server
  quantum, skips every other option whatever its type, and reports no error.
\<close>

lemma open_options_wellformed:
  assumes "\<forall>tv\<in>set opts. length (snd tv) < 256"
  shows "open_options (concat (map put_option opts)) q = (fold quantum_of opts q, None)"
  using assms
proof (induction opts arbitrary: q)
  case Nil
  then show ?case by simp
next
  case (Cons tv opts)
  obtain t v where tv: "tv = (t, v)" by fastforce
  with Cons.prems have v: "length v < 256" by simp
  have "unat (word_of_nat (length v) :: 8 word) = length v"
    using v by (simp add: unat_of_nat)
  with Cons tv v show ?case
    by (simp add: put_option_def quantum_of_def length8_eq_4)
qed

lemma open_options_sample:
  "open_options (concat (map put_option [(1, [0, 0]), (0, [0, 16, 0, 0])])) 0 = (0x100000, None)"
proof -
  have "\<forall>tv\<in>set [(1, [0, 0]), (0, [0, 16, 0, 0])]. length (snd tv) < 256" by simp
  then show ?thesis
    using open_options_wellformed [of "[(1, [0, 0]), (0, [0, 16, 0, 0])]" 0]
    by (simp add: quantum_of_def optServerQuantum_def get32_def be_val_def)
qed

end
