(* ===== verification/Dsi_Mux.thy ===== *)
theory Dsi_Mux
  imports Dsi_Conn
begin

text \<open>
  The goroutines of one DSI connection as a step relation: any number of callers inside
  \<^verbatim>\<open>request\<close>, the reader of \<^verbatim>\<open>readLoop\<close>, the ticker and \<^verbatim>\<open>Close\<close>, interleaved at the
  points where the code takes a lock, writes to the transport or uses a channel. The
  atomic operations are those of \<open>Dsi_Conn\<close>.
\<close>

section \<open>States and steps\<close>

text \<open>
  Where a caller is: registered but not sent, in the \<^verbatim>\<open>select\<close>, past it with the deferred
  \<^verbatim>\<open>unregister\<close> still to run, or returned.
\<close>

datatype phase =
    Registered "16 word"
  | Waiting "16 word"
  | Leaving "16 word" "reply res"
  | Finished "16 word" "reply res"

fun phase_id :: "phase \<Rightarrow> 16 word" where
  "phase_id (Registered i) = i"
| "phase_id (Waiting i) = i"
| "phase_id (Leaving i r) = i"
| "phase_id (Finished i r) = i"

fun active :: "phase \<Rightarrow> bool" where
  "active (Finished i r) = False"
| "active ph = True"

fun phase_res :: "phase \<Rightarrow> reply option" where
  "phase_res (Leaving i (Ok r)) = Some r"
| "phase_res (Finished i (Ok r)) = Some r"
| "phase_res ph = None"

text \<open>
  A caller is named by its channel. \<open>bufs\<close> holds the content of the channels, whose
  capacity is one; \<open>inhand\<close> is a reply the reader has looked a channel up for and not yet
  put into it; \<open>received\<close> and \<open>delivered\<close> record what the reader has read and for which
  channels.
\<close>

record sys =
  sconn :: conn
  callers :: "nat \<rightharpoonup> phase"
  bufs :: "nat \<rightharpoonup> reply"
  inhand :: "(nat \<times> reply) option"
  reading :: bool
  nchan :: nat
  sent :: "(header \<times> bytes) list"
  received :: "inbound list"
  delivered :: "nat list"

definition sys_init :: sys where
  "sys_init = \<lparr>sconn = NewConn, callers = Map.empty, bufs = Map.empty, inhand = None,
     reading = True, nchan = 0, sent = [], received = [], delivered = []\<rparr>"

inductive step :: "sys \<Rightarrow> sys \<Rightarrow> bool" where
  registers: "register (nchan s) (sconn s) = Some (Ok i, c) \<Longrightarrow>
     step s (s\<lparr>sconn := c, callers := (callers s)(nchan s \<mapsto> Registered i),
               nchan := Suc (nchan s)\<rparr>)"
| refused: "register (nchan s) (sconn s) = Some (Err e, c) \<Longrightarrow>
     step s (s\<lparr>sconn := c, nchan := Suc (nchan s)\<rparr>)"
| sends: "callers s ch = Some (Registered i) \<Longrightarrow>
     step s (s\<lparr>callers := (callers s)(ch \<mapsto> Waiting i),
               sent := sent s @ [(request_header cmd i off p, p)]\<rparr>)"
| send_fails: "callers s ch = Some (Registered i) \<Longrightarrow>
     step s (s\<lparr>callers := (callers s)(ch \<mapsto> Leaving i (Err e))\<rparr>)"
| takes_reply: "callers s ch = Some (Waiting i) \<Longrightarrow> bufs s ch = Some r \<Longrightarrow>
     step s (s\<lparr>callers := (callers s)(ch \<mapsto> Leaving i (Ok r)), bufs := (bufs s)(ch := None)\<rparr>)"
| takes_done: "callers s ch = Some (Waiting i) \<Longrightarrow> doneClosed (sconn s) \<Longrightarrow>
     closeErr (sconn s) = Some e \<Longrightarrow>
     step s (s\<lparr>callers := (callers s)(ch \<mapsto> Leaving i (Err e))\<rparr>)"
| takes_ctx: "callers s ch = Some (Waiting i) \<Longrightarrow>
     step s (s\<lparr>callers := (callers s)(ch \<mapsto> Leaving i (Err e))\<rparr>)"
| unregisters: "callers s ch = Some (Leaving i r) \<Longrightarrow>
     step s (s\<lparr>callers := (callers s)(ch \<mapsto> Finished i r), sconn := unregister i (sconn s)\<rparr>)"
| reads: "reading s \<Longrightarrow> inhand s = None \<Longrightarrow> inbound_ok ib \<Longrightarrow>
     readLoop_iter ib (sconn s) = Some (Ok (d, g), c) \<Longrightarrow>
     step s (s\<lparr>sconn := c, inhand := d, reading := g, received := received s @ [ib],
               delivered := delivered s @ (case d of None \<Rightarrow> [] | Some (ch, r) \<Rightarrow> [ch])\<rparr>)"
| hands_over: "inhand s = Some (ch, r) \<Longrightarrow> bufs s ch = None \<Longrightarrow>
     step s (s\<lparr>bufs := (bufs s)(ch \<mapsto> r), inhand := None\<rparr>)"
| ticks: "step s (s\<lparr>sconn := snd (newID (sconn s)),
               sent := sent s @ [(control_header CmdTickle (fst (newID (sconn s))), [])]\<rparr>)"
| closes: "nc_Close (snd (newID (sconn s))) = Some (Ok (), c) \<Longrightarrow>
     conn_fail ErrClosed c = Some (Ok (), c') \<Longrightarrow>
     step s (s\<lparr>sconn := c',
               sent := sent s @ [(control_header CmdCloseSession (fst (newID (sconn s))), [])]\<rparr>)"

section \<open>The invariant\<close>

text \<open>
  The table of pending requests is exactly the set of active callers with their IDs; what
  sits in a channel, in the reader's hand or in a caller's result carries that caller's ID
  and was read from the server.
\<close>

definition own_reply :: "sys \<Rightarrow> nat \<Rightarrow> reply \<Rightarrow> bool" where
  "own_reply s ch r \<longleftrightarrow> (\<exists>ph. callers s ch = Some ph \<and> RequestID (Header r) = phase_id ph)
     \<and> Frame (Header r) (Payload r) \<in> set (received s) \<and> Flags (Header r) = flagReply
     \<and> length (Payload r) = unat (Length (Header r)) \<and> length (Payload r) \<le> maxPayload"

definition table_inv :: "sys \<Rightarrow> bool" where
  "table_inv s \<longleftrightarrow> conn_ok (sconn s)
     \<and> (\<forall>i ch. pending (sconn s) i = Some ch \<longleftrightarrow>
           (\<exists>ph. callers s ch = Some ph \<and> active ph \<and> phase_id ph = i))
     \<and> (\<forall>ch. callers s ch \<noteq> None \<longrightarrow> ch < nchan s)"

definition reply_inv :: "sys \<Rightarrow> bool" where
  "reply_inv s \<longleftrightarrow>
     (\<forall>ch r. bufs s ch = Some r \<longrightarrow> own_reply s ch r)
     \<and> (\<forall>ch r. inhand s = Some (ch, r) \<longrightarrow> own_reply s ch r)
     \<and> (\<forall>ch ph r. callers s ch = Some ph \<longrightarrow> phase_res ph = Some r \<longrightarrow> own_reply s ch r)"

definition mux_inv :: "sys \<Rightarrow> bool" where
  "mux_inv s \<longleftrightarrow> table_inv s \<and> reply_inv s"

lemma register_Ok:
  assumes "register ch c = Some (Ok i, c')"
  shows "pending c i = None \<and> closeErr c = None
    \<and> c' = c\<lparr>nextID := i, pending := (pending c)(i \<mapsto> ch)\<rparr>"
  using assms by (auto simp: register_def split: option.splits dest: register_loop_free)

lemma register_Err: "register ch c = Some (Err e, c') \<Longrightarrow> closeErr c = Some e \<and> c' = c"
  by (auto simp: register_def split: option.splits)

lemma readLoop_iter_facts:
  assumes "conn_ok c" and "inbound_ok ib" and "readLoop_iter ib c = Some (Ok (d, g), c')"
  shows "conn_ok c' \<and> same_table c c' \<and> (\<forall>x. d = Some x \<longrightarrow> sound_reply (pending c) x)"
  using readLoop_iter_run [OF assms(1,2)] assms(3) by auto

lemma readLoop_iter_frame:
  "readLoop_iter ib c = Some (Ok (Some (ch, r), g), c') \<Longrightarrow> ib = Frame (Header r) (Payload r)"
  by (cases ib) (auto simp: io_defs conn_fail_def nc_Close_def split: if_splits option.splits)

lemma table_inv_step:
  assumes "step s t" and "table_inv s"
  shows "table_inv t"
  using assms
proof (cases rule: step.cases)
  case (registers i c)
  then show ?thesis
    using assms(2) register_Ok [OF registers(2)]
    by (fastforce simp: table_inv_def less_Suc_eq)
next
  case (refused e c)
  then show ?thesis
    using assms(2) register_Err [OF refused(2)] by (fastforce simp: table_inv_def less_Suc_eq)
next
  case (unregisters ch i r)
  have iff: "pending (sconn s) j = Some ch' \<longleftrightarrow>
      (\<exists>ph. callers s ch' = Some ph \<and> active ph \<and> phase_id ph = j)" for j ch'
    using assms(2) by (simp add: table_inv_def)
  have i: "pending (sconn s) i = Some ch"
    using iff unregisters(2) by auto
  have u: "ch' = ch" if "callers s ch' = Some ph" "active ph" "phase_id ph = i" for ch' ph
    using iff [of i ch'] i that by auto
  have "pending (sconn t) j = Some ch' \<longleftrightarrow>
      (\<exists>ph. callers t ch' = Some ph \<and> active ph \<and> phase_id ph = j)" for j ch'
  proof (cases "ch' = ch")
    case True
    then show ?thesis using unregisters iff [of j ch] by (auto simp: unregister_def)
  next
    case False
    then show ?thesis using unregisters iff [of j ch'] u [of ch'] by (auto simp: unregister_def)
  qed
  then show ?thesis
    using assms(2) unregisters by (simp add: table_inv_def unregister_def)
next
  case (reads ib d g c)
  then show ?thesis
    using assms(2) readLoop_iter_facts [OF _ reads(4,5)]
    by (fastforce simp: table_inv_def same_table_def)
next
  case ticks
  then show ?thesis using assms(2) by (fastforce simp: table_inv_def newID_def)
next
  case (closes c c')
  then show ?thesis
    using assms(2) conn_ok_fail [OF _ closes(3)]
    by (fastforce simp: table_inv_def newID_def nc_Close_def conn_fail_def split: if_splits)
qed (fastforce simp: table_inv_def)+

lemma own_reply_same:
  "callers t = callers s \<Longrightarrow> received t = received s \<Longrightarrow> own_reply t = own_reply s"
  by (intro ext) (simp add: own_reply_def)

text \<open>A step that moves one caller on, within the same request, keeps everyone's replies.\<close>

lemma own_reply_moved:
  assumes "callers s ch = Some ph" and "phase_id ph' = phase_id ph"
    and "callers t = (callers s)(ch \<mapsto> ph')" and "received t = received s"
  shows "own_reply t ch' r = own_reply s ch' r"
  using assms by (auto simp: own_reply_def)

lemma reply_inv_moved:
  assumes "reply_inv s" and "callers s ch = Some ph" and "phase_id ph' = phase_id ph"
    and "callers t = (callers s)(ch \<mapsto> ph')" and "received t = received s"
    and "inhand t = inhand s" and "bufs t \<subseteq>\<^sub>m bufs s"
    and "\<And>r. phase_res ph' = Some r \<Longrightarrow> own_reply s ch r"
  shows "reply_inv t"
  unfolding reply_inv_def own_reply_moved [OF assms(2-5)]
  using assms by (auto simp: reply_inv_def map_le_def dom_def split: if_splits)

lemma reply_inv_step:
  assumes "step s t" and "mux_inv s"
  shows "reply_inv t"
  using assms(1)
proof (cases rule: step.cases)
  case (registers i c)
  then have "callers s (nchan s) = None"
    using assms(2) by (auto simp: mux_inv_def table_inv_def)
  then have "own_reply s ch r \<Longrightarrow> own_reply t ch r" for ch r
    using registers(1) by (auto simp: own_reply_def)
  then show ?thesis
    using assms(2) registers(1) by (auto simp: mux_inv_def reply_inv_def)
next
  case (refused e c)
  then show ?thesis
    using assms(2) own_reply_same [of t s] by (auto simp: mux_inv_def reply_inv_def)
next
  case (sends ch i cmd off p)
  then show ?thesis
    using assms(2)
    by - (rule reply_inv_moved [of s ch "Registered i" "Waiting i"], auto simp: mux_inv_def)
next
  case (send_fails ch i e)
  then show ?thesis
    using assms(2)
    by - (rule reply_inv_moved [of s ch "Registered i" "Leaving i (Err e)"], auto simp: mux_inv_def)
next
  case (takes_reply ch i r)
  then show ?thesis
    using assms(2)
    by - (rule reply_inv_moved [of s ch "Waiting i" "Leaving i (Ok r)"], 
        auto simp: mux_inv_def reply_inv_def map_le_def)
next
  case (takes_done ch i e)
  then show ?thesis
    using assms(2)
    by - (rule reply_inv_moved [of s ch "Waiting i" "Leaving i (Err e)"], auto simp: mux_inv_def)
next
  case (takes_ctx ch i e)
  then show ?thesis
    using assms(2)
    by - (rule reply_inv_moved [of s ch "Waiting i" "Leaving i (Err e)"], auto simp: mux_inv_def)
next
  case (unregisters ch i r)
  have "phase_res (Leaving i r) = phase_res (Finished i r)" by (cases r) auto
  with unregisters show ?thesis
    using assms(2)
    by - (rule reply_inv_moved [of s ch "Leaving i r" "Finished i r"],
        auto simp: mux_inv_def reply_inv_def)
next
  case (reads ib d g c)
  have old: "own_reply s ch r \<Longrightarrow> own_reply t ch r" for ch r
    using reads(1) by (auto simp: own_reply_def)
  have "own_reply t ch r" if "d = Some (ch, r)" for ch r
  proof -
    have "sound_reply (pending (sconn s)) (ch, r)"
      using readLoop_iter_facts [OF _ reads(4,5)] that assms(2)
      by (auto simp: mux_inv_def table_inv_def)
    moreover have "ib = Frame (Header r) (Payload r)"
      using readLoop_iter_frame reads(5) that by blast
    ultimately show ?thesis
      using assms(2) reads(1)
      by (auto simp: own_reply_def sound_reply_def mux_inv_def table_inv_def)
  qed
  then show ?thesis
    using assms(2) reads(1) old by (auto simp: mux_inv_def reply_inv_def)
next
  case (hands_over ch r)
  then show ?thesis
    using assms(2) own_reply_same [of t s] by (auto simp: mux_inv_def reply_inv_def)
next
  case ticks
  then show ?thesis
    using assms(2) own_reply_same [of t s] by (auto simp: mux_inv_def reply_inv_def)
next
  case (closes c c')
  then show ?thesis
    using assms(2) own_reply_same [of t s] by (auto simp: mux_inv_def reply_inv_def)
qed

interpretation mux: invariant "\<lambda>s. s = sys_init" step mux_inv
proof
  fix s assume "s = sys_init"
  then show "mux_inv s"
    by (simp add: mux_inv_def table_inv_def reply_inv_def sys_init_def)
       (simp add: NewConn_def)
next
  fix s t assume "mux_inv s" and "step s t"
  then show "mux_inv t"
    using table_inv_step reply_inv_step by (auto simp: mux_inv_def)
qed

section \<open>Replies reach their callers\<close>

text \<open>A run with one caller: its request is answered and it takes the reply.\<close>

definition reply_frame :: "16 word \<Rightarrow> inbound" where
  "reply_frame i = Frame (zero_header\<lparr>Flags := flagReply, RequestID := i\<rparr>) []"

definition reply_to :: "16 word \<Rightarrow> reply" where
  "reply_to i = \<lparr>Header = zero_header\<lparr>Flags := flagReply, RequestID := i\<rparr>, Payload = []\<rparr>"

definition run_sent :: sys where
  "run_sent = sys_init\<lparr>sconn := NewConn\<lparr>nextID := 1, pending := [1 \<mapsto> 0]\<rparr>, nchan := 1,
     callers := [0 \<mapsto> Waiting 1], sent := [(request_header CmdCommand 1 0 [], [])]\<rparr>"

definition run_answered :: sys where
  "run_answered = run_sent\<lparr>received := [reply_frame 1], delivered := [0], bufs := [0 \<mapsto> reply_to 1]\<rparr>"

definition run_taken :: sys where
  "run_taken = run_answered\<lparr>callers := [0 \<mapsto> Leaving 1 (Ok (reply_to 1))], bufs := Map.empty\<rparr>"

lemma step_trans: "step\<^sup>*\<^sup>* a s \<Longrightarrow> step s t \<Longrightarrow> t = u \<Longrightarrow> step\<^sup>*\<^sup>* a u"
  by simp

lemma run_sent_reached: "step\<^sup>*\<^sup>* sys_init run_sent"
proof -
  have "register 0 NewConn = Some (Ok 1, NewConn\<lparr>nextID := 1, pending := [1 \<mapsto> 0]\<rparr>)"
    by (simp add: register_def NewConn_def register_loop.simps [of Map.empty])
  then have "step sys_init (sys_init\<lparr>sconn := NewConn\<lparr>nextID := 1, pending := [1 \<mapsto> 0]\<rparr>,
      callers := [0 \<mapsto> Registered 1], nchan := 1\<rparr>)"
    using step.registers [of sys_init 1] by (simp add: sys_init_def)
  then have "step\<^sup>*\<^sup>* sys_init (sys_init\<lparr>sconn := NewConn\<lparr>nextID := 1, pending := [1 \<mapsto> 0]\<rparr>,
      callers := [0 \<mapsto> Registered 1], nchan := 1\<rparr>)" by (rule r_into_rtranclp)
  then show ?thesis
    by (rule step_trans [OF _ step.sends [where ch = 0 and i = 1 and cmd = CmdCommand and off = 0
          and p = "[]"]]) (simp_all add: run_sent_def sys_init_def)
qed

lemma reply_frame_iter:
  "pending c i = Some ch \<Longrightarrow>
   readLoop_iter (reply_frame i) c = Some (Ok (Some (ch, reply_to i), True), c)"
  by (simp add: reply_frame_def reply_to_def io_defs zero_header_def)

lemma reply_frame_ok [simp]: "inbound_ok (reply_frame i)"
  by (simp add: reply_frame_def inbound_ok_def zero_header_def)

lemma run_answered_reached: "step\<^sup>*\<^sup>* sys_init run_answered"
proof -
  let ?s = "run_sent\<lparr>inhand := Some (0, reply_to 1), received := [reply_frame 1], delivered := [0]\<rparr>"
  have "step run_sent ?s"
    using step.reads [of run_sent "reply_frame 1" "Some (0, reply_to 1)" True "sconn run_sent"]
      reply_frame_iter [of "sconn run_sent" 1 0]
    by (simp add: run_sent_def sys_init_def)
  with run_sent_reached have "step\<^sup>*\<^sup>* sys_init ?s" by simp
  then show ?thesis
    by (rule step_trans [OF _ step.hands_over [where ch = 0 and r = "reply_to 1"]])
       (simp_all add: run_answered_def run_sent_def sys_init_def)
qed

lemma run_taken_reached: "step\<^sup>*\<^sup>* sys_init run_taken"
  by (rule step_trans [OF run_answered_reached
        step.takes_reply [where ch = 0 and i = 1 and r = "reply_to 1"]])
     (simp_all add: run_taken_def run_answered_def run_sent_def sys_init_def)

text \<open>
  (C7) In every interleaving of callers, reader, ticker and \<^verbatim>\<open>Close\<close>, the reply a request
  returns carries the ID that request was registered with, is marked as a reply, has the
  length its header claims, at most 16 MiB, and is a packet the server sent.
\<close>

theorem mux_reply_matches:
  assumes "step\<^sup>*\<^sup>* sys_init s" and "callers s ch = Some ph" and "phase_res ph = Some r"
  shows "RequestID (Header r) = phase_id ph \<and> Flags (Header r) = flagReply
    \<and> Frame (Header r) (Payload r) \<in> set (received s)
    \<and> length (Payload r) = unat (Length (Header r)) \<and> length (Payload r) \<le> maxPayload"
proof -
  have "own_reply s ch r"
    using mux.inv_reach [OF refl assms(1)] assms(2,3) unfolding mux_inv_def reply_inv_def by blast
  then show ?thesis using assms(2) by (simp add: own_reply_def)
qed

theorem mux_reply_matches_witness:
  "step\<^sup>*\<^sup>* sys_init run_taken \<and> callers run_taken 0 = Some (Leaving 1 (Ok (reply_to 1)))
   \<and> phase_res (Leaving 1 (Ok (reply_to 1))) = Some (reply_to 1)
   \<and> RequestID (Header (reply_to 1)) = 1"
proof -
  have c: "callers run_taken 0 = Some (Leaving 1 (Ok (reply_to 1)))"
    by (simp add: run_taken_def)
  show ?thesis
    using mux_reply_matches [OF run_taken_reached c] run_taken_reached c by simp
qed

text \<open>
  (C18) Two requests in flight at the same time never share a request ID, and the table of
  pending requests holds exactly the requests in flight, under their IDs.
\<close>

theorem mux_unique_ids:
  assumes "step\<^sup>*\<^sup>* sys_init s"
  shows "(\<forall>ch ch' ph ph'. callers s ch = Some ph \<and> callers s ch' = Some ph' \<and> active ph
            \<and> active ph' \<and> phase_id ph = phase_id ph' \<longrightarrow> ch = ch')
    \<and> (\<forall>i ch. pending (sconn s) i = Some ch \<longleftrightarrow>
           (\<exists>ph. callers s ch = Some ph \<and> active ph \<and> phase_id ph = i))"
proof -
  have iff: "pending (sconn s) i = Some ch \<longleftrightarrow>
      (\<exists>ph. callers s ch = Some ph \<and> active ph \<and> phase_id ph = i)" for i ch
    using mux.inv_reach [OF refl assms] by (simp add: mux_inv_def table_inv_def)
  have "ch = ch'" if "callers s ch = Some ph" "callers s ch' = Some ph'" "active ph" "active ph'"
    "phase_id ph = phase_id ph'" for ch ch' ph ph'
    using iff [of "phase_id ph" ch] iff [of "phase_id ph" ch'] that by auto
  with iff show ?thesis by blast
qed

theorem mux_unique_ids_witness:
  "step\<^sup>*\<^sup>* sys_init run_sent \<and> pending (sconn run_sent) 1 = Some 0
   \<and> (\<exists>ph. callers run_sent 0 = Some ph \<and> active ph \<and> phase_id ph = 1)"
proof -
  have p: "pending (sconn run_sent) 1 = Some 0" by (simp add: run_sent_def)
  show ?thesis
    using mux_unique_ids [OF run_sent_reached] run_sent_reached p by blast
qed

section \<open>When the reader can block for good\<close>

text \<open>
  A reply goes into a channel of capacity one. As long as the server answers no request
  twice, the channel the reader holds a reply for is empty.
\<close>

definition parked :: "sys \<Rightarrow> nat list" where
  "parked s = (case inhand s of None \<Rightarrow> delivered s | Some _ \<Rightarrow> butlast (delivered s))"

definition parked_inv :: "sys \<Rightarrow> bool" where
  "parked_inv s \<longleftrightarrow> dom (bufs s) \<subseteq> set (parked s)
     \<and> (\<forall>ch r. inhand s = Some (ch, r) \<longrightarrow> delivered s = parked s @ [ch])"

lemma parked_same:
  "inhand t = inhand s \<Longrightarrow> delivered t = delivered s \<Longrightarrow> parked t = parked s"
  by (simp add: parked_def split: option.split)

lemma parked_inv_frame:
  "parked_inv s \<Longrightarrow> inhand t = inhand s \<Longrightarrow> delivered t = delivered s \<Longrightarrow>
   dom (bufs t) \<subseteq> dom (bufs s) \<Longrightarrow> parked_inv t"
  using parked_same [of t s] by (auto simp: parked_inv_def)

lemma parked_inv_step:
  assumes "parked_inv s" and "step s t"
  shows "parked_inv t"
  using assms(2)
proof (cases rule: step.cases)
  case (reads ib d g c)
  then show ?thesis
    using assms(1) by (auto simp: parked_inv_def parked_def split: option.split)
next
  case (hands_over ch r)
  have "set (delivered s) = insert ch (set (parked s))"
    using assms(1) hands_over(2) by (auto simp: parked_inv_def)
  then show ?thesis
    using assms(1) hands_over by (auto simp: parked_inv_def parked_def)
qed (use assms(1) in \<open>auto elim!: parked_inv_frame split: if_splits\<close>)

interpretation parking: invariant "\<lambda>s. s = sys_init" step parked_inv
proof
  fix s assume "s = sys_init"
  then show "parked_inv s" by (simp add: parked_inv_def sys_init_def)
qed (rule parked_inv_step)

text \<open>
  (C29) If the server has answered no request more than once, the reader is never stuck in
  \<^verbatim>\<open>ch <- Reply\<close>: with a reply in hand it can always put it into the channel and go on.
\<close>

theorem reader_not_stuck:
  assumes "step\<^sup>*\<^sup>* sys_init s" and "distinct (delivered s)" and "inhand s = Some (ch, r)"
  shows "bufs s ch = None \<and> (\<exists>t. step s t \<and> inhand t = None \<and> bufs t ch = Some r)"
proof -
  have "parked_inv s" using parking.inv_reach [OF refl assms(1)] .
  then have "delivered s = parked s @ [ch]" and "dom (bufs s) \<subseteq> set (parked s)"
    using assms(3) by (auto simp: parked_inv_def)
  with assms(2) have "bufs s ch = None" by auto
  with step.hands_over [OF assms(3)] show ?thesis by fastforce
qed

definition run_inhand :: sys where
  "run_inhand = run_sent\<lparr>inhand := Some (0, reply_to 1), received := [reply_frame 1],
     delivered := [0]\<rparr>"

lemma run_inhand_reached: "step\<^sup>*\<^sup>* sys_init run_inhand"
proof -
  have "step run_sent run_inhand"
    using step.reads [of run_sent "reply_frame 1" "Some (0, reply_to 1)" True "sconn run_sent"]
      reply_frame_iter [of "sconn run_sent" 1 0]
    by (simp add: run_inhand_def run_sent_def sys_init_def)
  with run_sent_reached show ?thesis by simp
qed

theorem reader_not_stuck_witness:
  "step\<^sup>*\<^sup>* sys_init run_inhand \<and> distinct (delivered run_inhand)
   \<and> inhand run_inhand = Some (0, reply_to 1) \<and> bufs run_inhand 0 = None"
proof -
  have d: "distinct (delivered run_inhand)" "inhand run_inhand = Some (0, reply_to 1)"
    by (simp_all add: run_inhand_def)
  show ?thesis
    using reader_not_stuck [OF run_inhand_reached d] run_inhand_reached d by simp
qed

section \<open>The reader on its own\<close>

text \<open>
  What the steps of the reader alone do with one packet: it is read, and the reply in it, if
  a caller waits for one, is put into that caller's channel.
\<close>

definition after_packets :: "sys \<Rightarrow> (header \<times> bytes) list \<Rightarrow> sys" where
  "after_packets s fs =
     (let ds = deliveries (pending (sconn s)) fs in
      s\<lparr>bufs := bufs s ++ map_of ds, received := received s @ map (\<lambda>(h, p). Frame h p) fs,
        delivered := delivered s @ map fst ds\<rparr>)"

lemma reader_packet:
  assumes "packet_ok (h, p)" and "reading s" and "inhand s = None"
    and "\<And>ch r. (ch, r) \<in> set (deliveries (pending (sconn s)) [(h, p)]) \<Longrightarrow> bufs s ch = None"
  shows "step\<^sup>*\<^sup>* s (after_packets s [(h, p)])"
proof -
  let ?d = "if Flags h = flagReply
    then map_option (\<lambda>ch. (ch, \<lparr>Header = h, Payload = p\<rparr>)) (pending (sconn s) (RequestID h)) else None"
  let ?t = "s\<lparr>inhand := ?d, reading := True, received := received s @ [Frame h p],
    delivered := delivered s @ (case ?d of None \<Rightarrow> [] | Some (ch, r) \<Rightarrow> [ch])\<rparr>"
  have ok: "inbound_ok (Frame h p)" using assms(1) by (simp add: packet_ok_def inbound_ok_def)
  have "step s ?t"
    using step.reads [OF assms(2,3) ok readLoop_iter_packet [OF assms(1)]] by simp
  moreover have "step\<^sup>*\<^sup>* ?t (after_packets s [(h, p)])"
  proof (cases ?d)
    case None
    then have "after_packets s [(h, p)] = ?t"
      using assms(2,3) by (cases s) (auto simp: after_packets_def split: if_splits)
    then show ?thesis by simp
  next
    case (Some x)
    obtain ch r where x: "x = (ch, r)" by fastforce
    have "deliveries (pending (sconn s)) [(h, p)] = [(ch, r)]"
      using Some x by (auto split: if_splits)
    then show ?thesis
      using assms(2-4) step.hands_over [of ?t ch r] Some x
      by (cases s) (simp add: after_packets_def)
  qed
  ultimately show ?thesis by (rule converse_rtranclp_into_rtranclp)
qed

lemma deliveries_append: "deliveries t (fs @ gs) = deliveries t fs @ deliveries t gs"
  by (induction t fs rule: deliveries.induct) auto

lemma reader_packets:
  assumes "\<forall>hp\<in>set fs. packet_ok hp" and "reading s" and "inhand s = None"
    and "distinct (map fst (deliveries (pending (sconn s)) fs))"
    and "\<And>ch r. (ch, r) \<in> set (deliveries (pending (sconn s)) fs) \<Longrightarrow> bufs s ch = None"
  shows "step\<^sup>*\<^sup>* s (after_packets s fs)"
  using assms
proof (induction fs rule: rev_induct)
  case Nil
  then show ?case by (simp add: after_packets_def)
next
  case (snoc hp fs)
  obtain h p where hp: "hp = (h, p)" by fastforce
  let ?tbl = "pending (sconn s)"
  let ?t = "after_packets s fs"
  note app = deliveries_append [of ?tbl fs "[(h, p)]"]
  have "step\<^sup>*\<^sup>* s ?t"
  proof (rule snoc.IH)
    show "distinct (map fst (deliveries ?tbl fs))"
      using snoc.prems(4) unfolding hp app map_append distinct_append by (rule conjunct1)
    show "bufs s ch = None" if "(ch, r) \<in> set (deliveries ?tbl fs)" for ch r
      using snoc.prems(5) [of ch r] that unfolding hp app set_append by blast
  qed (use snoc.prems in simp_all)
  also have "step\<^sup>*\<^sup>* ?t (after_packets ?t [(h, p)])"
  proof (rule reader_packet)
    fix ch r assume d: "(ch, r) \<in> set (deliveries (pending (sconn ?t)) [(h, p)])"
    then have d': "(ch, r) \<in> set (deliveries ?tbl [(h, p)])"
      by (simp add: after_packets_def Let_def del: deliveries.simps)
    then have "ch \<notin> fst ` set (deliveries ?tbl fs)"
      using snoc.prems(4) hp app by (force simp del: deliveries.simps)
    moreover have "bufs s ch = None"
      using snoc.prems(5) [of ch r] d' hp app by (simp del: deliveries.simps)
    ultimately show "bufs ?t ch = None"
      by (simp add: after_packets_def Let_def map_add_None map_of_eq_None_iff)
  qed (use snoc.prems hp in \<open>simp_all add: after_packets_def Let_def\<close>)
  also have "after_packets ?t [(h, p)] = after_packets s (fs @ [hp])"
  proof -
    have "map_of (deliveries ?tbl [(h, p)]) ++ map_of (deliveries ?tbl fs)
        = map_of (deliveries ?tbl fs) ++ map_of (deliveries ?tbl [(h, p)])"
      using snoc.prems(4) hp app
      by (intro map_add_comm) (auto simp: dom_map_of_conv_image_fst simp del: deliveries.simps)
    then show ?thesis
      by (simp add: after_packets_def Let_def hp app del: deliveries.simps)
  qed
  finally show ?case .
qed

text \<open>
  (C20) Framing: whatever way the packets of a server are cut into reads, the reader recovers
  them whole and in order and keeps an incomplete packet for later. If no request is answered
  twice among them and the channels they go to are empty, the reader goes through all of them
  without help from another goroutine: each reply ends up in the channel registered under its
  request ID, and replies nobody waits for are dropped.
\<close>

theorem readLoop_frames:
  assumes "\<forall>hp\<in>set fs. packet_ok hp" and "\<not> frame_ready rest"
    and "reading s" and "inhand s = None"
    and "ds = deliveries (pending (sconn s)) fs" and "distinct (map fst ds)"
    and "\<forall>ch\<in>fst ` set ds. bufs s ch = None"
  shows "readLoop None (concat (map (\<lambda>(h, p). packet h p) fs) @ rest) [] (sconn s) =
      Some (Ok (ds, rest), sconn s)
    \<and> step\<^sup>*\<^sup>* s (s\<lparr>bufs := bufs s ++ map_of ds,
        received := received s @ map (\<lambda>(h, p). Frame h p) fs, delivered := delivered s @ map fst ds\<rparr>)"
proof -
  have "step\<^sup>*\<^sup>* s (after_packets s fs)"
    using assms by (intro reader_packets) force+
  then show ?thesis
    using readLoop_whole [OF assms(1,2), of "sconn s"] assms(5)
    by (simp add: after_packets_def Let_def)
qed

theorem readLoop_frames_witness:
  "\<exists>h fs. Flags h = flagReply \<and> fs = [(h, [7, 8]), (zero_header\<lparr>Command := CmdTickle\<rparr>, [])]
     \<and> readLoop None (concat (map (\<lambda>(h, p). packet h p) fs) @ [1, 3]) [] (sconn run_sent) =
         Some (Ok ([(0, \<lparr>Header = h, Payload = [7, 8]\<rparr>)], [1, 3]), sconn run_sent)
     \<and> (\<exists>t. step\<^sup>*\<^sup>* run_sent t \<and> bufs t 0 = Some \<lparr>Header = h, Payload = [7, 8]\<rparr>)"
proof -
  let ?h = "zero_header\<lparr>Flags := flagReply, RequestID := 1, Length := 2\<rparr>"
  let ?fs = "[(?h, [7, 8]), (zero_header\<lparr>Command := CmdTickle\<rparr>, [])]"
  let ?ds = "[(0, \<lparr>Header = ?h, Payload = [7, 8]\<rparr>)]"
  have ok: "\<forall>hp\<in>set ?fs. packet_ok hp"
    by (simp add: packet_ok_def zero_header_def maxPayload_def dsi_codes)
  have rest: "\<not> frame_ready [1, 3]" by (simp add: frame_ready_def HeaderSize_def)
  have s: "reading run_sent" "inhand run_sent = None"
    by (simp_all add: run_sent_def sys_init_def)
  have ds: "?ds = deliveries (pending (sconn run_sent)) ?fs"
    by (simp add: run_sent_def zero_header_def dsi_codes)
  have "\<forall>ch\<in>fst ` set ?ds. bufs run_sent ch = None" by (simp add: run_sent_def sys_init_def)
  then show ?thesis
    using readLoop_frames [OF ok rest s ds]
    by (intro exI [of _ ?h] exI [of _ ?fs]) fastforce
qed

text \<open>
  A server that answers a request twice: the first answer fills the channel, the reader
  looks the channel up again for the second, and the caller's context ends its wait.
\<close>

definition run_wedged :: sys where
  "run_wedged = run_answered\<lparr>inhand := Some (0, reply_to 1),
     received := [reply_frame 1, reply_frame 1], delivered := [0, 0],
     callers := [0 \<mapsto> Finished 1 (Err (Opaque ''context deadline exceeded''))],
     sconn := NewConn\<lparr>nextID := 1, pending := Map.empty\<rparr>\<rparr>"

lemma run_wedged_reached: "step\<^sup>*\<^sup>* sys_init run_wedged"
proof -
  let ?e = "Opaque ''context deadline exceeded''"
  let ?a = "run_answered\<lparr>inhand := Some (0, reply_to 1),
     received := [reply_frame 1, reply_frame 1], delivered := [0, 0]\<rparr>"
  let ?b = "?a\<lparr>callers := [0 \<mapsto> Leaving 1 (Err ?e)]\<rparr>"
  have "step run_answered ?a"
    using step.reads [of run_answered "reply_frame 1" "Some (0, reply_to 1)" True
        "sconn run_answered"] reply_frame_iter [of "sconn run_answered" 1 0]
    by (simp add: run_answered_def run_sent_def sys_init_def)
  with run_answered_reached have "step\<^sup>*\<^sup>* sys_init ?a" by simp
  moreover have "step ?a ?b"
    using step.takes_ctx [of ?a 0 1 ?e] by (simp add: run_answered_def run_sent_def sys_init_def)
  ultimately have "step\<^sup>*\<^sup>* sys_init ?b" by simp
  then show ?thesis
    by (rule step_trans [OF _ step.unregisters [where ch = 0 and i = 1 and r = "Err ?e"]])
       (simp_all add: run_wedged_def run_answered_def run_sent_def sys_init_def unregister_def)
qed

definition wedged :: "sys \<Rightarrow> bool" where
  "wedged s \<longleftrightarrow> (case inhand s of
     None \<Rightarrow> False
   | Some (ch, r) \<Rightarrow> ch < nchan s \<and> bufs s ch \<noteq> None
       \<and> (case callers s ch of Some (Finished i res) \<Rightarrow> True | _ \<Rightarrow> False))"

lemma wedged_step:
  assumes "wedged s" and "step s t"
  shows "wedged t \<and> received t = received s"
  using assms(2,1)
  by (cases rule: step.cases) (auto simp: wedged_def split: option.splits phase.splits if_splits)

lemma wedged_steps: "step\<^sup>*\<^sup>* s t \<Longrightarrow> wedged s \<Longrightarrow> wedged t \<and> received t = received s"
  by (induction rule: rtranclp_induct) (auto dest: wedged_step)

text \<open>
  (C30) A server that answers one request twice can silence the connection: in the reachable
  state \<open>run_wedged\<close> the connection still counts as alive and its reader has not ended, yet
  no packet is ever read again, whatever the goroutines and the server do from there on.
\<close>

theorem reader_wedged:
  "step\<^sup>*\<^sup>* sys_init run_wedged \<and> IsAlive (sconn run_wedged) \<and> reading run_wedged
   \<and> (step\<^sup>*\<^sup>* run_wedged t \<longrightarrow> received t = received run_wedged)"
proof -
  have "wedged run_wedged"
    by (simp add: wedged_def run_wedged_def run_answered_def run_sent_def)
  then show ?thesis
    using run_wedged_reached wedged_steps [of run_wedged t]
    by (simp add: IsAlive_def run_wedged_def run_answered_def run_sent_def sys_init_def NewConn_def)
qed

theorem reader_wedged_witness:
  "\<exists>t. step run_wedged t \<and> received t = received run_wedged"
proof -
  let ?t = "run_wedged\<lparr>sconn := snd (newID (sconn run_wedged)),
      sent := sent run_wedged @ [(control_header CmdTickle (fst (newID (sconn run_wedged))), [])]\<rparr>"
  have "step run_wedged ?t" by (rule step.ticks)
  moreover from this have "received ?t = received run_wedged"
    using reader_wedged [of ?t] by blast
  ultimately show ?thesis by blast
qed

end
