(* ===== verification/Dsi_Linear.thy ===== *)
theory Dsi_Linear
  imports Dsi_Mux
begin

text \<open>
  The connection of \<open>Dsi_Mux\<close> together with a server. The server takes the requests on the wire one at
  a time, in any order, and its answers arrive in any order: whatever the goroutines on both sides do, the
  callers see what they would have seen had their requests been made one after another.
\<close>

section \<open>A connection and its server\<close>

text \<open>
  A server is a function from the command, the offset field and the payload of a request and the state
  of the server to the payload and result code of the answer and the new state.
\<close>

type_synonym 'w server = "8 word \<Rightarrow> 32 word \<Rightarrow> bytes \<Rightarrow> 'w \<Rightarrow> (bytes \<times> 32 word) \<times> 'w"

definition answer :: "header \<Rightarrow> bytes \<Rightarrow> 32 word \<Rightarrow> reply" where
  "answer h b code = \<lparr>Header = \<lparr>Flags = flagReply, Command = Command h, RequestID = RequestID h, ErrCode = code,
     Length = word_of_nat (length b), Reserved = 0\<rparr>, Payload = b\<rparr>"

text \<open>
  \<open>inbox\<close> holds the requests that are sent and not yet served, \<open>outbox\<close> the answers not yet read, each with
  the channel of the caller that asked; \<open>asked\<close> is what each caller sent, \<open>served\<close> the requests in the order the
  server took them, with their answers. \<open>clean\<close> says that no request ID has been given out while a
  request or an answer with that ID was still on its way.
\<close>

record 'w world =
  mux :: sys
  srv :: 'w
  inbox :: "(nat \<times> header \<times> bytes) list"
  outbox :: "(nat \<times> reply) list"
  asked :: "nat \<rightharpoonup> header \<times> bytes"
  served :: "(nat \<times> header \<times> bytes \<times> reply) list"
  clean :: bool

definition world_init :: "'w \<Rightarrow> 'w world" where
  "world_init w0 = \<lparr>mux = sys_init, srv = w0, inbox = [], outbox = [], asked = Map.empty, served = [], clean = True\<rparr>"

definition under_way :: "'w world \<Rightarrow> (nat \<times> 16 word) set" where
  "under_way w = (\<lambda>(ch, h, p). (ch, RequestID h)) ` set (inbox w) \<union> (\<lambda>(ch, r). (ch, RequestID (Header r))) ` set (outbox w)"

definition reuses :: "'w world \<Rightarrow> sys \<Rightarrow> bool" where
  "reuses w t \<longleftrightarrow> (case callers t (nchan (mux w)) of None \<Rightarrow> False | Some ph \<Rightarrow> phase_id ph \<in> snd ` under_way w)"

text \<open>
  \<open>quiet\<close> is a step of the client in which nobody puts a request on the wire and nothing is read;
  tickles and the packet that closes the session ask for no answer. \<open>others\<close> is a packet from the
  server that answers nothing, or the end of the stream.
\<close>

inductive lstep :: "'w server \<Rightarrow> 'w world \<Rightarrow> 'w world \<Rightarrow> bool" for f where
  quiet: "step (mux w) t \<Longrightarrow> received t = received (mux w) \<Longrightarrow>
     (\<And>ch i. callers t ch = Some (Waiting i) \<Longrightarrow> callers (mux w) ch = Some (Waiting i)) \<Longrightarrow>
     lstep f w (w\<lparr>mux := t, clean := clean w \<and> \<not> reuses w t\<rparr>)"
| asks: "step (mux w) t \<Longrightarrow> callers (mux w) ch = Some (Registered i) \<Longrightarrow> callers t ch = Some (Waiting i) \<Longrightarrow>
     sent t = sent (mux w) @ [(h, p)] \<Longrightarrow>
     lstep f w (w\<lparr>mux := t, inbox := inbox w @ [(ch, h, p)], asked := (asked w)(ch \<mapsto> (h, p))\<rparr>)"
| serves: "inbox w = xs @ (ch, h, p) # ys \<Longrightarrow> f (Command h) (ErrCode h) p (srv w) = ((b, code), v) \<Longrightarrow>
     lstep f w (w\<lparr>srv := v, inbox := xs @ ys, outbox := outbox w @ [(ch, answer h b code)],
       served := served w @ [(ch, h, p, answer h b code)]\<rparr>)"
| answers: "outbox w = xs @ (ch, r) # ys \<Longrightarrow> step (mux w) t \<Longrightarrow>
     received t = received (mux w) @ [Frame (Header r) (Payload r)] \<Longrightarrow>
     lstep f w (w\<lparr>mux := t, outbox := xs @ ys\<rparr>)"
| others: "step (mux w) t \<Longrightarrow> received t = received (mux w) @ [ib] \<Longrightarrow>
     (\<And>h p. ib = Frame h p \<Longrightarrow> Flags h \<noteq> flagReply) \<Longrightarrow> lstep f w (w\<lparr>mux := t\<rparr>)"

text \<open>\<open>serial f w0 log w1\<close>: the server, asked one request after another, gives the answers of the log.\<close>

fun serial :: "'w server \<Rightarrow> 'w \<Rightarrow> (nat \<times> header \<times> bytes \<times> reply) list \<Rightarrow> 'w \<Rightarrow> bool" where
  "serial f w0 [] w1 \<longleftrightarrow> w0 = w1"
| "serial f w0 ((ch, h, p, r) # log) w1 \<longleftrightarrow>
     (case f (Command h) (ErrCode h) p w0 of ((b, code), w) \<Rightarrow> r = answer h b code \<and> serial f w log w1)"

lemma serial_append:
  "serial f w0 (log @ [(ch, h, p, r)]) w1 \<longleftrightarrow>
     (\<exists>w b code. serial f w0 log w \<and> f (Command h) (ErrCode h) p w = ((b, code), w1) \<and> r = answer h b code)"
  by (induction f w0 log w1 rule: serial.induct) (auto split: prod.splits)

section \<open>What a step of the client does to callers and replies\<close>

text \<open>A reply a caller has or is about to get.\<close>

definition holds :: "sys \<Rightarrow> nat \<Rightarrow> reply \<Rightarrow> bool" where
  "holds s ch r \<longleftrightarrow> bufs s ch = Some r \<or> inhand s = Some (ch, r)
     \<or> (\<exists>ph. callers s ch = Some ph \<and> phase_res ph = Some r)"

lemma step_callers:
  assumes "step s t" and "table_inv s" and "callers s ch = Some ph"
  shows "\<exists>ph'. callers t ch = Some ph' \<and> phase_id ph' = phase_id ph"
  using assms by (cases rule: step.cases) (auto simp: table_inv_def)

lemma step_pending:
  assumes "step s t" and "table_inv s" and "pending (sconn t) i = Some ch"
  shows "pending (sconn s) i = Some ch \<or> ch = nchan s \<and> callers t ch = Some (Registered i)"
  using assms(1)
proof (cases rule: step.cases)
  case (registers j c)
  then show ?thesis using assms(3) register_Ok [OF registers(2)] by (auto split: if_splits)
next
  case (refused e c)
  then show ?thesis using assms(3) register_Err [OF refused(2)] by auto
next
  case (reads ib d g c)
  then show ?thesis using assms(2,3) readLoop_iter_facts [OF _ reads(4,5)] by (auto simp: table_inv_def same_table_def)
qed (use assms(3) in \<open>auto simp: unregister_def newID_def nc_Close_def conn_fail_def split: if_splits\<close>)

lemma step_holds:
  assumes "step s t" and "table_inv s" and "holds t ch r"
  shows "holds s ch r \<or> received t = received s @ [Frame (Header r) (Payload r)]
     \<and> pending (sconn s) (RequestID (Header r)) = Some ch \<and> Flags (Header r) = flagReply"
  using assms(1)
proof (cases rule: step.cases)
  case (registers i c)
  then show ?thesis using assms(2,3) by (auto simp: holds_def split: if_splits)
next
  case (reads ib d g c)
  show ?thesis
  proof (cases "d = Some (ch, r)")
    case True
    then have "sound_reply (pending (sconn s)) (ch, r)"
      using readLoop_iter_facts [OF _ reads(4,5)] assms(2) by (auto simp: table_inv_def)
    then show ?thesis using True reads readLoop_iter_frame by (fastforce simp: sound_reply_def)
  next
    case False
    then show ?thesis using assms(3) reads(1) by (auto simp: holds_def)
  qed
next
  case (unregisters ch' i r')
  then show ?thesis using assms(3) by (cases r') (auto simp: holds_def split: if_splits)
qed (use assms(3) in \<open>auto simp: holds_def split: if_splits\<close>)

lemma step_nchan: "step s t \<Longrightarrow> nchan s \<le> nchan t"
  by (cases rule: step.cases) auto


fun unsent :: "phase \<Rightarrow> bool" where
  "unsent (Registered i) = True"
| "unsent ph = False"

lemma step_unsent:
  assumes "step s t" and "table_inv s" and "callers s ch = Some ph" and "\<not> unsent ph"
  shows "\<exists>ph'. callers t ch = Some ph' \<and> phase_id ph' = phase_id ph \<and> \<not> unsent ph'"
  using assms by (cases rule: step.cases) (auto simp: table_inv_def)

lemma step_asks:
  assumes "step s t" and "table_inv s" and "callers s ch = Some (Registered i)"
    and "callers t ch = Some (Waiting i)" and "sent t = sent s @ [(h, p)]"
  shows "RequestID h = i \<and> sconn t = sconn s \<and> (\<forall>ch r. holds t ch r \<longrightarrow> holds s ch r)"
  using assms(1)
  by (cases rule: step.cases)
     (use assms(2-5) in \<open>auto simp: table_inv_def request_header_def holds_def split: if_splits\<close>)

section \<open>The invariant\<close>

definition book_inv :: "'w server \<Rightarrow> 'w \<Rightarrow> 'w world \<Rightarrow> bool" where
  "book_inv f w0 w \<longleftrightarrow> mux_inv (mux w)
     \<and> (\<forall>(ch, h, p) \<in> set (inbox w). asked w ch = Some (h, p))
     \<and> (\<forall>(ch, h, p, r) \<in> set (served w). asked w ch = Some (h, p))
     \<and> (\<forall>ch h p. asked w ch = Some (h, p) \<longrightarrow>
          (\<exists>ph. callers (mux w) ch = Some ph \<and> phase_id ph = RequestID h \<and> \<not> unsent ph))
     \<and> distinct (map fst (inbox w) @ map fst (served w))
     \<and> (\<forall>(ch, r) \<in> set (outbox w). \<exists>h p. (ch, h, p, r) \<in> set (served w))
     \<and> serial f w0 (served w) (srv w)"

text \<open>Who holds the ID of a request or an answer under way is the one who asked; replies are answers.\<close>

definition route_inv :: "'w world \<Rightarrow> bool" where
  "route_inv w \<longleftrightarrow>
     (\<forall>(ch, i) \<in> under_way w. \<forall>ch'. pending (sconn (mux w)) i = Some ch' \<longrightarrow> ch' = ch)
     \<and> (\<forall>ch r. holds (mux w) ch r \<longrightarrow> (\<exists>h p. (ch, h, p, r) \<in> set (served w)))"

definition lin_inv :: "'w server \<Rightarrow> 'w \<Rightarrow> 'w world \<Rightarrow> bool" where
  "lin_inv f w0 w \<longleftrightarrow> book_inv f w0 w \<and> (clean w \<longrightarrow> route_inv w)"

lemma lstep_mux: "lstep f w w' \<Longrightarrow> mux w' = mux w \<or> step (mux w) (mux w')"
  by (cases rule: lstep.cases) auto

lemma asked_kept:
  assumes "book_inv f w0 w" and "step (mux w) t" and "asked w ch = Some (h, p)"
  shows "\<exists>ph. callers t ch = Some ph \<and> phase_id ph = RequestID h \<and> \<not> unsent ph"
proof -
  obtain ph where "callers (mux w) ch = Some ph" "phase_id ph = RequestID h" "\<not> unsent ph"
    using assms(1,3) unfolding book_inv_def by blast
  moreover have "table_inv (mux w)" using assms(1) by (simp add: book_inv_def mux_inv_def)
  ultimately show ?thesis using step_unsent [OF assms(2)] by metis
qed

lemma book_inv_step:
  assumes "lstep f w w'" and "book_inv f w0 w"
  shows "book_inv f w0 w'"
  using assms(1)
proof (cases rule: lstep.cases)
  case (quiet t)
  then show ?thesis
    using assms(2) asked_kept [OF assms(2) quiet(2)] mux.inv_step [OF _ quiet(2)] by (simp add: book_inv_def)
next
  case (asks t ch i h p)
  have tab: "table_inv (mux w)" using assms(2) by (simp add: book_inv_def mux_inv_def)
  have new: "asked w ch = None"
  proof (cases "asked w ch")
    case (Some hp)
    then obtain ph where "callers (mux w) ch = Some ph" "\<not> unsent ph"
      using assms(2) unfolding book_inv_def by (cases hp) blast
    then show ?thesis using asks(3) by auto
  qed simp
  then have "ch \<notin> fst ` set (inbox w)" "ch \<notin> fst ` set (served w)"
    using assms(2) by (auto simp: book_inv_def)
  then show ?thesis
    using assms(2) new asks asked_kept [OF assms(2) asks(2)] mux.inv_step [OF _ asks(2)]
      step_asks [OF asks(2) tab asks(3-5)]
    by (fastforce simp: book_inv_def split: if_splits)
next
  case (serves xs ch h p ys b code v)
  then show ?thesis
    using assms(2) by (fastforce simp: book_inv_def serial_append)
next
  case (answers xs ch r ys t)
  then show ?thesis
    using assms(2) asked_kept [OF assms(2) answers(3)] mux.inv_step [OF _ answers(3)] by (auto simp: book_inv_def)
next
  case (others t ib)
  then show ?thesis
    using assms(2) asked_kept [OF assms(2) others(2)] mux.inv_step [OF _ others(2)] by (simp add: book_inv_def)
qed

lemma under_way_frame: "under_way (w\<lparr>mux := t\<rparr>) = under_way w" "under_way (w\<lparr>mux := t, clean := c\<rparr>) = under_way w"
  by (simp_all add: under_way_def)

lemma route_inv_quiet:
  assumes "route_inv w" and "table_inv (mux w)" and "step (mux w) t" and "\<not> reuses w t"
    and "received t = received (mux w)"
  shows "route_inv (w\<lparr>mux := t, clean := c\<rparr>)"
proof -
  have "ch' = ch" if "(ch, i) \<in> under_way w" "pending (sconn t) i = Some ch'" for ch i ch'
    using step_pending [OF assms(3,2) that(2)]
  proof
    assume "ch' = nchan (mux w) \<and> callers t ch' = Some (Registered i)"
    then have "reuses w t" using that(1) by (force simp: reuses_def)
    then show ?thesis using assms(4) by simp
  qed (use assms(1) that(1) in \<open>auto simp: route_inv_def\<close>)
  moreover have "holds (mux w) ch r" if "holds t ch r" for ch r
    using step_holds [OF assms(3,2) that] assms(5) by auto
  ultimately show ?thesis using assms(1) by (auto simp: route_inv_def under_way_frame)
qed

lemma reads_pending:
  assumes "step s t" and "table_inv s" and "received t = received s @ [ib]" and "pending (sconn t) i = Some ch"
  shows "pending (sconn s) i = Some ch"
  using assms(1)
  by (cases rule: step.cases) (use step_pending [OF assms(1,2,4)] assms(2,3) in \<open>auto simp: table_inv_def\<close>)

lemma route_inv_answers:
  assumes "route_inv w" and "book_inv f w0 w" and "outbox w = xs @ (ch, r) # ys" and "step (mux w) t"
    and "received t = received (mux w) @ [Frame (Header r) (Payload r)]"
  shows "route_inv (w\<lparr>mux := t, outbox := xs @ ys\<rparr>)"
proof -
  have tab: "table_inv (mux w)" using assms(2) by (simp add: book_inv_def mux_inv_def)
  have "\<exists>h p. (ch', h, p, r') \<in> set (served w)" if "holds t ch' r'" for ch' r'
    using step_holds [OF assms(4) tab that]
  proof
    assume new: "received t = received (mux w) @ [Frame (Header r') (Payload r')]
      \<and> pending (sconn (mux w)) (RequestID (Header r')) = Some ch' \<and> Flags (Header r') = flagReply"
    then have "r' = r" using assms(5) by (simp add: reply.equality)
    moreover have "(ch, RequestID (Header r)) \<in> under_way w" using assms(3) by (force simp: under_way_def)
    ultimately have "ch' = ch" using new assms(1) by (auto simp: route_inv_def)
    then show ?thesis using \<open>r' = r\<close> assms(2,3) by (auto simp: book_inv_def)
  qed (use assms(1) in \<open>simp add: route_inv_def\<close>)
  moreover have "under_way (w\<lparr>mux := t, outbox := xs @ ys\<rparr>) \<subseteq> under_way w"
    using assms(3) by (simp add: under_way_def image_Un) blast
  ultimately show ?thesis
    using assms(1) reads_pending [OF assms(4) tab assms(5)] by (fastforce simp: route_inv_def dest: subsetD)
qed

lemma route_inv_step:
  assumes "lstep f w w'" and "book_inv f w0 w" and "route_inv w" and "clean w'"
  shows "route_inv w'"
  using assms(1)
proof (cases rule: lstep.cases)
  case (quiet t)
  then show ?thesis using route_inv_quiet [OF assms(3)] assms(2,4) by (simp add: book_inv_def mux_inv_def)
next
  case (asks t ch i h p)
  have tab: "table_inv (mux w)" using assms(2) by (simp add: book_inv_def mux_inv_def)
  have "pending (sconn (mux w)) i = Some ch" using tab asks(3) by (fastforce simp: table_inv_def)
  then show ?thesis
    using assms(3) asks(1) step_asks [OF asks(2) tab asks(3-5)] by (auto simp: route_inv_def under_way_def)
next
  case (serves xs ch h p ys b code v)
  then have "under_way w' = under_way w" by (auto simp: under_way_def answer_def)
  then show ?thesis using assms(3) serves(1) by (simp add: route_inv_def) blast
next
  case (answers xs ch r ys t)
  then show ?thesis using route_inv_answers [OF assms(3,2) answers(2-4)] by simp
next
  case (others t ib)
  have tab: "table_inv (mux w)" using assms(2) by (simp add: book_inv_def mux_inv_def)
  have "holds (mux w) ch r" if "holds t ch r" for ch r
    using step_holds [OF others(2) tab that] others(3,4) by auto
  then show ?thesis
    using assms(3) others(1) reads_pending [OF others(2) tab others(3)] by (auto simp: route_inv_def under_way_frame)
qed

lemma lstep_clean: "lstep f w w' \<Longrightarrow> clean w' \<Longrightarrow> clean w"
  by (cases rule: lstep.cases) auto

interpretation lin: invariant "\<lambda>w. w = world_init w0" "lstep f" "lin_inv f w0" for f w0
proof
  show "lin_inv f w0 w" if "w = world_init w0" for w
    using that mux.inv_init [OF refl]
    by (simp add: lin_inv_def book_inv_def route_inv_def world_init_def under_way_def holds_def sys_init_def)
next
  fix w w' assume "lin_inv f w0 w" and l: "lstep f w w'"
  then have b: "book_inv f w0 w" "clean w \<longrightarrow> route_inv w" by (simp_all add: lin_inv_def)
  then show "lin_inv f w0 w'"
    using book_inv_step [OF l b(1)] route_inv_step [OF l b(1)] lstep_clean [OF l] by (simp add: lin_inv_def)
qed

section \<open>While the request IDs last\<close>

text \<open>As long as not all 65536 IDs have been drawn every new one is larger than all before.\<close>

definition id_bound :: "sys \<Rightarrow> bool" where
  "id_bound s \<longleftrightarrow> unat (nextID (sconn s)) \<le> nchan s + length (sent s)
     \<and> (\<forall>ch ph. callers s ch = Some ph \<longrightarrow> unat (phase_id ph) \<le> unat (nextID (sconn s)))"

abbreviation few :: "sys \<Rightarrow> bool" where
  "few s \<equiv> nchan s + length (sent s) < 65536"

lemma unat_next: "unat (i :: 16 word) < 65535 \<Longrightarrow> unat (i + 1) = Suc (unat i)"
  by (simp add: unat_word_ariths)

lemma register_next:
  assumes "register ch (sconn s) = Some (Ok i, c)" and "table_inv s" and "id_bound s"
    and "Suc (nchan s) + length (sent s) < 65536"
  shows "i = nextID (sconn s) + 1 \<and> nextID c = i \<and> unat i = Suc (unat (nextID (sconn s)))"
proof -
  let ?n = "nextID (sconn s)"
  have n: "unat (?n + 1) = Suc (unat ?n)" using assms(3,4) by (intro unat_next) (simp add: id_bound_def)
  have "pending (sconn s) (?n + 1) = None"
  proof (cases "pending (sconn s) (?n + 1)")
    case (Some ch)
    then obtain ph where "callers s ch = Some ph" "phase_id ph = ?n + 1"
      using assms(2) by (auto simp: table_inv_def)
    then have "unat (?n + 1) \<le> unat ?n" using assms(3) unfolding id_bound_def by metis
    then show ?thesis using n by simp
  qed simp
  then have "register_loop (pending (sconn s)) ?n = Some (?n + 1)" by (simp add: register_loop.simps)
  with assms(1) n show ?thesis by (auto simp: register_def split: option.splits)
qed

lemma id_bound_step:
  assumes "step s t" and "table_inv s" and "few s \<Longrightarrow> id_bound s" and "few t"
  shows "id_bound t"
  using assms(1)
proof (cases rule: step.cases)
  case (registers i c)
  then have b: "id_bound s" "Suc (nchan s) + length (sent s) < 65536" using assms(3,4) by simp_all
  from register_next [OF registers(2) assms(2) b] b(1) registers(1) show ?thesis
    by (auto simp: id_bound_def le_SucI)
next
  case (refused e c)
  then show ?thesis using assms(3,4) register_Err [OF refused(2)] by (auto simp: id_bound_def)
next
  case (reads ib d g c)
  then show ?thesis
    using assms(2-4) readLoop_iter_facts [OF _ reads(4,5)]
    by (auto simp: id_bound_def table_inv_def same_table_def)
next
  case ticks
  then have "unat (nextID (sconn s)) < 65535" and "id_bound s" using assms(3,4) by (auto simp: id_bound_def)
  with ticks unat_next show ?thesis by (auto simp: id_bound_def newID_def le_SucI)
next
  case (closes c c')
  then have "unat (nextID (sconn s)) < 65535" and "id_bound s" using assms(3,4) by (auto simp: id_bound_def)
  with closes unat_next show ?thesis
    by (auto simp: id_bound_def newID_def nc_Close_def conn_fail_def le_SucI split: if_splits)
qed (use assms(3,4) in \<open>fastforce simp: id_bound_def unregister_def split: if_splits\<close>)+

lemma serial_id: "serial f w0 log w1 \<Longrightarrow> (ch, h, p, r) \<in> set log \<Longrightarrow> RequestID (Header r) = RequestID h"
  by (induction f w0 log w1 rule: serial.induct) (auto simp: answer_def split: prod.splits)

lemma under_way_asked:
  assumes "book_inv f w0 w" and "(ch, i) \<in> under_way w"
  shows "\<exists>ph. callers (mux w) ch = Some ph \<and> phase_id ph = i"
proof -
  obtain h p where "asked w ch = Some (h, p)" "RequestID h = i"
  proof -
    from assms(2) consider (sent) p h where "(ch, h, p) \<in> set (inbox w)" "RequestID h = i"
      | (served) r where "(ch, r) \<in> set (outbox w)" "RequestID (Header r) = i"
      by (auto simp: under_way_def)
    then show thesis
    proof cases
      case sent
      then show ?thesis using assms(1) that by (auto simp: book_inv_def)
    next
      case served
      then obtain h p where "(ch, h, p, r) \<in> set (served w)" using assms(1) by (auto simp: book_inv_def)
      moreover from this have "RequestID h = i"
        using assms(1) serial_id served(2) by (fastforce simp: book_inv_def)
      ultimately show ?thesis using assms(1) that by (auto simp: book_inv_def)
    qed
  qed
  then show ?thesis using assms(1) unfolding book_inv_def by blast
qed

lemma not_reused:
  assumes "book_inv f w0 w" and "step (mux w) t" and "few (mux w) \<Longrightarrow> id_bound (mux w)" and "few t"
  shows "\<not> reuses w t"
proof -
  have tab: "table_inv (mux w)" using assms(1) by (simp add: book_inv_def mux_inv_def)
  then have none: "callers (mux w) (nchan (mux w)) = None" by (auto simp: table_inv_def)
  from assms(2) show ?thesis
  proof (cases rule: step.cases)
    case (registers i c)
    then have b: "id_bound (mux w)" "Suc (nchan (mux w)) + length (sent (mux w)) < 65536" using assms(3,4) by simp_all
    have "unat j < unat i" if "(ch, j) \<in> under_way w" for ch j
      using register_next [OF registers(2) tab b] under_way_asked [OF assms(1) that] b(1)
      by (auto simp: id_bound_def less_Suc_eq_le)
    then show ?thesis using registers(1) by (fastforce simp: reuses_def)
  qed (use none in \<open>auto simp: reuses_def split: if_splits\<close>)
qed

definition few_inv :: "'w server \<Rightarrow> 'w \<Rightarrow> 'w world \<Rightarrow> bool" where
  "few_inv f w0 w \<longleftrightarrow> lin_inv f w0 w \<and> (few (mux w) \<longrightarrow> id_bound (mux w) \<and> clean w)"

lemma step_few: "step s t \<Longrightarrow> few t \<Longrightarrow> few s"
  by (cases rule: step.cases) auto

interpretation few: invariant "\<lambda>w. w = world_init w0" "lstep f" "few_inv f w0" for f w0
proof
  show "few_inv f w0 w" if "w = world_init w0" for w
    using that lin.inv_init [OF that] by (simp add: few_inv_def world_init_def id_bound_def sys_init_def NewConn_def)
next
  fix w w' assume inv: "few_inv f w0 w" and l: "lstep f w w'"
  then have b: "book_inv f w0 w" and tab: "table_inv (mux w)"
    by (simp_all add: few_inv_def lin_inv_def book_inv_def mux_inv_def)
  have "id_bound (mux w') \<and> clean w'" if few': "few (mux w')"
    using l
  proof (cases rule: lstep.cases)
    case (quiet t)
    then show ?thesis
      using inv few' id_bound_step [OF quiet(2) tab] not_reused [OF b quiet(2)] step_few [OF quiet(2)]
      by (simp add: few_inv_def)
  qed (use inv few' id_bound_step [OF _ tab] step_few in \<open>auto simp: few_inv_def\<close>)
  then show "few_inv f w0 w'"
    using inv lin.inv_step [OF _ l] by (simp add: few_inv_def)
qed

section \<open>Concurrent requests are as good as requests in sequence\<close>

definition echo :: "unit server" where
  "echo cmd off p w = ((p, 0), w)"

lemma lstep_trans: "(lstep f)\<^sup>*\<^sup>* a w \<Longrightarrow> lstep f w v \<Longrightarrow> v = u \<Longrightarrow> (lstep f)\<^sup>*\<^sup>* a u"
  by simp

lemma quiet_run:
  assumes "(lstep f)\<^sup>*\<^sup>* a w" and "step (mux w) t" and "received t = received (mux w)"
    and "\<And>ch i. callers t ch = Some (Waiting i) \<Longrightarrow> callers (mux w) ch = Some (Waiting i)"
    and "\<not> reuses w t" and "v = w\<lparr>mux := t\<rparr>"
  shows "(lstep f)\<^sup>*\<^sup>* a v"
  by (rule lstep_trans [OF assms(1) lstep.quiet [OF assms(2-4)]]) (use assms(5,6) in simp_all)

text \<open>The first caller registers and sends \<open>p\<close>.\<close>

definition first_hdr :: "bytes \<Rightarrow> header" where
  "first_hdr p = request_header CmdCommand 1 0 p"

definition first_sent :: "bytes \<Rightarrow> sys" where
  "first_sent p = sys_init\<lparr>sconn := NewConn\<lparr>nextID := 1, pending := [1 \<mapsto> 0]\<rparr>, nchan := 1,
     callers := [0 \<mapsto> Waiting 1], sent := [(first_hdr p, p)]\<rparr>"

definition first_asked :: "bytes \<Rightarrow> unit world" where
  "first_asked p = (world_init ())\<lparr>mux := first_sent p, inbox := [(0, first_hdr p, p)], asked := [0 \<mapsto> (first_hdr p, p)]\<rparr>"

lemma first_asked_reached: "(lstep echo)\<^sup>*\<^sup>* (world_init ()) (first_asked p)"
proof -
  let ?s = "sys_init\<lparr>sconn := NewConn\<lparr>nextID := 1, pending := [1 \<mapsto> 0]\<rparr>, callers := [0 \<mapsto> Registered 1], nchan := 1\<rparr>"
  let ?w = "(world_init ())\<lparr>mux := ?s\<rparr>"
  have "register 0 NewConn = Some (Ok 1, NewConn\<lparr>nextID := 1, pending := [1 \<mapsto> 0]\<rparr>)"
    by (simp add: register_def NewConn_def register_loop.simps [of Map.empty])
  then have "step sys_init ?s"
    using step.registers [of sys_init 1] by (simp add: sys_init_def)
  then have "step (mux (world_init ())) ?s" by (simp add: world_init_def)
  then have r: "(lstep echo)\<^sup>*\<^sup>* (world_init ()) ?w"
    by (rule quiet_run [OF rtranclp.rtrancl_refl])
       (auto simp: world_init_def sys_init_def reuses_def under_way_def split: if_splits)
  have "step ?s (first_sent p)"
    using step.sends [of ?s 0 1 CmdCommand 0 p] by (simp add: first_sent_def sys_init_def first_hdr_def)
  from lstep.asks [of ?w "first_sent p" 0 1 "first_hdr p" p echo] this show ?thesis
    by (intro lstep_trans [OF r])
       (simp_all add: first_sent_def first_asked_def world_init_def sys_init_def)
qed

text \<open>The request is served, the answer read and handed over, and the caller takes it.\<close>

definition first_done :: "bytes \<Rightarrow> unit world" where
  "first_done p = (first_asked p)\<lparr>
     mux := (first_sent p)\<lparr>received := [Frame (Header (answer (first_hdr p) p 0)) p], delivered := [0],
       callers := [0 \<mapsto> Leaving 1 (Ok (answer (first_hdr p) p 0))]\<rparr>,
     inbox := [], served := [(0, first_hdr p, p, answer (first_hdr p) p 0)]\<rparr>"


lemma answer_iter:
  assumes "length p \<le> maxPayload" and "pending c i = Some ch" and "RequestID h = i"
  shows "readLoop_iter (Frame (Header (answer h p code)) p) c = Some (Ok (Some (ch, answer h p code), True), c)
    \<and> inbound_ok (Frame (Header (answer h p code)) p)"
proof -
  have "unat (word_of_nat (length p) :: 32 word) = length p"
    using assms(1) by (simp add: unat_of_nat maxPayload_def)
  then show ?thesis using assms by (simp add: answer_def io_defs inbound_ok_def)
qed

lemma answer_run:
  assumes "(lstep f)\<^sup>*\<^sup>* a w" and "outbox w = xs @ (ch', answer h p code) # ys" and "length p \<le> maxPayload"
    and "pending (sconn (mux w)) (RequestID h) = Some ch" and "reading (mux w)" and "inhand (mux w) = None"
    and "bufs (mux w) ch = None" and "callers (mux w) ch = Some (Waiting i)"
    and "callers (mux w) (nchan (mux w)) = None"
  shows "(lstep f)\<^sup>*\<^sup>* a (w\<lparr>outbox := xs @ ys, mux := (mux w)\<lparr>
      received := received (mux w) @ [Frame (Header (answer h p code)) p], delivered := delivered (mux w) @ [ch],
      callers := (callers (mux w))(ch \<mapsto> Leaving i (Ok (answer h p code)))\<rparr>\<rparr>)"
proof -
  let ?r = "answer h p code"
  let ?u = "(mux w)\<lparr>received := received (mux w) @ [Frame (Header ?r) p], delivered := delivered (mux w) @ [ch],
      callers := (callers (mux w))(ch \<mapsto> Leaving i (Ok ?r))\<rparr>"
  let ?s = "(mux w)\<lparr>inhand := Some (ch, ?r), received := received (mux w) @ [Frame (Header ?r) p],
      delivered := delivered (mux w) @ [ch]\<rparr>"
  let ?t = "?s\<lparr>bufs := (bufs (mux w))(ch \<mapsto> ?r), inhand := None\<rparr>"
  have pay: "Payload ?r = p" by (simp add: answer_def)
  have "step (mux w) ((mux w)\<lparr>sconn := sconn (mux w), inhand := Some (ch, ?r), reading := True,
      received := received (mux w) @ [Frame (Header ?r) p], delivered := delivered (mux w) @ [ch]\<rparr>)"
    using step.reads [OF assms(5,6) conjunct2 conjunct1, OF answer_iter answer_iter, OF assms(3,4) refl assms(3,4) refl]
    by (simp only: option.case prod.case)
  moreover have "(mux w)\<lparr>sconn := sconn (mux w), inhand := Some (ch, ?r), reading := True,
      received := received (mux w) @ [Frame (Header ?r) p], delivered := delivered (mux w) @ [ch]\<rparr> = ?s"
    by (rule sys.equality) (simp_all add: assms(5))
  ultimately have "step (mux w) ?s" by (simp only:)
  from lstep.answers [OF assms(2) this, of f] have 1: "(lstep f)\<^sup>*\<^sup>* a (w\<lparr>mux := ?s, outbox := xs @ ys\<rparr>)"
    by (intro lstep_trans [OF assms(1)]) (simp_all add: pay)
  have "step ?s ?t" using step.hands_over [of ?s ch ?r] assms(7) by simp
  then have 2: "(lstep f)\<^sup>*\<^sup>* a (w\<lparr>outbox := xs @ ys, mux := ?t\<rparr>)"
    by (intro quiet_run [OF 1]) (use assms(9) in \<open>simp_all add: reuses_def\<close>)
  have "step ?t (?t\<lparr>callers := (callers ?t)(ch \<mapsto> Leaving i (Ok ?r)), bufs := (bufs ?t)(ch := None)\<rparr>)"
    by (rule step.takes_reply) (simp_all add: assms(8))
  moreover have "?t\<lparr>callers := (callers ?t)(ch \<mapsto> Leaving i (Ok ?r)), bufs := (bufs ?t)(ch := None)\<rparr> = ?u"
    by (rule sys.equality) (auto simp: assms(6,7))
  ultimately have "step ?t ?u" by (simp only:)
  then show ?thesis
    by (intro quiet_run [OF 2]) (use assms(8,9) in \<open>auto simp: reuses_def split: if_splits\<close>)
qed


lemma first_done_reached:
  assumes "length p \<le> maxPayload"
  shows "(lstep echo)\<^sup>*\<^sup>* (world_init ()) (first_done p)"
proof -
  let ?w = "(first_asked p)\<lparr>inbox := [], outbox := [(0, answer (first_hdr p) p 0)],
      served := [(0, first_hdr p, p, answer (first_hdr p) p 0)]\<rparr>"
  have "(lstep echo)\<^sup>*\<^sup>* (world_init ()) ?w"
    by (rule lstep_trans [OF first_asked_reached
          lstep.serves [where xs = "[]" and ys = "[]" and ch = 0 and h = "first_hdr p" and p = p and b = p and code = 0 and v = "()"]])
       (simp_all add: first_asked_def world_init_def echo_def)
  from answer_run [OF this, of "[]" 0 "first_hdr p" p 0 "[]" 0 1] assms show ?thesis
    by (simp add: first_done_def first_asked_def first_sent_def world_init_def sys_init_def first_hdr_def request_header_def)
qed

text \<open>
  (C2) Concurrent requests behave as if made one after another. Whatever the interleaving of callers,
  reader, ticker and \<^verbatim>\<open>Close\<close>, and in whatever order the server takes the requests and its answers arrive, there is a
  sequence of requests (the one in which the server took them, each caller's at most once) such that
  every caller that returned a reply returned the server's answer to its own request in that sequence. This holds as
  long as no request ID is given out again while a request or answer with that ID is under way, and so in particular for
  the first 65535 IDs of a connection.
\<close>
theorem mux_linearizable:
  assumes "(lstep f)\<^sup>*\<^sup>* (world_init w0) w"
    and "clean w \<or> nchan (mux w) + length (sent (mux w)) < 65536"
  shows "serial f w0 (served w) (srv w) \<and> distinct (map fst (served w)) \<and>
    (\<forall>ch ph r. callers (mux w) ch = Some ph \<longrightarrow> phase_res ph = Some r \<longrightarrow>
      (\<exists>h p. asked w ch = Some (h, p) \<and> (ch, h, p, r) \<in> set (served w)))"
proof -
  have "few_inv f w0 w" using few.inv_reach [OF refl assms(1)] .
  then have "book_inv f w0 w" "route_inv w" using assms(2) by (auto simp: few_inv_def lin_inv_def)
  then show ?thesis by (fastforce simp: book_inv_def route_inv_def holds_def)
qed

theorem mux_linearizable_witness:
  "(lstep echo)\<^sup>*\<^sup>* (world_init ()) (first_done [7]) \<and> clean (first_done [7]) \<and>
   callers (mux (first_done [7])) 0 = Some (Leaving 1 (Ok (answer (first_hdr [7]) [7] 0))) \<and>
   (\<exists>h p. asked (first_done [7]) 0 = Some (h, p) \<and> (0, h, p, answer (first_hdr [7]) [7] 0) \<in> set (served (first_done [7])))"
proof -
  have r: "(lstep echo)\<^sup>*\<^sup>* (world_init ()) (first_done [7])" by (rule first_done_reached) (simp add: maxPayload_def)
  have c: "clean (first_done [7])" by (simp add: first_done_def first_asked_def world_init_def)
  have ph: "callers (mux (first_done [7])) 0 = Some (Leaving 1 (Ok (answer (first_hdr [7]) [7] 0)))"
    by (simp add: first_done_def)
  from mux_linearizable [OF r] c ph r show ?thesis by auto
qed

section \<open>An answer that comes too late\<close>

definition tick :: "sys \<Rightarrow> sys" where
  "tick s = s\<lparr>sconn := snd (newID (sconn s)), sent := sent s @ [(control_header CmdTickle (fst (newID (sconn s))), [])]\<rparr>"

lemma ticks_run:
  assumes "(lstep f)\<^sup>*\<^sup>* a w" and "callers (mux w) (nchan (mux w)) = None"
  shows "\<exists>l. (lstep f)\<^sup>*\<^sup>* a (w\<lparr>mux := (mux w)\<lparr>sconn := (sconn (mux w))\<lparr>nextID := nextID (sconn (mux w)) + word_of_nat k\<rparr>,
      sent := l\<rparr>\<rparr>)"
proof (induction k)
  case 0
  have "w\<lparr>mux := (mux w)\<lparr>sconn := (sconn (mux w))\<lparr>nextID := nextID (sconn (mux w)) + word_of_nat 0\<rparr>, sent := sent (mux w)\<rparr>\<rparr> = w"
    by simp
  then show ?case using assms(1) by metis
next
  case (Suc k)
  then obtain l where r: "(lstep f)\<^sup>*\<^sup>* a (w\<lparr>mux := (mux w)\<lparr>sconn := (sconn (mux w))\<lparr>nextID :=
      nextID (sconn (mux w)) + word_of_nat k\<rparr>, sent := l\<rparr>\<rparr>)" by blast
  let ?w = "w\<lparr>mux := (mux w)\<lparr>sconn := (sconn (mux w))\<lparr>nextID := nextID (sconn (mux w)) + word_of_nat k\<rparr>, sent := l\<rparr>\<rparr>"
  have "step (mux ?w) (tick (mux ?w))" unfolding tick_def by (rule step.ticks)
  then have "(lstep f)\<^sup>*\<^sup>* a (?w\<lparr>mux := tick (mux ?w)\<rparr>)"
    by (intro quiet_run [OF r]) (use assms(2) in \<open>simp_all add: tick_def reuses_def\<close>)
  then show ?case by (auto simp: tick_def newID_def algebra_simps)
qed

text \<open>The first caller gives up; then all other IDs are used up, until the next one is again 1.\<close>

definition given_up :: "(header \<times> bytes) list \<Rightarrow> sys" where
  "given_up l = sys_init\<lparr>sconn := NewConn, nchan := 1, sent := l,
     callers := [0 \<mapsto> Finished 1 (Err (Opaque ''context deadline exceeded''))]\<rparr>"

lemma given_up_reached: "\<exists>l. (lstep echo)\<^sup>*\<^sup>* (world_init ()) ((first_asked p)\<lparr>mux := given_up l\<rparr>)"
proof -
  let ?e = "Opaque ''context deadline exceeded''"
  let ?a = "(first_sent p)\<lparr>callers := [0 \<mapsto> Leaving 1 (Err ?e)]\<rparr>"
  let ?b = "?a\<lparr>callers := [0 \<mapsto> Finished 1 (Err ?e)], sconn := NewConn\<lparr>nextID := 1\<rparr>\<rparr>"
  have m: "mux (first_asked p) = first_sent p" by (simp add: first_asked_def)
  have "step (first_sent p) ?a"
    using step.takes_ctx [of "first_sent p" 0 1 ?e] by (simp add: first_sent_def)
  then have 1: "(lstep echo)\<^sup>*\<^sup>* (world_init ()) ((first_asked p)\<lparr>mux := ?a\<rparr>)"
    by (intro quiet_run [OF first_asked_reached])
       (auto simp: m first_sent_def sys_init_def reuses_def split: if_splits)
  have "step ?a ?b"
    using step.unregisters [of ?a 0 1 "Err ?e"] by (simp add: first_sent_def unregister_def NewConn_def)
  then have 2: "(lstep echo)\<^sup>*\<^sup>* (world_init ()) ((first_asked p)\<lparr>mux := ?b\<rparr>)"
    by (intro quiet_run [OF 1]) (auto simp: first_sent_def sys_init_def reuses_def split: if_splits)
  have wrap: "(65536 :: 16 word) = 0" by (rule word_uint_eqI) simp
  show ?thesis
    using ticks_run [OF 2, of 65535] by (simp add: first_sent_def sys_init_def given_up_def NewConn_def wrap)
qed


text \<open>
  (C40) The bound on request IDs is needed. From the start of a connection, for any two payloads \<open>p\<close> and \<open>q\<close>,
  there is a run against a server that echoes its requests in which the first caller sends \<open>p\<close> and
  gives up waiting, its ID comes round again while its request is still unanswered, the second
  caller sends \<open>q\<close> under that ID, and gets the answer to \<open>p\<close>.
\<close>
theorem stale_reply:
  assumes "length p \<le> maxPayload"
  shows "\<exists>w i r. (lstep echo)\<^sup>*\<^sup>* (world_init ()) w \<and> asked w 0 = Some (first_hdr p, p) \<and> asked w 1 = Some (first_hdr q, q)
    \<and> callers (mux w) 1 = Some (Leaving i (Ok r)) \<and> Payload r = p"
proof -
  obtain l where 0: "(lstep echo)\<^sup>*\<^sup>* (world_init ()) ((first_asked p)\<lparr>mux := given_up l\<rparr>)"
    using given_up_reached by blast
  let ?c = "NewConn\<lparr>nextID := 1, pending := [1 \<mapsto> 1]\<rparr>"
  let ?f = "Finished 1 (Err (Opaque ''context deadline exceeded''))"
  let ?s = "(given_up l)\<lparr>sconn := ?c, callers := [0 \<mapsto> ?f, 1 \<mapsto> Registered 1], nchan := 2\<rparr>"
  let ?t = "?s\<lparr>callers := [0 \<mapsto> ?f, 1 \<mapsto> Waiting 1], sent := l @ [(first_hdr q, q)]\<rparr>"
  let ?w = "(first_asked p)\<lparr>mux := ?s, clean := False\<rparr>"
  let ?v = "?w\<lparr>mux := ?t, inbox := [(0, first_hdr p, p), (1, first_hdr q, q)],
      asked := [0 \<mapsto> (first_hdr p, p), 1 \<mapsto> (first_hdr q, q)]\<rparr>"
  have "register 1 NewConn = Some (Ok 1, ?c)"
    by (simp add: register_def NewConn_def register_loop.simps [of Map.empty])
  then have "step (given_up l) ?s"
    using step.registers [of "given_up l" 1 ?c] by (simp add: given_up_def numeral_2_eq_2)
  then have "lstep echo ((first_asked p)\<lparr>mux := given_up l\<rparr>) ?w"
    using lstep.quiet [of "(first_asked p)\<lparr>mux := given_up l\<rparr>" ?s echo]
    by (force simp: given_up_def sys_init_def reuses_def under_way_def first_asked_def first_hdr_def request_header_def
        split: if_splits)
  with 0 have 1: "(lstep echo)\<^sup>*\<^sup>* (world_init ()) ?w" by simp
  have "step ?s ?t" using step.sends [of ?s 1 1 CmdCommand 0 q] by (simp add: given_up_def first_hdr_def fun_upd_twist)
  then have 2: "(lstep echo)\<^sup>*\<^sup>* (world_init ()) ?v"
    by (intro lstep_trans [OF 1 lstep.asks [where ch = 1 and i = 1 and h = "first_hdr q" and p = q and t = ?t]])
       (simp_all add: given_up_def first_asked_def)
  let ?r = "answer (first_hdr p) p 0"
  let ?u = "?v\<lparr>inbox := [(1, first_hdr q, q)], outbox := [(0, ?r)], served := [(0, first_hdr p, p, ?r)]\<rparr>"
  have 3: "(lstep echo)\<^sup>*\<^sup>* (world_init ()) ?u"
    by (rule lstep_trans [OF 2 lstep.serves [where xs = "[]" and ch = 0 and h = "first_hdr p" and p = p and b = p
            and code = 0 and v = "()"]])
       (simp_all add: first_asked_def world_init_def echo_def)
  have "RequestID (first_hdr p) = 1" "Payload ?r = p" by (simp_all add: first_hdr_def request_header_def answer_def)
  with answer_run [OF 3, of "[]" 0 "first_hdr p" p 0 "[]" 1 1] assms show ?thesis
    by (fastforce simp: given_up_def sys_init_def)
qed

theorem stale_reply_witness:
  "\<exists>w i r. (lstep echo)\<^sup>*\<^sup>* (world_init ()) w \<and> asked w 0 = Some (first_hdr [1], [1]) \<and> asked w 1 = Some (first_hdr [2], [2])
    \<and> callers (mux w) 1 = Some (Leaving i (Ok r)) \<and> Payload r = [1]"
  by (rule stale_reply) (simp add: maxPayload_def)

end
