(* ===== verification/Wire.thy ===== *)
theory Wire
  imports Prelude "HOL-Library.Sublist"
begin

text \<open>
  \<^verbatim>\<open>internal/afp/wire.go\<close>: dates, the request builder, the bounds-checked reply reader and
  the absolute-offset string readers. The interface \<open>wire_field\<close> states what a reader
  method promises about the bytes its builder counterpart wrote.
\<close>

section \<open>Dates\<close>

definition afpEpochDelta :: int where
  "afpEpochDelta = 946684800"

text \<open>A \<^verbatim>\<open>time.Time\<close> at whole seconds is its Unix time.\<close>

definition afpDate :: "32 word \<Rightarrow> int" where
  "afpDate v = sint v + afpEpochDelta"

section \<open>The builder\<close>

type_synonym builder = bytes

definition builder_u8 :: "builder \<Rightarrow> 8 word \<Rightarrow> builder" where
  "builder_u8 w v = w @ [v]"

definition builder_u16 :: "builder \<Rightarrow> 16 word \<Rightarrow> builder" where
  "builder_u16 w v = w @ put16 v"

definition builder_u32 :: "builder \<Rightarrow> 32 word \<Rightarrow> builder" where
  "builder_u32 w v = w @ put32 v"

definition builder_u64 :: "builder \<Rightarrow> 64 word \<Rightarrow> builder" where
  "builder_u64 w v = w @ put64 v"

definition builder_bytes :: "builder \<Rightarrow> bytes \<Rightarrow> builder" where
  "builder_bytes w v = w @ v"

definition builder_pascal :: "builder \<Rightarrow> string \<Rightarrow> builder" where
  "builder_pascal w s =
     (let s = (if length s > 255 then take 255 s else s);
          w = builder_u8 w (word_of_nat (length s))
      in w @ bytes_of_string s)"

definition builder_evenPad :: "builder \<Rightarrow> builder" where
  "builder_evenPad w = (if length w mod 2 = 1 then builder_u8 w 0 else w)"

definition utf8PathHint :: "32 word" where
  "utf8PathHint = 0x08000103"

definition kFPUTF8Name :: "8 word" where
  "kFPUTF8Name = 3"

text \<open>\<^verbatim>\<open>strings.Trim(s, "/")\<close> and \<^verbatim>\<open>strings.ReplaceAll(s, "/", "\x00")\<close>.\<close>

definition trim_slash :: "string \<Rightarrow> string" where
  "trim_slash s =
     rev (dropWhile (\<lambda>c. c = CHR ''/'') (rev (dropWhile (\<lambda>c. c = CHR ''/'') s)))"

definition slash_to_nul :: "string \<Rightarrow> string" where
  "slash_to_nul s = map (\<lambda>c. if c = CHR ''/'' then CHR 0x00 else c) s"

text \<open>\<open>nfd\<close> stands for \<^verbatim>\<open>norm.NFD.String\<close> of \<^verbatim>\<open>golang.org/x/text\<close>.\<close>

definition builder_path :: "(string \<Rightarrow> string) \<Rightarrow> builder \<Rightarrow> string \<Rightarrow> builder" where
  "builder_path nfd w p =
     (let p = nfd (trim_slash p);
          wire = slash_to_nul p;
          w = builder_u8 w kFPUTF8Name;
          w = builder_u32 w utf8PathHint;
          w = builder_u16 w (word_of_nat (length wire))
      in w @ bytes_of_string wire)"

lemmas builder_defs =
  builder_u8_def builder_u16_def builder_u32_def builder_u64_def builder_bytes_def

section \<open>The reader\<close>

record reader =
  rb :: bytes
  rpos :: nat
  rerr :: "goerr option"

definition new_reader :: "bytes \<Rightarrow> reader" where
  "new_reader b = \<lparr>rb = b, rpos = 0, rerr = None\<rparr>"

definition reader_fail :: "string \<Rightarrow> reader \<Rightarrow> reader" where
  "reader_fail what r =
     (if rerr r = None
      then r\<lparr>rerr := Some (Errorf ''afp: truncated reply: %s at offset %d of %d''
                [AStr what, AInt (int (rpos r)), AInt (int (length (rb r)))])\<rparr>
      else r)"

text \<open>\<^verbatim>\<open>take\<close> returns \<^verbatim>\<open>nil\<close> (here \<open>None\<close>) after any failure.\<close>

definition reader_take :: "nat \<Rightarrow> string \<Rightarrow> reader \<Rightarrow> bytes option \<times> reader" where
  "reader_take n what r =
     (if rerr r \<noteq> None then (None, r)
      else if rpos r + n > length (rb r) then (None, reader_fail what r)
      else (Some (take n (drop (rpos r) (rb r))), r\<lparr>rpos := rpos r + n\<rparr>))"

definition reader_u8 :: "string \<Rightarrow> reader \<Rightarrow> 8 word \<times> reader" where
  "reader_u8 what r =
     (case reader_take 1 what r of
        (None, r') \<Rightarrow> (0, r')
      | (Some v, r') \<Rightarrow> (v ! 0, r'))"

definition reader_u16 :: "string \<Rightarrow> reader \<Rightarrow> 16 word \<times> reader" where
  "reader_u16 what r =
     (case reader_take 2 what r of
        (None, r') \<Rightarrow> (0, r')
      | (Some v, r') \<Rightarrow> (get16 v, r'))"

definition reader_u32 :: "string \<Rightarrow> reader \<Rightarrow> 32 word \<times> reader" where
  "reader_u32 what r =
     (case reader_take 4 what r of
        (None, r') \<Rightarrow> (0, r')
      | (Some v, r') \<Rightarrow> (get32 v, r'))"

definition reader_u64 :: "string \<Rightarrow> reader \<Rightarrow> 64 word \<times> reader" where
  "reader_u64 what r =
     (case reader_take 8 what r of
        (None, r') \<Rightarrow> (0, r')
      | (Some v, r') \<Rightarrow> (get64 v, r'))"

text \<open>\<^verbatim>\<open>string(nil)\<close> and \<^verbatim>\<open>SetBytes(nil)\<close> treat \<^verbatim>\<open>nil\<close> as the empty slice.\<close>

definition or_nil :: "bytes option \<Rightarrow> bytes" where
  "or_nil v = (case v of None \<Rightarrow> [] | Some b \<Rightarrow> b)"

definition reader_pascal :: "string \<Rightarrow> reader \<Rightarrow> string \<times> reader" where
  "reader_pascal what r =
     (let (n, r) = reader_u8 what r;
          (v, r) = reader_take (unat n) what r
      in (string_of_bytes (or_nil v), r))"

section \<open>Strings at absolute offsets\<close>

definition pascalAt :: "bytes \<Rightarrow> int \<Rightarrow> string res" where
  "pascalAt b off =
     (if off < 0 \<or> off \<ge> int (length b)
      then Err (Errorf ''afp: string offset %d outside %d-byte block''
                  [AInt off, AInt (int (length b))])
      else res_bind (go_index b off) (\<lambda>nb.
        let n = int (unat nb) in
        if off + 1 + n > int (length b)
        then Err (Errorf ''afp: string at %d overruns block'' [AInt off])
        else res_bind (go_slice b (off + 1) (off + 1 + n)) (\<lambda>v.
          Ok (string_of_bytes v))))"

definition pascal2At :: "bytes \<Rightarrow> int \<Rightarrow> string res" where
  "pascal2At b off =
     (if off < 0 \<or> off + 2 > int (length b)
      then Err (Errorf ''afp: string offset %d outside %d-byte block''
                  [AInt off, AInt (int (length b))])
      else res_bind (go_slice b off (off + 2)) (\<lambda>nb.
        let n = int (unat (get16 nb)) in
        if off + 2 + n > int (length b)
        then Err (Errorf ''afp: string at %d overruns block'' [AInt off])
        else res_bind (go_slice b (off + 2) (off + 2 + n)) (\<lambda>v.
          Ok (string_of_bytes v))))"

section \<open>What the reader promises\<close>

text \<open>\<open>rd pre rest\<close>: a reader without failure that has consumed \<open>pre\<close> and still has \<open>rest\<close>.\<close>

definition rd :: "bytes \<Rightarrow> bytes \<Rightarrow> reader" where
  "rd pre rest = \<lparr>rb = pre @ rest, rpos = length pre, rerr = None\<rparr>"

definition reader_ok :: "reader \<Rightarrow> bool" where
  "reader_ok r \<longleftrightarrow> rpos r \<le> length (rb r)"

definition reader_failed :: "reader \<Rightarrow> bool" where
  "reader_failed r \<longleftrightarrow> rerr r \<noteq> None"

lemma new_reader_rd: "new_reader b = rd [] b"
  by (simp add: new_reader_def rd_def)

lemma rd_sel [simp]: "rb (rd pre rest) = pre @ rest" "rpos (rd pre rest) = length pre"
    "rerr (rd pre rest) = None" "\<not> reader_failed (rd pre rest)"
  by (simp_all add: rd_def reader_failed_def)

lemma reader_ok_rd [simp, intro!]: "reader_ok (rd pre rest)"
  by (simp add: reader_ok_def)

lemma reader_as_rd:
  "reader_ok r \<Longrightarrow> rerr r = None \<Longrightarrow> r = rd (take (rpos r) (rb r)) (drop (rpos r) (rb r))"
  by (cases r) (simp add: reader_ok_def rd_def)

lemma reader_take_rd [simp]:
  "length v = n \<Longrightarrow> reader_take n what (rd pre (v @ rest)) = (Some v, rd (pre @ v) rest)"
  by (simp add: reader_take_def rd_def)

lemma reader_take_short:
  "length rest < n \<Longrightarrow> fst (reader_take n what (rd pre rest)) = None
     \<and> reader_failed (snd (reader_take n what (rd pre rest)))"
  by (simp add: reader_take_def reader_fail_def rd_def reader_failed_def)

lemma reader_take_sticky [simp]: "reader_failed r \<Longrightarrow> reader_take n what r = (None, r)"
  by (simp add: reader_take_def reader_failed_def)

lemma reader_take_ok:
  "reader_ok r \<Longrightarrow> reader_ok (snd (reader_take n what r))
     \<and> rb (snd (reader_take n what r)) = rb r \<and> rpos r \<le> rpos (snd (reader_take n what r))"
  by (auto simp: reader_take_def reader_fail_def reader_ok_def)

lemma reader_take_fst: "reader_take n what r = (Some v, r') \<Longrightarrow> length v = n \<and> rerr r' = None"
  by (auto simp: reader_take_def split: if_splits)

lemma reader_take_fst_None: "reader_take n what r = (None, r') \<Longrightarrow> reader_failed r'"
  by (auto simp: reader_take_def reader_fail_def reader_failed_def split: if_splits)

text \<open>
  The interface of a field: \<open>get\<close> reads what \<open>put\<close> wrote and leaves the rest, reports a
  truncated field, does nothing once the reader has failed, and stays in bounds.
\<close>

locale wire_field =
  fixes get :: "reader \<Rightarrow> 'a \<times> reader"
    and put :: "'a \<Rightarrow> bytes"
    and okv :: "'a \<Rightarrow> bool"
  assumes get_put: "okv x \<Longrightarrow> get (rd pre (put x @ rest)) = (x, rd (pre @ put x) rest)"
    and get_short: "okv x \<Longrightarrow> strict_prefix rest (put x) \<Longrightarrow> reader_failed (snd (get (rd pre rest)))"
    and get_sticky: "reader_failed r \<Longrightarrow> snd (get r) = r"
    and get_bounds: "reader_ok r \<Longrightarrow>
          reader_ok (snd (get r)) \<and> rb (snd (get r)) = rb r \<and> rpos r \<le> rpos (snd (get r))"
begin

lemma get_put_Nil: "okv x \<Longrightarrow> get (rd pre (put x)) = (x, rd (pre @ put x) [])"
  using get_put [of x pre "[]"] by simp

lemma get_new: "okv x \<Longrightarrow> get (new_reader (put x @ rest)) = (x, rd (put x) rest)"
  using get_put [of x "[]" rest] by (simp add: new_reader_rd)

lemma put_prefix_free:
  assumes "okv x" and "okv y" and "put x @ as = put y @ bs"
  shows "x = y \<and> as = bs"
proof -
  have "(x, rd (put x) as) = (y, rd (put y) bs)"
    using get_new [OF assms(1), of as] get_new [OF assms(2), of bs] assms(3) by simp
  then show ?thesis using assms(3) by auto
qed

lemma get_keeps_err: "reader_failed r \<Longrightarrow> rerr (snd (get r)) = rerr r"
  by (simp add: get_sticky)

end

text \<open>Two fields read one after the other are again a field.\<close>

definition reader_pair ::
    "(reader \<Rightarrow> 'a \<times> reader) \<Rightarrow> (reader \<Rightarrow> 'b \<times> reader) \<Rightarrow> reader \<Rightarrow> ('a \<times> 'b) \<times> reader" where
  "reader_pair g h r = (let (a, r1) = g r; (b, r2) = h r1 in ((a, b), r2))"

locale two_fields =
  f: wire_field get1 put1 ok1 + h: wire_field get2 put2 ok2
  for get1 :: "reader \<Rightarrow> 'a \<times> reader" and put1 ok1
    and get2 :: "reader \<Rightarrow> 'b \<times> reader" and put2 ok2
begin

lemma pair_short:
  assumes "ok1 a" and "ok2 b" and "strict_prefix rest (put1 a @ put2 b)"
  shows "reader_failed (snd (reader_pair get1 get2 (rd pre rest)))"
proof (cases "strict_prefix rest (put1 a)")
  case True
  then have "reader_failed (snd (get1 (rd pre rest)))"
    using f.get_short assms(1) by blast
  then have "reader_failed (snd (get2 (snd (get1 (rd pre rest)))))"
    using h.get_sticky by metis
  then show ?thesis by (simp add: reader_pair_def case_prod_beta)
next
  case False
  have "prefix rest (put1 a) \<or> (\<exists>t. rest = put1 a @ t \<and> prefix t (put2 b))"
    using assms(3) by (simp add: strict_prefix_def prefix_append)
  with False have "\<exists>t. rest = put1 a @ t \<and> prefix t (put2 b)"
    by (auto simp: strict_prefix_def)
  then obtain t where t: "rest = put1 a @ t" and "prefix t (put2 b)" by blast
  with assms(3) have "strict_prefix t (put2 b)" by (auto simp: strict_prefix_def)
  with t show ?thesis
    using f.get_put [OF assms(1)] h.get_short [OF assms(2)] by (simp add: reader_pair_def case_prod_beta)
qed

end

sublocale two_fields \<subseteq> pair: wire_field "reader_pair get1 get2" "\<lambda>(a, b). put1 a @ put2 b"
    "\<lambda>(a, b). ok1 a \<and> ok2 b"
proof
  fix x :: "'a \<times> 'b" and pre rest
  assume "case x of (a, b) \<Rightarrow> ok1 a \<and> ok2 b"
  then show "reader_pair get1 get2 (rd pre ((case x of (a, b) \<Rightarrow> put1 a @ put2 b) @ rest)) =
         (x, rd (pre @ (case x of (a, b) \<Rightarrow> put1 a @ put2 b)) rest)"
    using f.get_put h.get_put by (auto simp: reader_pair_def)
next
  fix x :: "'a \<times> 'b" and pre rest
  assume "case x of (a, b) \<Rightarrow> ok1 a \<and> ok2 b"
    and "strict_prefix rest (case x of (a, b) \<Rightarrow> put1 a @ put2 b)"
  then show "reader_failed (snd (reader_pair get1 get2 (rd pre rest)))"
    using pair_short by (cases x) auto
next
  fix r :: reader assume "reader_failed r"
  then show "snd (reader_pair get1 get2 r) = r"
    using f.get_sticky h.get_sticky by (simp add: reader_pair_def case_prod_beta)
next
  fix r :: reader assume "reader_ok r"
  then show "reader_ok (snd (reader_pair get1 get2 r)) \<and>
      rb (snd (reader_pair get1 get2 r)) = rb r \<and> rpos r \<le> rpos (snd (reader_pair get1 get2 r))"
    using f.get_bounds [of r] h.get_bounds [of "snd (get1 r)"]
    by (auto simp: reader_pair_def case_prod_beta)
qed

subsection \<open>The reader's methods are fields\<close>

lemma strict_prefix_length_less: "strict_prefix xs ys \<Longrightarrow> length xs < length ys"
  by (auto simp: strict_prefix_def prefix_def)

lemma reader_take_field:
  assumes "dec v = x" and "length v = n"
  shows "(case reader_take n what (rd pre (v @ rest)) of
            (None, r') \<Rightarrow> (z, r') | (Some v', r') \<Rightarrow> (dec v', r')) = (x, rd (pre @ v) rest)"
  using assms by simp

lemma reader_case_snd:
  "snd (case p of (None, r') \<Rightarrow> (z, r') | (Some v, r') \<Rightarrow> (dec v, r')) = snd p"
  by (cases p) (auto split: option.splits)

lemmas reader_num_defs = reader_u8_def reader_u16_def reader_u32_def reader_u64_def

lemma reader_num_snd [simp]:
  "snd (reader_u8 what r) = snd (reader_take 1 what r)"
  "snd (reader_u16 what r) = snd (reader_take 2 what r)"
  "snd (reader_u32 what r) = snd (reader_take 4 what r)"
  "snd (reader_u64 what r) = snd (reader_take 8 what r)"
  by (simp_all add: reader_num_defs reader_case_snd)

interpretation f8: wire_field "reader_u8 what" "\<lambda>b. [b]" "\<lambda>_. True" for what
proof
  fix x :: byte and pre rest
  show "reader_u8 what (rd pre ([x] @ rest)) = (x, rd (pre @ [x]) rest)"
    using reader_take_field [of "\<lambda>v. v ! 0" "[x]" x 1] by (simp add: reader_u8_def)
qed (auto simp: reader_take_ok reader_take_short dest!: strict_prefix_length_less)

interpretation f16: wire_field "reader_u16 what" put16 "\<lambda>_. True" for what
  by unfold_locales
     (auto simp: reader_u16_def reader_case_snd reader_take_ok reader_take_short reader_take_field
       dest!: strict_prefix_length_less)

interpretation f32: wire_field "reader_u32 what" put32 "\<lambda>_. True" for what
  by unfold_locales
     (auto simp: reader_u32_def reader_case_snd reader_take_ok reader_take_short reader_take_field
       dest!: strict_prefix_length_less)

interpretation f64: wire_field "reader_u64 what" put64 "\<lambda>_. True" for what
  by unfold_locales
     (auto simp: reader_u64_def reader_case_snd reader_take_ok reader_take_short reader_take_field
       dest!: strict_prefix_length_less)

text \<open>The length-prefixed strings: what the builder writes, and the field that reads it.\<close>

definition put_pascal :: "string \<Rightarrow> bytes" where
  "put_pascal s = word_of_nat (length s) # bytes_of_string s"

definition put_pascal2 :: "string \<Rightarrow> bytes" where
  "put_pascal2 s = put16 (word_of_nat (length s)) @ bytes_of_string s"

lemma unat_length8: "length s < 256 \<Longrightarrow> unat (word_of_nat (length s) :: 8 word) = length s"
  by (simp add: unat_of_nat)

lemma unat_length16: "length s < 65536 \<Longrightarrow> unat (word_of_nat (length s) :: 16 word) = length s"
  by (simp add: unat_of_nat)

lemma uint_length8: "length s < 256 \<Longrightarrow> uint (word_of_nat (length s) :: 8 word) = int (length s)"
  using unat_length8 [of s] by (metis int_nat_eq uint_nonnegative unat_eq_nat_uint)

lemma uint_length16: "length s < 65536 \<Longrightarrow> uint (word_of_nat (length s) :: 16 word) = int (length s)"
  using unat_length16 [of s] by (metis int_nat_eq uint_nonnegative unat_eq_nat_uint)

lemma builder_pascal_eq: "builder_pascal w s = w @ put_pascal (take 255 s)"
  by (auto simp: builder_pascal_def builder_u8_def put_pascal_def Let_def)

lemma reader_pascal_snd:
  "snd (reader_pascal what r) =
     snd (reader_take (unat (fst (reader_u8 what r))) what (snd (reader_u8 what r)))"
  by (simp add: reader_pascal_def case_prod_beta)

interpretation fpascal: wire_field "reader_pascal what" put_pascal "\<lambda>s. length s < 256" for what
proof
  fix s :: string and pre rest
  assume "length s < 256"
  then show "reader_pascal what (rd pre (put_pascal s @ rest)) = (s, rd (pre @ put_pascal s) rest)"
    using f8.get_put [where x = "word_of_nat (length s)" and rest = "bytes_of_string s @ rest"]
    by (simp add: reader_pascal_def put_pascal_def unat_length8 or_nil_def)
next
  fix s :: string and pre rest
  assume "length s < 256" and pre: "strict_prefix rest (put_pascal s)"
  show "reader_failed (snd (reader_pascal what (rd pre rest)))"
  proof (cases rest)
    case Nil
    then show ?thesis
      using f8.get_short [where x = 0 and rest = "[]"] by (simp add: reader_pascal_snd)
  next
    case (Cons n t)
    with pre have "n = word_of_nat (length s)" and "length t < length s"
      by (auto simp: put_pascal_def dest: strict_prefix_length_less)
    with Cons \<open>length s < 256\<close> show ?thesis
      using f8.get_put [where x = n and rest = t]
      by (simp add: reader_pascal_def unat_length8 reader_take_short case_prod_beta)
  qed
next
  fix r :: reader
  assume "reader_failed r"
  then show "snd (reader_pascal what r) = r" by (simp add: reader_pascal_snd)
next
  fix r :: reader
  assume "reader_ok r"
  then show "reader_ok (snd (reader_pascal what r)) \<and> rb (snd (reader_pascal what r)) = rb r
      \<and> rpos r \<le> rpos (snd (reader_pascal what r))"
    using reader_take_ok [of r 1 what]
      reader_take_ok [of "snd (reader_u8 what r)" "unat (fst (reader_u8 what r))" what]
    by (auto simp: reader_pascal_snd)
qed

lemmas field_get [simp] =
  f8.get_put [simplified] f16.get_put [simplified] f32.get_put [simplified] f64.get_put [simplified]
  fpascal.get_put
  f16.get_put_Nil [simplified] f32.get_put_Nil [simplified] f64.get_put_Nil [simplified]
  fpascal.get_put_Nil

subsection \<open>Strings at absolute offsets\<close>

lemma pascalAt_not_Panic: "pascalAt b off \<noteq> Panic"
  by (simp add: pascalAt_def Let_def)

lemma pascal2At_not_Panic: "pascal2At b off \<noteq> Panic"
  by (simp add: pascal2At_def Let_def)

lemma pascalAt_put:
  assumes "length s < 256"
  shows "pascalAt (pre @ put_pascal s @ post) (int (length pre)) = Ok s"
  using assms by (simp add: pascalAt_def put_pascal_def unat_length8 uint_length8 nth_append Let_def nat_add_distrib)

lemma pascal2At_put:
  assumes "length s < 65536"
  shows "pascal2At (pre @ put_pascal2 s @ post) (int (length pre)) = Ok s"
  using assms by (simp add: pascal2At_def put_pascal2_def unat_length16 uint_length16 Let_def nat_add_distrib)

end
