(* ===== verification/Entry.thy ===== *)
theory Entry
  imports Wire
begin

text \<open>
  \<^verbatim>\<open>internal/afp/entry.go\<close>: the parameters of a file or directory and the parser of the
  bitmapped parameter blocks in which servers send them.
\<close>

section \<open>Definitions\<close>

definition kFPAttributeBit :: "16 word" where "kFPAttributeBit = 0x0001"
definition kFPParentDirIDBit :: "16 word" where "kFPParentDirIDBit = 0x0002"
definition kFPCreateDateBit :: "16 word" where "kFPCreateDateBit = 0x0004"
definition kFPModDateBit :: "16 word" where "kFPModDateBit = 0x0008"
definition kFPBackupDateBit :: "16 word" where "kFPBackupDateBit = 0x0010"
definition kFPFinderInfoBit :: "16 word" where "kFPFinderInfoBit = 0x0020"
definition kFPLongNameBit :: "16 word" where "kFPLongNameBit = 0x0040"
definition kFPShortNameBit :: "16 word" where "kFPShortNameBit = 0x0080"
definition kFPNodeIDBit :: "16 word" where "kFPNodeIDBit = 0x0100"
definition kFPUTF8NameBit :: "16 word" where "kFPUTF8NameBit = 0x2000"
definition kFPUnixPrivsBit :: "16 word" where "kFPUnixPrivsBit = 0x8000"
definition kFPOffspringCountBit :: "16 word" where "kFPOffspringCountBit = 0x0200"
definition kFPOwnerIDBit :: "16 word" where "kFPOwnerIDBit = 0x0400"
definition kFPGroupIDBit :: "16 word" where "kFPGroupIDBit = 0x0800"
definition kFPAccessRightsBit :: "16 word" where "kFPAccessRightsBit = 0x1000"
definition kFPDataForkLenBit :: "16 word" where "kFPDataForkLenBit = 0x0200"
definition kFPRsrcForkLenBit :: "16 word" where "kFPRsrcForkLenBit = 0x0400"
definition kFPExtDataForkLenBit :: "16 word" where "kFPExtDataForkLenBit = 0x0800"
definition kFPLaunchLimitBit :: "16 word" where "kFPLaunchLimitBit = 0x1000"
definition kFPExtRsrcForkLenBit :: "16 word" where "kFPExtRsrcForkLenBit = 0x4000"

lemmas kFP_defs =
  kFPAttributeBit_def kFPParentDirIDBit_def kFPCreateDateBit_def kFPModDateBit_def
  kFPBackupDateBit_def kFPFinderInfoBit_def kFPLongNameBit_def kFPShortNameBit_def
  kFPNodeIDBit_def kFPUTF8NameBit_def kFPUnixPrivsBit_def kFPOffspringCountBit_def
  kFPOwnerIDBit_def kFPGroupIDBit_def kFPAccessRightsBit_def kFPDataForkLenBit_def
  kFPRsrcForkLenBit_def kFPExtDataForkLenBit_def kFPLaunchLimitBit_def kFPExtRsrcForkLenBit_def

definition RootDirID :: "32 word" where "RootDirID = 2"

record UnixPrivs =
  UID :: "32 word"
  GID :: "32 word"
  Permissions :: "32 word"

text \<open>The zero \<^verbatim>\<open>time.Time\<close> is \<open>None\<close>.\<close>

record DirEntry =
  deName :: string
  deIsDir :: bool
  deSize :: "64 word"
  deNodeID :: "32 word"
  deParentDirID :: "32 word"
  deOffspring :: "16 word"
  deCreateTime :: "int option"
  deModTime :: "int option"
  deUnixPrivs :: UnixPrivs
  deHasUnix :: bool
  deIsSymlink :: bool

definition zero_entry :: DirEntry where
  "zero_entry = \<lparr>deName = [], deIsDir = False, deSize = 0, deNodeID = 0, deParentDirID = 0,
     deOffspring = 0, deCreateTime = None, deModTime = None,
     deUnixPrivs = \<lparr>UID = 0, GID = 0, Permissions = 0\<rparr>, deHasUnix = False, deIsSymlink = False\<rparr>"

text \<open>
  The parser walks the bits of the bitmap; its state is the entry so far and the reader.
  \<open>opt_get\<close> is \<^verbatim>\<open>if bitmap&bit != 0 { ... r.get(what) ... }\<close>.
\<close>

definition has_bit :: "16 word \<Rightarrow> 16 word \<Rightarrow> bool" where
  "has_bit bitmap b \<longleftrightarrow> bitmap AND b \<noteq> 0"

definition opt_get :: "bool \<Rightarrow> (string \<Rightarrow> reader \<Rightarrow> 'a \<times> reader) \<Rightarrow> string \<Rightarrow>
    ('a \<Rightarrow> DirEntry \<Rightarrow> DirEntry) \<Rightarrow> DirEntry \<times> reader \<Rightarrow> DirEntry \<times> reader" where
  "opt_get c get what f st =
     (if c then (case st of (e, r) \<Rightarrow> let (x, r') = get what r in (f x e, r')) else st)"

definition finder_info :: "bytes option \<Rightarrow> DirEntry \<Rightarrow> DirEntry" where
  "finder_info fi e =
     (if length (or_nil fi) \<ge> 4 \<and> string_of_bytes (take 4 (or_nil fi)) = ''slnk''
      then e\<lparr>deIsSymlink := True\<rparr> else e)"

definition long_name :: "bytes \<Rightarrow> bool \<Rightarrow> DirEntry \<times> reader \<Rightarrow> (DirEntry \<times> reader) res" where
  "long_name block c st =
     (if c then (case st of (e, r) \<Rightarrow>
        let (off, r) = reader_u16 ''long name offset'' r in
        if rerr r = None
        then res_bind (pascalAt block (int (unat off))) (\<lambda>name. Ok (e\<lparr>deName := name\<rparr>, r))
        else Ok (e, r))
      else Ok st)"

definition utf8_name ::
    "(string \<Rightarrow> string) \<Rightarrow> bytes \<Rightarrow> bool \<Rightarrow> DirEntry \<times> reader \<Rightarrow> (DirEntry \<times> reader) res" where
  "utf8_name nfc block c st =
     (if c then (case st of (e, r) \<Rightarrow>
        let (off, r) = reader_u16 ''utf8 name offset'' r;
            (pad, r) = reader_u32 ''utf8 name pad'' r in
        if rerr r = None
        then res_bind (pascal2At block (int (unat off) + 4)) (\<lambda>name.
               Ok (e\<lparr>deName := nfc name\<rparr>, r))
        else Ok (e, r))
      else Ok st)"

definition parse_head :: "16 word \<Rightarrow> DirEntry \<times> reader \<Rightarrow> DirEntry \<times> reader" where
  "parse_head bitmap st =
     (let st = opt_get (has_bit bitmap kFPAttributeBit) reader_u16 ''attributes'' (\<lambda>_ e. e) st;
          st = opt_get (has_bit bitmap kFPParentDirIDBit) reader_u32 ''parent dir id''
                 (\<lambda>x e. e\<lparr>deParentDirID := x\<rparr>) st;
          st = opt_get (has_bit bitmap kFPCreateDateBit) reader_u32 ''create date''
                 (\<lambda>x e. e\<lparr>deCreateTime := Some (afpDate x)\<rparr>) st;
          st = opt_get (has_bit bitmap kFPModDateBit) reader_u32 ''mod date''
                 (\<lambda>x e. e\<lparr>deModTime := Some (afpDate x)\<rparr>) st;
          st = opt_get (has_bit bitmap kFPBackupDateBit) reader_u32 ''backup date'' (\<lambda>_ e. e) st
      in opt_get (has_bit bitmap kFPFinderInfoBit) (reader_take 32) ''finder info'' finder_info st)"

definition parse_ids :: "16 word \<Rightarrow> DirEntry \<times> reader \<Rightarrow> DirEntry \<times> reader" where
  "parse_ids bitmap st =
     (let st = opt_get (has_bit bitmap kFPShortNameBit) reader_u16 ''short name offset'' (\<lambda>_ e. e) st
      in opt_get (has_bit bitmap kFPNodeIDBit) reader_u32 ''node id'' (\<lambda>x e. e\<lparr>deNodeID := x\<rparr>) st)"

definition parse_dir :: "16 word \<Rightarrow> DirEntry \<times> reader \<Rightarrow> DirEntry \<times> reader" where
  "parse_dir bitmap st =
     (let st = opt_get (has_bit bitmap kFPOffspringCountBit) reader_u16 ''offspring count''
                 (\<lambda>x e. e\<lparr>deOffspring := x\<rparr>) st;
          st = opt_get (has_bit bitmap kFPOwnerIDBit) reader_u32 ''owner id''
                 (\<lambda>x e. e\<lparr>deUnixPrivs := (deUnixPrivs e)\<lparr>UID := x\<rparr>\<rparr>) st;
          st = opt_get (has_bit bitmap kFPGroupIDBit) reader_u32 ''group id''
                 (\<lambda>x e. e\<lparr>deUnixPrivs := (deUnixPrivs e)\<lparr>GID := x\<rparr>\<rparr>) st
      in opt_get (has_bit bitmap kFPAccessRightsBit) reader_u32 ''access rights'' (\<lambda>_ e. e) st)"

definition parse_file :: "16 word \<Rightarrow> DirEntry \<times> reader \<Rightarrow> DirEntry \<times> reader" where
  "parse_file bitmap st =
     (let st = opt_get (has_bit bitmap kFPDataForkLenBit) reader_u32 ''data fork len''
                 (\<lambda>x e. e\<lparr>deSize := ucast x\<rparr>) st;
          st = opt_get (has_bit bitmap kFPRsrcForkLenBit) reader_u32 ''rsrc fork len'' (\<lambda>_ e. e) st;
          st = opt_get (has_bit bitmap kFPExtDataForkLenBit) reader_u64 ''ext data fork len''
                 (\<lambda>x e. e\<lparr>deSize := x\<rparr>) st
      in opt_get (has_bit bitmap kFPLaunchLimitBit) reader_u16 ''launch limit'' (\<lambda>_ e. e) st)"

definition parse_privs :: "16 word \<Rightarrow> DirEntry \<times> reader \<Rightarrow> DirEntry \<times> reader" where
  "parse_privs bitmap st =
     (let c = has_bit bitmap kFPUnixPrivsBit;
          st = opt_get c reader_u32 ''unix uid''
                 (\<lambda>x e. e\<lparr>deUnixPrivs := (deUnixPrivs e)\<lparr>UID := x\<rparr>\<rparr>) st;
          st = opt_get c reader_u32 ''unix gid''
                 (\<lambda>x e. e\<lparr>deUnixPrivs := (deUnixPrivs e)\<lparr>GID := x\<rparr>\<rparr>) st;
          st = opt_get c reader_u32 ''unix permissions''
                 (\<lambda>x e. e\<lparr>deUnixPrivs := (deUnixPrivs e)\<lparr>Permissions := x\<rparr>\<rparr>) st;
          st = opt_get c reader_u32 ''unix ua_permissions'' (\<lambda>_ e. e) st
      in if c then (case st of (e, r) \<Rightarrow> (e\<lparr>deHasUnix := (rerr r = None)\<rparr>, r)) else st)"

definition parseEntryParams ::
    "(string \<Rightarrow> string) \<Rightarrow> bytes \<Rightarrow> bool \<Rightarrow> 16 word \<Rightarrow> DirEntry res" where
  "parseEntryParams nfc block isDir bitmap =
     (let st = parse_head bitmap (zero_entry\<lparr>deIsDir := isDir\<rparr>, new_reader block) in
      res_bind (long_name block (has_bit bitmap kFPLongNameBit) st) (\<lambda>st.
        let st = parse_ids bitmap st;
            st = (if isDir then parse_dir bitmap st else parse_file bitmap st) in
        res_bind (utf8_name nfc block (has_bit bitmap kFPUTF8NameBit) st) (\<lambda>st.
          let st = opt_get (has_bit bitmap kFPExtRsrcForkLenBit \<and> \<not> isDir) reader_u64
                     ''ext rsrc fork len'' (\<lambda>_ e. e) st;
              (e, r) = parse_privs bitmap st
          in case rerr r of None \<Rightarrow> Ok e | Some er \<Rightarrow> Err er)))"

section \<open>No read outside the block\<close>

lemma long_name_not_Panic [simp]: "long_name block c st \<noteq> Panic"
  by (cases st) (auto simp: long_name_def Let_def case_prod_beta res_bind_Panic_iff pascalAt_not_Panic)

lemma utf8_name_not_Panic [simp]: "utf8_name nfc block c st \<noteq> Panic"
  by (cases st) (auto simp: utf8_name_def Let_def case_prod_beta res_bind_Panic_iff pascal2At_not_Panic)

text \<open>For every block, bitmap and kind of object the parser stays inside the block.\<close>

lemma parseEntryParams_not_Panic: "parseEntryParams nfc block isDir bitmap \<noteq> Panic"
  by (auto simp: parseEntryParams_def Let_def case_prod_beta res_bind_Panic_iff split: option.splits)

section \<open>The layout of a parameter block\<close>

text \<open>
  The values a server puts into a block, and the block it builds for a bitmap: the selected
  parameters in the order of their bits, then the two names at the offsets the fixed part gives.
\<close>

record params =
  pAttr :: "16 word"
  pParent :: "32 word"
  pCreate :: "32 word"
  pMod :: "32 word"
  pBackup :: "32 word"
  pFinder :: bytes
  pLong :: string
  pShort :: "16 word"
  pNode :: "32 word"
  pOffspring :: "16 word"
  pOwner :: "32 word"
  pGroup :: "32 word"
  pAccess :: "32 word"
  pDataLen :: "32 word"
  pRsrcLen :: "32 word"
  pExtDataLen :: "64 word"
  pLaunch :: "16 word"
  pHint :: "32 word"
  pName :: string
  pPad :: "32 word"
  pExtRsrcLen :: "64 word"
  pUid :: "32 word"
  pGid :: "32 word"
  pPerm :: "32 word"
  pUaPerm :: "32 word"

definition opt :: "bool \<Rightarrow> 'a list \<Rightarrow> 'a list" where
  "opt c xs = (if c then xs else [])"

definition put_head :: "16 word \<Rightarrow> params \<Rightarrow> bytes" where
  "put_head bm p =
     opt (has_bit bm kFPAttributeBit) (put16 (pAttr p)) @
     opt (has_bit bm kFPParentDirIDBit) (put32 (pParent p)) @
     opt (has_bit bm kFPCreateDateBit) (put32 (pCreate p)) @
     opt (has_bit bm kFPModDateBit) (put32 (pMod p)) @
     opt (has_bit bm kFPBackupDateBit) (put32 (pBackup p)) @
     opt (has_bit bm kFPFinderInfoBit) (pFinder p)"

definition put_ids :: "16 word \<Rightarrow> params \<Rightarrow> bytes" where
  "put_ids bm p =
     opt (has_bit bm kFPShortNameBit) (put16 (pShort p)) @
     opt (has_bit bm kFPNodeIDBit) (put32 (pNode p))"

definition put_dir :: "16 word \<Rightarrow> params \<Rightarrow> bytes" where
  "put_dir bm p =
     opt (has_bit bm kFPOffspringCountBit) (put16 (pOffspring p)) @
     opt (has_bit bm kFPOwnerIDBit) (put32 (pOwner p)) @
     opt (has_bit bm kFPGroupIDBit) (put32 (pGroup p)) @
     opt (has_bit bm kFPAccessRightsBit) (put32 (pAccess p))"

definition put_file :: "16 word \<Rightarrow> params \<Rightarrow> bytes" where
  "put_file bm p =
     opt (has_bit bm kFPDataForkLenBit) (put32 (pDataLen p)) @
     opt (has_bit bm kFPRsrcForkLenBit) (put32 (pRsrcLen p)) @
     opt (has_bit bm kFPExtDataForkLenBit) (put64 (pExtDataLen p)) @
     opt (has_bit bm kFPLaunchLimitBit) (put16 (pLaunch p))"

definition put_privs :: "16 word \<Rightarrow> params \<Rightarrow> bytes" where
  "put_privs bm p =
     opt (has_bit bm kFPUnixPrivsBit) (put32 (pUid p)) @
     opt (has_bit bm kFPUnixPrivsBit) (put32 (pGid p)) @
     opt (has_bit bm kFPUnixPrivsBit) (put32 (pPerm p)) @
     opt (has_bit bm kFPUnixPrivsBit) (put32 (pUaPerm p))"

definition put_fixed :: "16 word \<Rightarrow> bool \<Rightarrow> params \<Rightarrow> nat \<Rightarrow> nat \<Rightarrow> bytes" where
  "put_fixed bm isDir p lo uo =
     put_head bm p @
     opt (has_bit bm kFPLongNameBit) (put16 (word_of_nat lo)) @
     put_ids bm p @
     (if isDir then put_dir bm p else put_file bm p) @
     opt (has_bit bm kFPUTF8NameBit) (put16 (word_of_nat uo) @ put32 (pPad p)) @
     opt (has_bit bm kFPExtRsrcForkLenBit \<and> \<not> isDir) (put64 (pExtRsrcLen p)) @
     put_privs bm p"

definition fixed_len :: "16 word \<Rightarrow> bool \<Rightarrow> params \<Rightarrow> nat" where
  "fixed_len bm isDir p = length (put_fixed bm isDir p 0 0)"

definition utf8_off :: "16 word \<Rightarrow> bool \<Rightarrow> params \<Rightarrow> nat" where
  "utf8_off bm isDir p = fixed_len bm isDir p + length (opt (has_bit bm kFPLongNameBit) (put_pascal (pLong p)))"

definition put_params :: "16 word \<Rightarrow> bool \<Rightarrow> params \<Rightarrow> bytes" where
  "put_params bm isDir p =
     put_fixed bm isDir p (fixed_len bm isDir p) (utf8_off bm isDir p) @
     opt (has_bit bm kFPLongNameBit) (put_pascal (pLong p)) @
     opt (has_bit bm kFPUTF8NameBit) (put32 (pHint p) @ put_pascal2 (pName p))"

definition params_ok :: "16 word \<Rightarrow> bool \<Rightarrow> params \<Rightarrow> bool" where
  "params_ok bm isDir p \<longleftrightarrow>
     length (pFinder p) = 32 \<and> length (pLong p) < 256 \<and> length (pName p) < 65536
     \<and> utf8_off bm isDir p < 65536"

text \<open>What the caller is to see of these values.\<close>

definition entry_of :: "(string \<Rightarrow> string) \<Rightarrow> 16 word \<Rightarrow> bool \<Rightarrow> params \<Rightarrow> DirEntry" where
  "entry_of nfc bm isDir p =
     (let has = has_bit bm in
      \<lparr>deName = (if has kFPUTF8NameBit then nfc (pName p)
                else if has kFPLongNameBit then pLong p else []),
       deIsDir = isDir,
       deSize = (if isDir then 0
                 else if has kFPExtDataForkLenBit then pExtDataLen p
                 else if has kFPDataForkLenBit then ucast (pDataLen p) else 0),
       deNodeID = (if has kFPNodeIDBit then pNode p else 0),
       deParentDirID = (if has kFPParentDirIDBit then pParent p else 0),
       deOffspring = (if isDir \<and> has kFPOffspringCountBit then pOffspring p else 0),
       deCreateTime = (if has kFPCreateDateBit then Some (afpDate (pCreate p)) else None),
       deModTime = (if has kFPModDateBit then Some (afpDate (pMod p)) else None),
       deUnixPrivs =
         \<lparr>UID = (if has kFPUnixPrivsBit then pUid p
                 else if isDir \<and> has kFPOwnerIDBit then pOwner p else 0),
          GID = (if has kFPUnixPrivsBit then pGid p
                 else if isDir \<and> has kFPGroupIDBit then pGroup p else 0),
          Permissions = (if has kFPUnixPrivsBit then pPerm p else 0)\<rparr>,
       deHasUnix = has kFPUnixPrivsBit,
       deIsSymlink = (has kFPFinderInfoBit \<and> take 4 (pFinder p) = bytes_of_string ''slnk'')\<rparr>)"

subsection \<open>Each conditional read consumes its own field\<close>

lemma opt_simps [simp]: "opt True xs = xs" "opt False xs = []" "opt c [] = []"
    "length (opt c xs) = (if c then length xs else 0)"
  by (simp_all add: opt_def)

lemma opt_get_num [simp]:
  "opt_get c reader_u16 what f (e, rd pre (opt c (put16 x16) @ rest)) =
     (if c then f x16 e else e, rd (pre @ opt c (put16 x16)) rest)"
  "opt_get c reader_u32 what g (e, rd pre (opt c (put32 x32) @ rest)) =
     (if c then g x32 e else e, rd (pre @ opt c (put32 x32)) rest)"
  "opt_get c reader_u64 what h (e, rd pre (opt c (put64 x64) @ rest)) =
     (if c then h x64 e else e, rd (pre @ opt c (put64 x64)) rest)"
  by (simp_all add: opt_get_def)

lemma opt_get_take [simp]:
  "length v = n \<Longrightarrow> opt_get c (reader_take n) what f (e, rd pre (opt c v @ rest)) =
     (if c then f (Some v) e else e, rd (pre @ opt c v) rest)"
  by (simp add: opt_get_def)

lemma opt_get_False [simp]: "opt_get False get what f st = st"
  by (simp add: opt_get_def)

lemmas opt_get_True [simp] = opt_get_num [of True, simplified]

lemma string_of_bytes_slnk: "string_of_bytes bs = ''slnk'' \<longleftrightarrow> bs = bytes_of_string ''slnk''"
  by (metis bytes_of_string_of_bytes string_of_bytes_of_string)

lemma parse_head_put:
  assumes "length (pFinder p) = 32"
  shows "parse_head bm (e, rd pre (put_head bm p @ rest)) =
    (e\<lparr>deParentDirID := if has_bit bm kFPParentDirIDBit then pParent p else deParentDirID e,
       deCreateTime := if has_bit bm kFPCreateDateBit then Some (afpDate (pCreate p)) else deCreateTime e,
       deModTime := if has_bit bm kFPModDateBit then Some (afpDate (pMod p)) else deModTime e,
       deIsSymlink := (has_bit bm kFPFinderInfoBit \<and> take 4 (pFinder p) = bytes_of_string ''slnk''
                       \<or> deIsSymlink e)\<rparr>,
     rd (pre @ put_head bm p) rest)"
  using assms
  by (simp add: parse_head_def put_head_def Let_def finder_info_def or_nil_def string_of_bytes_slnk)

lemma parse_ids_put:
  "parse_ids bm (e, rd pre (put_ids bm p @ rest)) =
    (e\<lparr>deNodeID := if has_bit bm kFPNodeIDBit then pNode p else deNodeID e\<rparr>,
     rd (pre @ put_ids bm p) rest)"
  by (simp add: parse_ids_def put_ids_def Let_def)

lemma parse_dir_put:
  "parse_dir bm (e, rd pre (put_dir bm p @ rest)) =
    (e\<lparr>deOffspring := if has_bit bm kFPOffspringCountBit then pOffspring p else deOffspring e,
       deUnixPrivs := (deUnixPrivs e)
         \<lparr>UID := if has_bit bm kFPOwnerIDBit then pOwner p else UID (deUnixPrivs e),
          GID := if has_bit bm kFPGroupIDBit then pGroup p else GID (deUnixPrivs e)\<rparr>\<rparr>,
     rd (pre @ put_dir bm p) rest)"
  by (simp add: parse_dir_def put_dir_def Let_def)

lemma parse_file_put:
  "parse_file bm (e, rd pre (put_file bm p @ rest)) =
    (e\<lparr>deSize := if has_bit bm kFPExtDataForkLenBit then pExtDataLen p
                 else if has_bit bm kFPDataForkLenBit then ucast (pDataLen p) else deSize e\<rparr>,
     rd (pre @ put_file bm p) rest)"
  by (simp add: parse_file_def put_file_def Let_def)

lemma parse_privs_put:
  "parse_privs bm (e, rd pre (put_privs bm p @ rest)) =
    (e\<lparr>deUnixPrivs :=
         \<lparr>UID = if has_bit bm kFPUnixPrivsBit then pUid p else UID (deUnixPrivs e),
          GID = if has_bit bm kFPUnixPrivsBit then pGid p else GID (deUnixPrivs e),
          Permissions = if has_bit bm kFPUnixPrivsBit then pPerm p else Permissions (deUnixPrivs e)\<rparr>,
       deHasUnix := has_bit bm kFPUnixPrivsBit \<or> deHasUnix e\<rparr>,
     rd (pre @ put_privs bm p) rest)"
  by (cases "has_bit bm kFPUnixPrivsBit") (simp_all add: parse_privs_def put_privs_def Let_def)

lemma unat_off16: "n < 65536 \<Longrightarrow> unat (word_of_nat n :: 16 word) = n"
  by (simp add: unat_of_nat)

lemma long_name_put:
  assumes "c \<longrightarrow> lo < 65536 \<and> pascalAt block (int lo) = Ok s"
  shows "long_name block c (e, rd pre (opt c (put16 (word_of_nat lo)) @ rest)) =
     Ok (e\<lparr>deName := if c then s else deName e\<rparr>, rd (pre @ opt c (put16 (word_of_nat lo))) rest)"
  using assms by (auto simp: long_name_def unat_off16 simp del: int_nat_eq of_nat_unat)

lemma utf8_name_put:
  assumes "c \<longrightarrow> uo < 65536 \<and> pascal2At block (int uo + 4) = Ok s"
  shows "utf8_name nfc block c (e, rd pre (opt c (put16 (word_of_nat uo) @ put32 pad) @ rest)) =
     Ok (e\<lparr>deName := if c then nfc s else deName e\<rparr>,
         rd (pre @ opt c (put16 (word_of_nat uo) @ put32 pad)) rest)"
  using assms by (auto simp: utf8_name_def unat_off16 simp del: int_nat_eq of_nat_unat)

lemma fixed_len_eq: "length (put_fixed bm isDir p lo uo) = fixed_len bm isDir p"
  by (simp add: fixed_len_def put_fixed_def)

lemma put_params_names:
  assumes "params_ok bm isDir p"
  shows "has_bit bm kFPLongNameBit \<longrightarrow> fixed_len bm isDir p < 65536 \<and>
           pascalAt (put_params bm isDir p @ post) (int (fixed_len bm isDir p)) = Ok (pLong p)"
    and "has_bit bm kFPUTF8NameBit \<longrightarrow> utf8_off bm isDir p < 65536 \<and>
           pascal2At (put_params bm isDir p @ post) (int (utf8_off bm isDir p) + 4) = Ok (pName p)"
proof -
  let ?F = "put_fixed bm isDir p (fixed_len bm isDir p) (utf8_off bm isDir p)"
  let ?L = "opt (has_bit bm kFPLongNameBit) (put_pascal (pLong p))"
  show "has_bit bm kFPLongNameBit \<longrightarrow> fixed_len bm isDir p < 65536 \<and>
           pascalAt (put_params bm isDir p @ post) (int (fixed_len bm isDir p)) = Ok (pLong p)"
    using assms pascalAt_put [of "pLong p" ?F]
    by (auto simp: put_params_def fixed_len_eq params_ok_def utf8_off_def)
  show "has_bit bm kFPUTF8NameBit \<longrightarrow> utf8_off bm isDir p < 65536 \<and>
           pascal2At (put_params bm isDir p @ post) (int (utf8_off bm isDir p) + 4) = Ok (pName p)"
    using assms pascal2At_put [of "pName p" "?F @ ?L @ put32 (pHint p)" post]
    by (auto simp: put_params_def fixed_len_eq params_ok_def utf8_off_def add.assoc simp del: opt_simps(4))
qed

lemma parseEntryParams_put_params:
  assumes "params_ok bm isDir p"
  shows "parseEntryParams nfc (put_params bm isDir p @ post) isDir bm = Ok (entry_of nfc bm isDir p)"
proof -
  define B where "B = put_params bm isDir p @ post"
  define lo where "lo = fixed_len bm isDir p"
  define uo where "uo = utf8_off bm isDir p"
  define V where "V = opt (has_bit bm kFPLongNameBit) (put_pascal (pLong p)) @
     opt (has_bit bm kFPUTF8NameBit) (put32 (pHint p) @ put_pascal2 (pName p)) @ post"
  have B: "new_reader B = rd [] (put_fixed bm isDir p lo uo @ V)"
    by (simp add: B_def lo_def uo_def V_def put_params_def new_reader_rd)
  note names = put_params_names [OF assms, folded B_def lo_def uo_def]
  note steps = parse_head_put parse_ids_put parse_dir_put parse_file_put parse_privs_put
    long_name_put [OF names(1) [of post, folded B_def]] utf8_name_put [OF names(2) [of post, folded B_def]]
  have "length (pFinder p) = 32" using assms by (simp add: params_ok_def)
  then have "parseEntryParams nfc B isDir bm = Ok (entry_of nfc bm isDir p)"
    unfolding parseEntryParams_def B
    by (cases isDir) (simp_all add: put_fixed_def steps Let_def zero_entry_def entry_of_def
        split del: if_split cong: if_cong)
  then show ?thesis by (simp add: B_def)
qed

text \<open>
  (C10) For every one of the bitmaps and both kinds of object, a parameter block laid out as the
  protocol says (the selected parameters in the order of their bits, names at offsets from the
  start of the block, padding after them) is read back to exactly the selected values: each field
  comes from its own offset, the 64-bit length wins over the 32-bit one, the Unicode name over the
  long name and the Unix privileges over the owner and group of a directory.
\<close>
theorem parseEntryParams_put:
  assumes "params_ok bm isDir p"
  shows "parseEntryParams nfc (put_params bm isDir p @ padding) isDir bm = Ok (entry_of nfc bm isDir p)"
  using assms by (rule parseEntryParams_put_params)

definition sample_params :: params where
  "sample_params = \<lparr>pAttr = 1, pParent = 2, pCreate = 3, pMod = 4, pBackup = 5,
     pFinder = bytes_of_string ''slnkrhap'' @ replicate 24 0, pLong = ''A.TXT'', pShort = 6, pNode = 7,
     pOffspring = 8, pOwner = 9, pGroup = 10, pAccess = 11, pDataLen = 12, pRsrcLen = 13,
     pExtDataLen = 0x100000000, pLaunch = 14, pHint = 0x08000103, pName = ''a.txt'', pPad = 0,
     pExtRsrcLen = 15, pUid = 501, pGid = 20, pPerm = 0x81a4, pUaPerm = 0\<rparr>"

theorem parseEntryParams_put_witness:
  "params_ok 0xA962 False sample_params \<and>
   parseEntryParams (\<lambda>s. s) (put_params 0xA962 False sample_params @ [0]) False 0xA962 =
     Ok \<lparr>deName = ''a.txt'', deIsDir = False, deSize = 0x100000000, deNodeID = 7, deParentDirID = 2,
         deOffspring = 0, deCreateTime = None, deModTime = None,
         deUnixPrivs = \<lparr>UID = 501, GID = 20, Permissions = 0x81a4\<rparr>, deHasUnix = True,
         deIsSymlink = True\<rparr>"
proof -
  have "params_ok 0xA962 False sample_params"
    by (simp add: params_ok_def utf8_off_def fixed_len_def put_fixed_def put_head_def put_ids_def
        put_file_def put_privs_def has_bit_def kFP_defs sample_params_def put_pascal_def)
  moreover have "entry_of (\<lambda>s. s) 0xA962 False sample_params =
     \<lparr>deName = ''a.txt'', deIsDir = False, deSize = 0x100000000, deNodeID = 7, deParentDirID = 2,
         deOffspring = 0, deCreateTime = None, deModTime = None,
         deUnixPrivs = \<lparr>UID = 501, GID = 20, Permissions = 0x81a4\<rparr>, deHasUnix = True,
         deIsSymlink = True\<rparr>"
    by (simp add: entry_of_def has_bit_def kFP_defs sample_params_def bytes_of_string_def byte_of_char_def)
  ultimately show ?thesis
    using parseEntryParams_put [of "0xA962" False sample_params "\<lambda>s. s" "[0]"] by simp
qed

section \<open>Truncated blocks are reported\<close>

definition optw :: "bool \<Rightarrow> nat \<Rightarrow> nat" where
  "optw c n = (if c then n else 0)"

definition fixed_width :: "bool \<Rightarrow> 16 word \<Rightarrow> nat" where
  "fixed_width isDir bm =
     (let has = has_bit bm in
      optw (has kFPAttributeBit) 2 + optw (has kFPParentDirIDBit) 4 + optw (has kFPCreateDateBit) 4 +
      optw (has kFPModDateBit) 4 + optw (has kFPBackupDateBit) 4 + optw (has kFPFinderInfoBit) 32 +
      optw (has kFPLongNameBit) 2 + optw (has kFPShortNameBit) 2 + optw (has kFPNodeIDBit) 4 +
      (if isDir
       then optw (has kFPOffspringCountBit) 2 + optw (has kFPOwnerIDBit) 4 +
            optw (has kFPGroupIDBit) 4 + optw (has kFPAccessRightsBit) 4
       else optw (has kFPDataForkLenBit) 4 + optw (has kFPRsrcForkLenBit) 4 +
            optw (has kFPExtDataForkLenBit) 8 + optw (has kFPLaunchLimitBit) 2) +
      optw (has kFPUTF8NameBit) 6 + optw (has kFPExtRsrcForkLenBit \<and> \<not> isDir) 8 +
      optw (has kFPUnixPrivsBit) 16)"

text \<open>\<open>consumed b k st\<close>: unless a read failed, \<open>k\<close> bytes of \<open>b\<close> have been read.\<close>

definition consumed :: "bytes \<Rightarrow> nat \<Rightarrow> DirEntry \<times> reader \<Rightarrow> bool" where
  "consumed b k st \<longleftrightarrow>
     (rerr (snd st) = None \<longrightarrow> rb (snd st) = b \<and> rpos (snd st) = k \<and> k \<le> length b)"

lemma consumed_take:
  assumes "rerr r = None \<longrightarrow> rb r = b \<and> rpos r = k \<and> k \<le> length b"
  shows "consumed b (k + n) (e, snd (reader_take n what r))"
  using assms by (auto simp: consumed_def reader_take_def reader_fail_def)

lemma consumed_opt_get:
  assumes "\<And>r. snd (get what r) = snd (reader_take n what r)" and "consumed b k st"
  shows "consumed b (k + optw c n) (opt_get c get what f st)"
proof (cases c)
  case True
  obtain e r where st: "st = (e, r)" by (cases st)
  then have "consumed b (k + n) (f (fst (get what r)) e, snd (reader_take n what r))"
    using assms(2) by (intro consumed_take) (simp add: consumed_def)
  with True st assms(1) show ?thesis by (simp add: opt_get_def optw_def case_prod_beta)
qed (use assms(2) in \<open>simp add: opt_get_def optw_def\<close>)

lemmas consumed_get =
  consumed_opt_get [where get = reader_u16, OF reader_num_snd(2)]
  consumed_opt_get [where get = reader_u32, OF reader_num_snd(3)]
  consumed_opt_get [where get = reader_u64, OF reader_num_snd(4)]
  consumed_opt_get [where get = "reader_take n" and n = n for n, OF refl]

lemma consumed_long_name:
  assumes "consumed b k st" and "long_name b c st = Ok st'"
  shows "consumed b (k + optw c 2) st'"
  using assms consumed_take [of "snd st" b k 2 "deName_update (\<lambda>_. []) (fst st)" "''long name offset''"]
  by (cases st) (auto simp: long_name_def optw_def case_prod_beta consumed_def Let_def
       res_bind_Ok_iff split: if_splits)

lemma consumed_utf8_name:
  assumes "consumed b k st" and "utf8_name nfc b c st = Ok st'"
  shows "consumed b (k + optw c 6) st'"
proof (cases c)
  case True
  obtain e r where st: "st = (e, r)" by (cases st)
  define r1 where "r1 = snd (reader_u16 ''utf8 name offset'' r)"
  define r2 where "r2 = snd (reader_u32 ''utf8 name pad'' r1)"
  have "consumed b (k + 2) (e, r1)"
    using consumed_take [of r b k 2] assms(1) st by (simp add: consumed_def r1_def)
  then have "consumed b (k + 2 + 4) (e, r2)"
    using consumed_take [of r1 b "k + 2" 4] by (simp add: consumed_def r2_def)
  moreover have "snd st' = r2"
    using assms(2) True st
    by (auto simp: utf8_name_def case_prod_beta Let_def res_bind_Ok_iff r1_def r2_def split: if_splits)
  ultimately show ?thesis using True by (simp add: consumed_def optw_def add.commute)
qed (use assms in \<open>simp add: utf8_name_def optw_def\<close>)

lemma consumed_parse:
  "consumed b k st \<Longrightarrow> consumed b (k + optw (has_bit bm kFPAttributeBit) 2 +
     optw (has_bit bm kFPParentDirIDBit) 4 + optw (has_bit bm kFPCreateDateBit) 4 +
     optw (has_bit bm kFPModDateBit) 4 + optw (has_bit bm kFPBackupDateBit) 4 +
     optw (has_bit bm kFPFinderInfoBit) 32) (parse_head bm st)"
  "consumed b k st \<Longrightarrow> consumed b (k + optw (has_bit bm kFPShortNameBit) 2 +
     optw (has_bit bm kFPNodeIDBit) 4) (parse_ids bm st)"
  "consumed b k st \<Longrightarrow> consumed b (k + optw (has_bit bm kFPOffspringCountBit) 2 +
     optw (has_bit bm kFPOwnerIDBit) 4 + optw (has_bit bm kFPGroupIDBit) 4 +
     optw (has_bit bm kFPAccessRightsBit) 4) (parse_dir bm st)"
  "consumed b k st \<Longrightarrow> consumed b (k + optw (has_bit bm kFPDataForkLenBit) 4 +
     optw (has_bit bm kFPRsrcForkLenBit) 4 + optw (has_bit bm kFPExtDataForkLenBit) 8 +
     optw (has_bit bm kFPLaunchLimitBit) 2) (parse_file bm st)"
  unfolding parse_head_def parse_ids_def parse_dir_def parse_file_def Let_def
  by (intro consumed_get; assumption)+

lemma consumed_privs:
  assumes "consumed b k st"
  shows "consumed b (k + optw (has_bit bm kFPUnixPrivsBit) 16) (parse_privs bm st)"
proof -
  let ?c = "has_bit bm kFPUnixPrivsBit"
  let ?g = "\<lambda>what f. opt_get ?c reader_u32 what f"
  have "consumed b (k + optw ?c 4 + optw ?c 4 + optw ?c 4 + optw ?c 4)
    (?g ''unix ua_permissions'' (\<lambda>_ e. e)
      (?g ''unix permissions'' (\<lambda>x e. e\<lparr>deUnixPrivs := (deUnixPrivs e)\<lparr>Permissions := x\<rparr>\<rparr>)
        (?g ''unix gid'' (\<lambda>x e. e\<lparr>deUnixPrivs := (deUnixPrivs e)\<lparr>GID := x\<rparr>\<rparr>)
          (?g ''unix uid'' (\<lambda>x e. e\<lparr>deUnixPrivs := (deUnixPrivs e)\<lparr>UID := x\<rparr>\<rparr>) st))))"
    by (intro consumed_get assms)
  then show ?thesis
    by (auto simp: parse_privs_def Let_def consumed_def optw_def case_prod_beta add.commute)
qed

text \<open>
  (C32) A parameter block is accepted only when it holds every parameter the bitmap selects: if
  the parser returns an entry, the block is at least as long as the fixed part of the layout.
  A truncated block is an error, not an entry with zero fields.
\<close>
theorem parseEntryParams_complete:
  assumes "parseEntryParams nfc block isDir bm = Ok e"
  shows "fixed_width isDir bm \<le> length block"
proof -
  obtain st1 st2 where st1: "long_name block (has_bit bm kFPLongNameBit)
        (parse_head bm (zero_entry\<lparr>deIsDir := isDir\<rparr>, new_reader block)) = Ok st1"
    and st2: "utf8_name nfc block (has_bit bm kFPUTF8NameBit)
        ((if isDir then parse_dir bm else parse_file bm) (parse_ids bm st1)) = Ok st2"
    and ok: "rerr (snd (parse_privs bm (opt_get (has_bit bm kFPExtRsrcForkLenBit \<and> \<not> isDir)
        reader_u64 ''ext rsrc fork len'' (\<lambda>_ e. e) st2))) = None"
    using assms by (auto simp: parseEntryParams_def Let_def res_bind_Ok_iff case_prod_beta
        split: option.splits if_splits)
  have "consumed block 0 (zero_entry\<lparr>deIsDir := isDir\<rparr>, new_reader block)"
    by (simp add: consumed_def new_reader_def)
  note c1 = consumed_long_name [OF consumed_parse(1) [OF this, of bm] st1]
  note c2 = consumed_parse(2) [OF c1, of bm]
  have "consumed block (fixed_width isDir bm - optw (has_bit bm kFPUTF8NameBit) 6 -
      optw (has_bit bm kFPExtRsrcForkLenBit \<and> \<not> isDir) 8 - optw (has_bit bm kFPUnixPrivsBit) 16)
      ((if isDir then parse_dir bm else parse_file bm) (parse_ids bm st1))"
    using consumed_parse(3,4) [OF c2, of bm]
    by (cases isDir) (simp_all add: fixed_width_def Let_def add.assoc)
  note c3 = consumed_utf8_name [OF this st2]
  show ?thesis
    using consumed_privs [OF consumed_get(3) [OF c3], THEN iffD1 [OF consumed_def], rule_format, OF ok]
    by (auto simp: fixed_width_def Let_def)
qed

theorem parseEntryParams_complete_witness:
  "parseEntryParams (\<lambda>s. s) [0, 0, 0, 7, 0, 0, 0, 9] False 0x0108 =
     Ok (zero_entry\<lparr>deNodeID := 9, deModTime := Some 946684807\<rparr>)
   \<and> fixed_width False 0x0108 \<le> length [0, 0, 0, 7, 0, 0, 0, 9 :: byte]"
proof -
  have "parseEntryParams (\<lambda>s. s) [0, 0, 0, 7, 0, 0, 0, 9] False 0x0108 =
     Ok (zero_entry\<lparr>deNodeID := 9, deModTime := Some 946684807\<rparr>)"
    by code_simp
  then show ?thesis using parseEntryParams_complete by blast
qed

end
