(* ===== verification/Result_Codes.thy ===== *)
theory Result_Codes
  imports Prelude
begin

text \<open>\<^verbatim>\<open>internal/afp/result.go\<close>: AFP command codes, result codes and the errors made of them.\<close>

section \<open>Command codes\<close>

definition cmdCloseVol :: "8 word" where "cmdCloseVol = 2"
definition cmdCloseFork :: "8 word" where "cmdCloseFork = 4"
definition cmdCreateDir :: "8 word" where "cmdCreateDir = 6"
definition cmdCreateFile :: "8 word" where "cmdCreateFile = 7"
definition cmdDelete :: "8 word" where "cmdDelete = 8"
definition cmdFlush :: "8 word" where "cmdFlush = 10"
definition cmdFlushFork :: "8 word" where "cmdFlushFork = 11"
definition cmdGetSrvrParms :: "8 word" where "cmdGetSrvrParms = 16"
definition cmdGetVolParms :: "8 word" where "cmdGetVolParms = 17"
definition cmdLogin :: "8 word" where "cmdLogin = 18"
definition cmdLoginCont :: "8 word" where "cmdLoginCont = 19"
definition cmdLogout :: "8 word" where "cmdLogout = 20"
definition cmdMoveAndRename :: "8 word" where "cmdMoveAndRename = 23"
definition cmdOpenVol :: "8 word" where "cmdOpenVol = 24"
definition cmdOpenFork :: "8 word" where "cmdOpenFork = 26"
definition cmdRename :: "8 word" where "cmdRename = 28"
definition cmdSetForkParms :: "8 word" where "cmdSetForkParms = 31"
definition cmdGetFileDirParms :: "8 word" where "cmdGetFileDirParms = 34"
definition cmdSetFileDirParms :: "8 word" where "cmdSetFileDirParms = 35"
definition cmdReadExt :: "8 word" where "cmdReadExt = 60"
definition cmdWriteExt :: "8 word" where "cmdWriteExt = 61"
definition cmdEnumerateExt2 :: "8 word" where "cmdEnumerateExt2 = 68"

lemmas cmd_defs =
  cmdCloseVol_def cmdCloseFork_def cmdCreateDir_def cmdCreateFile_def
  cmdDelete_def cmdFlush_def cmdFlushFork_def cmdGetSrvrParms_def
  cmdGetVolParms_def cmdLogin_def cmdLoginCont_def cmdLogout_def
  cmdMoveAndRename_def cmdOpenVol_def cmdOpenFork_def cmdRename_def
  cmdSetForkParms_def cmdGetFileDirParms_def cmdSetFileDirParms_def cmdReadExt_def
  cmdWriteExt_def cmdEnumerateExt2_def

section \<open>Result codes\<close>

type_synonym result = int

definition ResNoErr :: result where "ResNoErr = 0"
definition ResAccessDenied :: result where "ResAccessDenied = -5000"
definition ResAuthContinue :: result where "ResAuthContinue = -5001"
definition ResBadUAM :: result where "ResBadUAM = -5002"
definition ResBadVersNum :: result where "ResBadVersNum = -5003"
definition ResBitmapErr :: result where "ResBitmapErr = -5004"
definition ResDenyConflict :: result where "ResDenyConflict = -5006"
definition ResDirNotEmpty :: result where "ResDirNotEmpty = -5007"
definition ResDiskFull :: result where "ResDiskFull = -5008"
definition ResEOF :: result where "ResEOF = -5009"
definition ResFileBusy :: result where "ResFileBusy = -5010"
definition ResItemNotFound :: result where "ResItemNotFound = -5012"
definition ResLockErr :: result where "ResLockErr = -5013"
definition ResMiscErr :: result where "ResMiscErr = -5014"
definition ResNoServer :: result where "ResNoServer = -5016"
definition ResObjectExists :: result where "ResObjectExists = -5017"
definition ResObjectNotFound :: result where "ResObjectNotFound = -5018"
definition ResParamErr :: result where "ResParamErr = -5019"
definition ResSessClosed :: result where "ResSessClosed = -5022"
definition ResUserNotAuth :: result where "ResUserNotAuth = -5023"
definition ResCallNotSupported :: result where "ResCallNotSupported = -5024"
definition ResObjectTypeErr :: result where "ResObjectTypeErr = -5025"
definition ResTooManyFilesOpen :: result where "ResTooManyFilesOpen = -5026"
definition ResServerGoingDown :: result where "ResServerGoingDown = -5027"
definition ResDirNotFound :: result where "ResDirNotFound = -5029"
definition ResVolLocked :: result where "ResVolLocked = -5031"
definition ResObjectLocked :: result where "ResObjectLocked = -5032"
definition ResPwdExpiredErr :: result where "ResPwdExpiredErr = -5042"
definition ResPwdNeedsChangeErr :: result where "ResPwdNeedsChangeErr = -5045"

lemmas res_defs =
  ResNoErr_def ResAccessDenied_def ResAuthContinue_def ResBadUAM_def
  ResBadVersNum_def ResBitmapErr_def ResDenyConflict_def ResDirNotEmpty_def
  ResDiskFull_def ResEOF_def ResFileBusy_def ResItemNotFound_def
  ResLockErr_def ResMiscErr_def ResNoServer_def ResObjectExists_def
  ResObjectNotFound_def ResParamErr_def ResSessClosed_def ResUserNotAuth_def
  ResCallNotSupported_def ResObjectTypeErr_def ResTooManyFilesOpen_def ResServerGoingDown_def
  ResDirNotFound_def ResVolLocked_def ResObjectLocked_def ResPwdExpiredErr_def
  ResPwdNeedsChangeErr_def

definition resultNames :: "(result \<times> string) list" where
  "resultNames =
    [(ResNoErr, ''no error''),
     (ResAccessDenied, ''access denied''),
     (ResAuthContinue, ''authentication continues''),
     (ResBadUAM, ''bad UAM''),
     (ResBadVersNum, ''bad AFP version''),
     (ResBitmapErr, ''bitmap error''),
     (ResDenyConflict, ''deny conflict''),
     (ResDirNotEmpty, ''directory not empty''),
     (ResDiskFull, ''disk full''),
     (ResEOF, ''end of file''),
     (ResFileBusy, ''file busy''),
     (ResItemNotFound, ''item not found''),
     (ResLockErr, ''lock error''),
     (ResMiscErr, ''miscellaneous error''),
     (ResNoServer, ''no server''),
     (ResObjectExists, ''object exists''),
     (ResObjectNotFound, ''object not found''),
     (ResParamErr, ''parameter error''),
     (ResSessClosed, ''session closed''),
     (ResUserNotAuth, ''user not authenticated''),
     (ResCallNotSupported, ''call not supported''),
     (ResObjectTypeErr, ''object type error''),
     (ResTooManyFilesOpen, ''too many files open''),
     (ResServerGoingDown, ''server going down''),
     (ResDirNotFound, ''directory not found''),
     (ResVolLocked, ''volume locked''),
     (ResObjectLocked, ''object locked''),
     (ResPwdExpiredErr, ''password expired''),
     (ResPwdNeedsChangeErr, ''password needs change'')]"

text \<open>\<^verbatim>\<open>Result(int32(code))\<close>: the error field of a reply header, read as signed.\<close>

definition result_of_code :: "32 word \<Rightarrow> result" where
  "result_of_code w = sint w"

text \<open>\<^verbatim>\<open>(*Error).Error\<close>, with the decimal printing of \<^verbatim>\<open>fmt\<close> left to the format.\<close>

definition error_string :: "string \<Rightarrow> result \<Rightarrow> string \<times> fmtarg list" where
  "error_string op code =
     (case map_of resultNames code of
        Some name \<Rightarrow> (''afp: %s: %s'', [AStr op, AStr name])
      | None \<Rightarrow> (''afp: %s: AFP error %d'', [AStr op, AInt code]))"

definition resultErr :: "string \<Rightarrow> result \<Rightarrow> goerr option" where
  "resultErr op code = (if code = ResNoErr then None else Some (AfpError op code))"

lemma resultErr_None [simp]: "resultErr op code = None \<longleftrightarrow> code = 0"
  by (simp add: resultErr_def ResNoErr_def)

lemma resultErr_0 [simp]: "resultErr op 0 = None"
  by simp

lemma of_err_resultErr: "of_err (resultErr op code) = (if code = 0 then Ok () else Err (AfpError op code))"
  by (simp add: resultErr_def ResNoErr_def)

text \<open>No two result codes share a number, so each has its own name.\<close>

lemma resultNames_distinct: "distinct (map fst resultNames)"
  by (simp add: resultNames_def res_defs)

end
