(* ===== verification/Session.thy ===== *)
theory Session
  imports Dsi_Conn Entry Result_Codes "HOL-Library.List_Lexorder" "HOL-Library.Char_ord"
    "HOL-Library.Multiset"
begin

text \<open>
  \<^verbatim>\<open>internal/afp/session.go\<close> without \<^verbatim>\<open>Login\<close>: a session over a connection, its commands,
  volumes, enumeration and \<^verbatim>\<open>Stat\<close>. The operations are written over an environment \<open>E\<close> that
  holds the connection's \<^verbatim>\<open>request\<close> and quantum (\<open>dsi_env\<close> is the one of \<open>Dsi_Conn\<close>), the
  Unicode normal forms of \<^verbatim>\<open>golang.org/x/text\<close> and the order in which the goroutines of an
  \<^verbatim>\<open>errgroup\<close> of \<^verbatim>\<open>golang.org/x/sync\<close> get their answers.
\<close>

section \<open>Definitions\<close>

record 's env =
  conn_request :: "8 word \<Rightarrow> 32 word \<Rightarrow> bytes \<Rightarrow> ('s, reply) io"
  conn_quantum :: "'s \<Rightarrow> 32 word"
  norm_nfd :: "string \<Rightarrow> string"
  norm_nfc :: "string \<Rightarrow> string"
  group_order :: "'s \<Rightarrow> nat \<Rightarrow> nat list"

definition dsi_env :: "'w net \<Rightarrow> (string \<Rightarrow> string) \<Rightarrow> (string \<Rightarrow> string) \<Rightarrow>
    ('w dsi \<Rightarrow> nat \<Rightarrow> nat list) \<Rightarrow> 'w dsi env" where
  "dsi_env N nfd nfc order = \<lparr>conn_request = request N, conn_quantum = (\<lambda>s. ServerQuantum (dconn s)),
     norm_nfd = nfd, norm_nfc = nfc, group_order = order\<rparr>"

record 's session =
  sconn :: 's
  Version :: string

definition NewSession :: "'s \<Rightarrow> 's session" where
  "NewSession conn = \<lparr>sconn = conn, Version = []\<rparr>"

definition on_sconn :: "('s, 'a) io \<Rightarrow> ('s session, 'a) io" where
  "on_sconn m s = (case m (sconn s) of None \<Rightarrow> None | Some (r, c) \<Rightarrow> Some (r, s\<lparr>sconn := c\<rparr>))"

definition command :: "'s env \<Rightarrow> bytes \<Rightarrow> ('s session, bytes \<times> result) io" where
  "command E payload =
     io_bind (on_sconn (conn_request E CmdCommand 0 payload)) (\<lambda>r.
       io_ret (Payload r, result_of_code (ErrCode (Header r))))"

definition commandWrite :: "'s env \<Rightarrow> 32 word \<Rightarrow> bytes \<Rightarrow> ('s session, bytes \<times> result) io" where
  "commandWrite E dataOffset payload =
     io_bind (on_sconn (conn_request E CmdWrite dataOffset payload)) (\<lambda>r.
       io_ret (Payload r, result_of_code (ErrCode (Header r))))"

definition serverQuantum :: "'s env \<Rightarrow> 's session \<Rightarrow> 32 word" where
  "serverQuantum E s = conn_quantum E (sconn s)"

definition versionPreference :: "string list" where
  "versionPreference = [''AFP3.4'', ''AFP3.3'', ''AFP3.2'', ''AFP3.1'']"

definition pickVersion :: "string list \<Rightarrow> string res" where
  "pickVersion offered =
     (case find (\<lambda>v. v \<in> set offered) versionPreference of
        Some v \<Rightarrow> Ok v
      | None \<Rightarrow> Err (Errorf ''afp: no supported AFP version (server offers %v; AFP 3.1+ required)''
                  [AStrs offered]))"

definition login :: "'s env \<Rightarrow> string \<Rightarrow> bytes \<Rightarrow> ('s session, bytes \<times> result) io" where
  "login E uam authinfo = (\<lambda>s.
     let w = builder_u8 [] cmdLogin;
         w = builder_pascal w (Version s);
         w = builder_pascal w uam;
         w = builder_bytes w authinfo
     in command E w s)"

definition loginCont :: "'s env \<Rightarrow> 16 word \<Rightarrow> bytes \<Rightarrow> ('s session, bytes \<times> result) io" where
  "loginCont E uid authinfo =
     (let w = builder_u8 [] cmdLoginCont;
          w = builder_u8 w 0;
          w = builder_u16 w uid;
          w = builder_bytes w authinfo
      in command E w)"

text \<open>A command whose reply only carries a result: the tail of many operations.\<close>

definition simple_command :: "'s env \<Rightarrow> string \<Rightarrow> bytes \<Rightarrow> ('s session, unit) io" where
  "simple_command E op w = io_bind (command E w) (\<lambda>(_, code). io_res (of_err (resultErr op code)))"

definition Logout :: "'s env \<Rightarrow> ('s session, unit) io" where
  "Logout E = simple_command E ''logout'' [cmdLogout, 0]"

subsection \<open>Volumes\<close>

record VolumeInfo =
  viName :: string
  viHasPassword :: bool

primrec volume_entries :: "nat \<Rightarrow> reader \<Rightarrow> VolumeInfo list \<Rightarrow> VolumeInfo list res" where
  "volume_entries 0 r vols = Ok vols"
| "volume_entries (Suc n) r vols =
     (let (flags, r) = reader_u8 ''volume flags'' r;
          (name, r) = reader_pascal ''volume name'' r in
      case rerr r of
        Some e \<Rightarrow> Err e
      | None \<Rightarrow> volume_entries n r
                  (vols @ [\<lparr>viName = name, viHasPassword = (flags AND 0x80 \<noteq> 0)\<rparr>]))"

text \<open>
  \<^verbatim>\<open>sort.Slice\<close> leaves the order of equal names open; \<open>sort_key\<close> picks the stable one.
\<close>

definition ListVolumes :: "'s env \<Rightarrow> ('s session, VolumeInfo list) io" where
  "ListVolumes E =
     io_bind (command E [cmdGetSrvrParms, 0]) (\<lambda>(payload, code).
     io_bind (io_res (of_err (resultErr ''list volumes'' code))) (\<lambda>_.
       let r = new_reader payload;
           (_, r) = reader_u32 ''server time'' r;
           (n, r) = reader_u8 ''volume count'' r
       in io_res (res_bind (volume_entries (unat n) r []) (\<lambda>vols. Ok (sort_key viName vols)))))"

definition kFPVolAttributeBit :: "16 word" where "kFPVolAttributeBit = 0x0001"
definition kFPVolIDBit :: "16 word" where "kFPVolIDBit = 0x0020"
definition kFPVolExtBytesFreeBit :: "16 word" where "kFPVolExtBytesFreeBit = 0x0200"
definition kFPVolExtBytesTotalBit :: "16 word" where "kFPVolExtBytesTotalBit = 0x0400"
definition kFPVolBlockSizeBit :: "16 word" where "kFPVolBlockSizeBit = 0x0800"

definition volAttrReadOnly :: "16 word" where "volAttrReadOnly = 0x01"
definition volAttrSupportsUnix :: "16 word" where "volAttrSupportsUnix = 0x20"
definition volAttrSupportsUTF8 :: "16 word" where "volAttrSupportsUTF8 = 0x40"

lemmas vol_bit_defs =
  kFPVolAttributeBit_def kFPVolIDBit_def kFPVolExtBytesFreeBit_def kFPVolExtBytesTotalBit_def
  kFPVolBlockSizeBit_def volAttrReadOnly_def volAttrSupportsUnix_def volAttrSupportsUTF8_def

text \<open>The back pointer \<^verbatim>\<open>s\<close> of a volume is the state its methods run on.\<close>

record Volume =
  vID :: "16 word"
  vName :: string
  vAttributes :: "16 word"

definition SupportsUnixPrivs :: "Volume \<Rightarrow> bool" where
  "SupportsUnixPrivs v \<longleftrightarrow> vAttributes v AND volAttrSupportsUnix \<noteq> 0"

definition open_volume_reply :: "string \<Rightarrow> bytes \<Rightarrow> Volume res" where
  "open_volume_reply name payload =
     (let r = new_reader payload;
          (bitmap, r) = reader_u16 ''volume bitmap'' r;
          vol = \<lparr>vID = 0, vName = name, vAttributes = 0\<rparr>;
          (vol, r) = (if bitmap AND kFPVolAttributeBit \<noteq> 0
                      then let (a, r) = reader_u16 ''volume attributes'' r in (vol\<lparr>vAttributes := a\<rparr>, r)
                      else (vol, r));
          (vol, r) = (if bitmap AND kFPVolIDBit \<noteq> 0
                      then let (i, r) = reader_u16 ''volume id'' r in (vol\<lparr>vID := i\<rparr>, r)
                      else (vol, r))
      in case rerr r of Some e \<Rightarrow> Err e | None \<Rightarrow> Ok vol)"

definition OpenVolume :: "'s env \<Rightarrow> string \<Rightarrow> ('s session, Volume) io" where
  "OpenVolume E name =
     (let w = builder_u8 [] cmdOpenVol;
          w = builder_u8 w 0;
          w = builder_u16 w (kFPVolAttributeBit OR kFPVolIDBit);
          w = builder_pascal w name in
      io_bind (command E w) (\<lambda>(payload, code).
      io_bind (io_res (of_err (resultErr (''open volume '' @ name) code))) (\<lambda>_.
        io_res (open_volume_reply name payload))))"

definition Volume_Close :: "'s env \<Rightarrow> Volume \<Rightarrow> ('s session, unit) io" where
  "Volume_Close E v =
     (let w = builder_u8 [] cmdCloseVol;
          w = builder_u8 w 0;
          w = builder_u16 w (vID v)
      in simple_command E ''close volume'' w)"

definition entryBitmaps :: "Volume \<Rightarrow> 16 word \<times> 16 word" where
  "entryBitmaps v =
     (let fileBitmap = kFPParentDirIDBit OR kFPCreateDateBit OR kFPModDateBit OR
            kFPNodeIDBit OR kFPUTF8NameBit OR kFPExtDataForkLenBit OR kFPFinderInfoBit;
          dirBitmap = kFPParentDirIDBit OR kFPCreateDateBit OR kFPModDateBit OR
            kFPNodeIDBit OR kFPUTF8NameBit OR kFPOffspringCountBit
      in if SupportsUnixPrivs v
         then (fileBitmap OR kFPUnixPrivsBit, dirBitmap OR kFPUnixPrivsBit)
         else (fileBitmap, dirBitmap))"

subsection \<open>Enumeration\<close>

definition enumerateBatch :: "16 word" where "enumerateBatch = 512"
definition enumerateReplySize :: "32 word" where "enumerateReplySize = 256 * 1024"

primrec enum_entries ::
    "(string \<Rightarrow> string) \<Rightarrow> 16 word \<Rightarrow> 16 word \<Rightarrow> nat \<Rightarrow> int \<Rightarrow> reader \<Rightarrow> DirEntry list \<Rightarrow>
     DirEntry list res" where
  "enum_entries nfc fileBitmap dirBitmap 0 i r entries = Ok entries"
| "enum_entries nfc fileBitmap dirBitmap (Suc n) i r entries =
     (let (len, r) = reader_u16 ''entry length'' r;
          (isdir, r) = reader_u8 ''entry isdir'' r;
          isDir = (isdir \<noteq> 0);
          (pad, r) = reader_u8 ''entry pad'' r in
      case rerr r of
        Some e \<Rightarrow> Err e
      | None \<Rightarrow>
          if unat len < 4
          then Err (Errorf ''afp: enumerate entry %d has bogus length %d''
                      [AInt i, AInt (int (unat len))])
          else
            let (block, r) = reader_take (unat len - 4) ''entry parameters'' r in
            case rerr r of
              Some e \<Rightarrow> Err e
            | None \<Rightarrow>
                (case parseEntryParams nfc (or_nil block) isDir (if isDir then dirBitmap else fileBitmap) of
                   Err e \<Rightarrow> Err (Errorf ''afp: enumerate entry %d: %w'' [AInt i, AErr e])
                 | Panic \<Rightarrow> Panic
                 | Ok e \<Rightarrow> enum_entries nfc fileBitmap dirBitmap n (i + 1) r (entries @ [e])))"

definition parseEnumerateReply :: "(string \<Rightarrow> string) \<Rightarrow> bytes \<Rightarrow> DirEntry list res" where
  "parseEnumerateReply nfc payload =
     (let r = new_reader payload;
          (fileBitmap, r) = reader_u16 ''file bitmap'' r;
          (dirBitmap, r) = reader_u16 ''dir bitmap'' r;
          (count, r) = reader_u16 ''entry count'' r in
      case rerr r of
        Some e \<Rightarrow> Err e
      | None \<Rightarrow> enum_entries nfc fileBitmap dirBitmap (unat count) 0 r [])"

definition enum_request :: "'s env \<Rightarrow> Volume \<Rightarrow> 32 word \<Rightarrow> string \<Rightarrow> 32 word \<Rightarrow> bytes" where
  "enum_request E v dirID path start =
     (let (fileBitmap, dirBitmap) = entryBitmaps v;
          w = builder_u8 [] cmdEnumerateExt2;
          w = builder_u8 w 0;
          w = builder_u16 w (vID v);
          w = builder_u32 w dirID;
          w = builder_u16 w fileBitmap;
          w = builder_u16 w dirBitmap;
          w = builder_u16 w enumerateBatch;
          w = builder_u32 w start;
          w = builder_u32 w enumerateReplySize
      in builder_path (norm_nfd E) w path)"

text \<open>The loop ends only when the server says so, so it may not return.\<close>

partial_function (option) readDir_loop ::
    "'s env \<Rightarrow> Volume \<Rightarrow> 32 word \<Rightarrow> string \<Rightarrow> 32 word \<Rightarrow> DirEntry list \<Rightarrow>
     's session \<Rightarrow> (DirEntry list res \<times> 's session) option" where
  "readDir_loop E v dirID path start entries s =
     (case command E (enum_request E v dirID path start) s of
        None \<Rightarrow> None
      | Some (Panic, s') \<Rightarrow> Some (Panic, s')
      | Some (Err e, s') \<Rightarrow> Some (Err e, s')
      | Some (Ok (payload, code), s') \<Rightarrow>
          if code = ResObjectNotFound then Some (Ok entries, s')
          else (case resultErr (''enumerate '' @ path) code of
                  Some e \<Rightarrow> Some (Err e, s')
                | None \<Rightarrow>
                    (case parseEnumerateReply (norm_nfc E) payload of
                       Panic \<Rightarrow> Some (Panic, s')
                     | Err e \<Rightarrow> Some (Err e, s')
                     | Ok new \<Rightarrow>
                         if length new = 0 then Some (Ok entries, s')
                         else readDir_loop E v dirID path (start + word_of_nat (length new))
                                (entries @ new) s')))"

definition ReadDir :: "'s env \<Rightarrow> Volume \<Rightarrow> 32 word \<Rightarrow> string \<Rightarrow> ('s session, DirEntry list) io" where
  "ReadDir E v dirID path = readDir_loop E v dirID path 1 []"

subsection \<open>Stat\<close>

definition stat_request :: "'s env \<Rightarrow> Volume \<Rightarrow> 32 word \<Rightarrow> string \<Rightarrow> bytes" where
  "stat_request E v dirID path =
     (let (fileBitmap, dirBitmap) = entryBitmaps v;
          w = builder_u8 [] cmdGetFileDirParms;
          w = builder_u8 w 0;
          w = builder_u16 w (vID v);
          w = builder_u32 w dirID;
          w = builder_u16 w fileBitmap;
          w = builder_u16 w dirBitmap
      in builder_path (norm_nfd E) w path)"

definition stat_reply :: "(string \<Rightarrow> string) \<Rightarrow> bytes \<Rightarrow> DirEntry res" where
  "stat_reply nfc payload =
     (let r = new_reader payload;
          (replyFileBitmap, r) = reader_u16 ''file bitmap'' r;
          (replyDirBitmap, r) = reader_u16 ''dir bitmap'' r;
          (isdir, r) = reader_u8 ''isdir'' r;
          isDir = (isdir \<noteq> 0);
          (pad, r) = reader_u8 ''pad'' r in
      case rerr r of
        Some e \<Rightarrow> Err e
      | None \<Rightarrow>
          res_bind (go_slice payload (int (rpos r)) (int (length payload))) (\<lambda>block.
            parseEntryParams nfc block isDir (if isDir then replyDirBitmap else replyFileBitmap)))"

definition Stat :: "'s env \<Rightarrow> Volume \<Rightarrow> 32 word \<Rightarrow> string \<Rightarrow> ('s session, DirEntry) io" where
  "Stat E v dirID path =
     io_bind (command E (stat_request E v dirID path)) (\<lambda>(payload, code).
     io_bind (io_res (of_err (resultErr (''stat '' @ path) code))) (\<lambda>_.
       io_res (stat_reply (norm_nfc E) payload)))"

section \<open>No reply makes a parser panic\<close>

lemma volume_entries_not_Panic: "volume_entries n r vols \<noteq> Panic"
  by (induction n arbitrary: r vols) (auto simp: Let_def case_prod_beta split: option.splits)

lemma open_volume_reply_not_Panic: "open_volume_reply name payload \<noteq> Panic"
  by (auto simp: open_volume_reply_def Let_def case_prod_beta split: option.splits)

lemma enum_entries_not_Panic: "enum_entries nfc fb db n i r es \<noteq> Panic"
proof (induction n arbitrary: i r es)
  case (Suc n)
  show ?case
    by (auto simp: Let_def case_prod_beta Suc.IH parseEntryParams_not_Panic
        split: option.splits res.splits)
qed simp

lemma parseEnumerateReply_not_Panic: "parseEnumerateReply nfc payload \<noteq> Panic"
  by (auto simp: parseEnumerateReply_def Let_def case_prod_beta enum_entries_not_Panic
      split: option.splits)

lemma reader_num_ok:
  assumes "reader_ok r"
  shows "reader_ok (snd (reader_u8 what r))" "rb (snd (reader_u8 what r)) = rb r"
    "reader_ok (snd (reader_u16 what r))" "rb (snd (reader_u16 what r)) = rb r"
    "reader_ok (snd (reader_u32 what r))" "rb (snd (reader_u32 what r)) = rb r"
  using assms f8.get_bounds f16.get_bounds f32.get_bounds by blast+

lemma new_reader_ok [simp]: "reader_ok (new_reader b)" "rb (new_reader b) = b"
  by (simp_all add: new_reader_def reader_ok_def)

lemma stat_reply_not_Panic: "stat_reply nfc payload \<noteq> Panic"
proof -
  define r4 where "r4 = snd (reader_u8 ''pad'' (snd (reader_u8 ''isdir''
    (snd (reader_u16 ''dir bitmap'' (snd (reader_u16 ''file bitmap'' (new_reader payload))))))))"
  have "reader_ok r4 \<and> rb r4 = payload"
    unfolding r4_def by (simp only: reader_num_ok new_reader_ok)
  then have "go_slice payload (int (rpos r4)) (int (length payload)) \<noteq> Panic"
    by (auto simp: reader_ok_def)
  then show ?thesis
    by (simp add: stat_reply_def Let_def case_prod_beta res_bind_Panic_iff r4_def [symmetric]
        parseEntryParams_not_Panic split: option.split del: reader_num_snd)
qed

section \<open>The operations over any sound transport\<close>

lemma on_sconn_safe:
  "io_safe P m \<Longrightarrow> io_safe (\<lambda>s. P (sconn s)) (on_sconn m)"
  by (fastforce simp: io_safe_def on_sconn_def split: option.splits)

locale afp_layer = transport "conn_request E" inv
  for E :: "'s env" and inv :: "'s \<Rightarrow> bool"
begin

abbreviation sound :: "'s session \<Rightarrow> bool" where
  "sound s \<equiv> inv (sconn s)"

lemma request_safe: "io_safe inv (conn_request E cmd off p)"
  using rq_returns by (auto simp: io_safe_def)

lemma command_safe [intro!]: "io_safe sound (command E p)"
  unfolding command_def by (intro io_safe_bind on_sconn_safe request_safe io_safe_ret)

lemma commandWrite_safe [intro!]: "io_safe sound (commandWrite E off p)"
  unfolding commandWrite_def by (intro io_safe_bind on_sconn_safe request_safe io_safe_ret)

lemma simple_command_safe [intro!]: "io_safe sound (simple_command E op w)"
  unfolding simple_command_def by (auto simp: case_prod_beta)

lemma login_safe [intro!]: "io_safe sound (login E uam a)"
  using command_safe by (auto simp: login_def io_safe_def Let_def)

lemma loginCont_safe [intro!]: "io_safe sound (loginCont E i a)"
  by (auto simp: loginCont_def Let_def)

lemma session_ops_safe:
  "io_safe sound (Logout E)" "io_safe sound (ListVolumes E)" "io_safe sound (OpenVolume E name)"
  "io_safe sound (Volume_Close E v)" "io_safe sound (Stat E v dirID path)"
  unfolding Logout_def ListVolumes_def OpenVolume_def Volume_Close_def Stat_def Let_def
  by (rule simple_command_safe
      | intro io_safe_bind io_safe_prod io_safe_res command_safe
      | simp add: res_bind_Panic_iff volume_entries_not_Panic open_volume_reply_not_Panic
          stat_reply_not_Panic case_prod_beta)+

end

interpretation afp: afp_layer "dsi_env N nfd nfc order" dsi_ok for N nfd nfc order
  unfolding afp_layer_def dsi_env_def by (simp add: dsi.transport_axioms)

section \<open>A server as a function\<close>

text \<open>
  An environment whose server answers each request by a function of its own state: the concrete
  instances on which the properties below are evaluated.
\<close>

definition serve_env :: "32 word \<Rightarrow> (8 word \<Rightarrow> 32 word \<Rightarrow> bytes \<Rightarrow> 's \<Rightarrow> (bytes \<times> 32 word) \<times> 's) \<Rightarrow> 's env" where
  "serve_env q f = \<lparr>conn_request = (\<lambda>cmd off p s. case f cmd off p s of ((b, code), s') \<Rightarrow>
       Some (Ok \<lparr>Header = zero_header\<lparr>ErrCode := code\<rparr>, Payload = b\<rparr>, s')),
     conn_quantum = (\<lambda>_. q), norm_nfd = (\<lambda>x. x), norm_nfc = (\<lambda>x. x),
     group_order = (\<lambda>_ n. rev [0..<n])\<rparr>"

lemma serve_env_command [simp]:
  "command (serve_env q f) p s = (case f CmdCommand 0 p (sconn s) of ((b, code), c) \<Rightarrow>
     Some (Ok (b, result_of_code code), s\<lparr>sconn := c\<rparr>))"
  "commandWrite (serve_env q f) off p s = (case f CmdWrite off p (sconn s) of ((b, code), c) \<Rightarrow>
     Some (Ok (b, result_of_code code), s\<lparr>sconn := c\<rparr>))"
  by (simp_all add: command_def commandWrite_def serve_env_def on_sconn_def io_defs split: prod.splits)

lemma serve_env_sel [simp]:
  "norm_nfd (serve_env q f) = (\<lambda>x. x)" "norm_nfc (serve_env q f) = (\<lambda>x. x)"
  "serverQuantum (serve_env q f) s = q" "group_order (serve_env q f) c n = rev [0..<n]"
  by (simp_all add: serve_env_def serverQuantum_def)

section \<open>The volume list\<close>

interpretation vol_entry: two_fields
    "reader_u8 ''volume flags''" "\<lambda>b. [b]" "\<lambda>_. True"
    "reader_pascal ''volume name''" put_pascal "\<lambda>s. length s < 256"
  by unfold_locales

definition put_volume :: "8 word \<times> string \<Rightarrow> bytes" where
  "put_volume v = [fst v] @ put_pascal (snd v)"

definition put_volumes :: "32 word \<Rightarrow> (8 word \<times> string) list \<Rightarrow> bytes" where
  "put_volumes time vs = put32 time @ [word_of_nat (length vs)] @ concat (map put_volume vs)"

definition volume_info :: "8 word \<times> string \<Rightarrow> VolumeInfo" where
  "volume_info v = \<lparr>viName = snd v, viHasPassword = (fst v AND 0x80 \<noteq> 0)\<rparr>"

lemma volume_entries_Suc:
  "volume_entries (Suc n) r vols =
     (case reader_pair (reader_u8 ''volume flags'') (reader_pascal ''volume name'') r of
        ((flags, name), r) \<Rightarrow>
          (case rerr r of Some e \<Rightarrow> Err e
           | None \<Rightarrow> volume_entries n r (vols @ [volume_info (flags, name)])))"
  by (simp add: reader_pair_def Let_def case_prod_beta volume_info_def split: option.split)

lemma volume_entries_put:
  assumes "\<forall>v \<in> set vs. length (snd v) < 256"
  shows "volume_entries (length vs) (rd pre (concat (map put_volume vs) @ rest)) acc =
           Ok (acc @ map volume_info vs)"
  using assms
proof (induction vs arbitrary: pre acc)
  case (Cons v vs)
  have "reader_pair (reader_u8 ''volume flags'') (reader_pascal ''volume name'')
      (rd pre (put_volume v @ concat (map put_volume vs) @ rest)) =
      (v, rd (pre @ put_volume v) (concat (map put_volume vs) @ rest))"
    using vol_entry.pair.get_put [of v pre] Cons.prems by (cases v) (simp add: put_volume_def)
  with Cons show ?case
    unfolding length_Cons volume_entries_Suc by (cases v) simp
qed simp

lemma ListVolumes_reply:
  assumes "command E [cmdGetSrvrParms, 0] s = Some (Ok (put_volumes time vs, 0), s')"
    and "length vs < 256" and "\<forall>v \<in> set vs. length (snd v) < 256"
  shows "ListVolumes E s = Some (Ok (sort_key viName (map volume_info vs)), s')"
proof -
  have "unat (word_of_nat (length vs) :: 8 word) = length vs"
    using assms(2) by (simp add: unat_of_nat)
  moreover have "reader_u8 ''volume count'' (rd (put32 time)
      (word_of_nat (length vs) # concat (map put_volume vs))) =
      (word_of_nat (length vs), rd (put32 time @ [word_of_nat (length vs)]) (concat (map put_volume vs)))"
    using f8.get_put [where x = "word_of_nat (length vs)" and rest = "concat (map put_volume vs)"]
    by simp
  ultimately show ?thesis
    using volume_entries_put [OF assms(3), of _ "[]"] f32.get_new [where x = time]
    by (simp add: ListVolumes_def put_volumes_def assms(1) io_res_def Let_def
        del: field_get)
qed

text \<open>
  (C27) The volume list a server encodes in an \<^verbatim>\<open>FPGetSrvrParms\<close> reply (up to 255 volumes) comes
  back complete: the result holds exactly the encoded volumes, each with its name and the password
  bit of its flags, in ascending byte order of the names.
\<close>
theorem ListVolumes_complete:
  assumes "command E [cmdGetSrvrParms, 0] s = Some (Ok (put_volumes time vs, 0), s')"
    and "length vs < 256" and "\<forall>v \<in> set vs. length (snd v) < 256"
  shows "\<exists>vols. ListVolumes E s = Some (Ok vols, s') \<and> sorted (map viName vols)
           \<and> mset vols = mset (map (\<lambda>(flags, name). \<lparr>viName = name, viHasPassword = bit flags 7\<rparr>) vs)"
proof -
  have "flags AND 0x80 \<noteq> 0 \<longleftrightarrow> bit flags 7" for flags :: "8 word"
    using and_exp_eq_0_iff_not_bit [of flags 7] by simp
  then have "volume_info = (\<lambda>(flags, name). \<lparr>viName = name, viHasPassword = bit flags 7\<rparr>)"
    by (auto simp: volume_info_def fun_eq_iff)
  with ListVolumes_reply [OF assms] show ?thesis
    by (intro exI [of _ "sort_key viName (map volume_info vs)"]) simp
qed

theorem ListVolumes_complete_witness:
  "\<exists>vols. ListVolumes (serve_env 0 (\<lambda>_ _ _ c. ((put_volumes 0 [(0x80, ''b''), (0, ''a'')], 0), c)))
       (NewSession ()) = Some (Ok vols, NewSession ())
     \<and> mset vols = {#\<lparr>viName = ''b'', viHasPassword = True\<rparr>, \<lparr>viName = ''a'', viHasPassword = False\<rparr>#}"
  using ListVolumes_complete [of "serve_env 0 (\<lambda>_ _ _ c. ((put_volumes 0 [(0x80, ''b''), (0, ''a'')], 0), c))"
      "NewSession ()" 0 "[(0x80, ''b''), (0, ''a'')]" "NewSession ()"]
  by (auto simp: NewSession_def result_of_code_def bit_numeral_word_iff)

section \<open>Enumeration\<close>

text \<open>The reply a server builds for a list of objects: each entry padded to even length.\<close>

definition dirent_block :: "16 word \<Rightarrow> 16 word \<Rightarrow> bool \<times> params \<Rightarrow> bytes" where
  "dirent_block fb db ob = (case ob of (d, p) \<Rightarrow> builder_evenPad (put_params (if d then db else fb) d p))"

definition put_dirent :: "16 word \<Rightarrow> 16 word \<Rightarrow> bool \<times> params \<Rightarrow> bytes" where
  "put_dirent fb db ob =
     put16 (word_of_nat (length (dirent_block fb db ob) + 4)) @ [if fst ob then 1 else 0] @ [0] @
     dirent_block fb db ob"

definition put_enum :: "16 word \<Rightarrow> 16 word \<Rightarrow> (bool \<times> params) list \<Rightarrow> bytes" where
  "put_enum fb db obs =
     put16 fb @ put16 db @ put16 (word_of_nat (length obs)) @ concat (map (put_dirent fb db) obs)"

definition dirent_ok :: "16 word \<Rightarrow> 16 word \<Rightarrow> bool \<times> params \<Rightarrow> bool" where
  "dirent_ok fb db ob \<longleftrightarrow> params_ok (if fst ob then db else fb) (fst ob) (snd ob)
     \<and> length (dirent_block fb db ob) + 4 < 65536"

definition dirent_entry :: "(string \<Rightarrow> string) \<Rightarrow> 16 word \<Rightarrow> 16 word \<Rightarrow> bool \<times> params \<Rightarrow> DirEntry" where
  "dirent_entry nfc fb db ob = entry_of nfc (if fst ob then db else fb) (fst ob) (snd ob)"

lemma parse_dirent_block:
  assumes "dirent_ok fb db ob"
  shows "parseEntryParams nfc (dirent_block fb db ob) (fst ob) (if fst ob then db else fb) =
           Ok (dirent_entry nfc fb db ob)"
  using assms parseEntryParams_put_params [of "if fst ob then db else fb" "fst ob" "snd ob" nfc "[]"]
    parseEntryParams_put_params [of "if fst ob then db else fb" "fst ob" "snd ob" nfc "[0]"]
  by (auto simp: dirent_ok_def dirent_block_def dirent_entry_def builder_evenPad_def builder_u8_def
      case_prod_beta)

lemma reader_u8_rd [simp]: "reader_u8 what (rd pre (b # rest)) = (b, rd (pre @ [b]) rest)"
  using f8.get_put [where x = b and rest = rest] by simp

lemma enum_entries_put:
  assumes "\<forall>ob \<in> set obs. dirent_ok fb db ob"
  shows "enum_entries nfc fb db (length obs) i (rd pre (concat (map (put_dirent fb db) obs) @ rest)) acc =
           Ok (acc @ map (dirent_entry nfc fb db) obs)"
  using assms
proof (induction obs arbitrary: i pre acc)
  case (Cons ob obs)
  let ?B = "dirent_block fb db ob"
  have len: "unat (word_of_nat (length ?B + 4) :: 16 word) = length ?B + 4"
    using Cons.prems by (intro unat_off16) (simp add: dirent_ok_def)
  have "parseEntryParams nfc ?B (fst ob) (if fst ob then db else fb) = Ok (dirent_entry nfc fb db ob)"
    using Cons.prems by (intro parse_dirent_block) simp
  with Cons.IH Cons.prems show ?case
    by (cases "fst ob") (simp_all add: put_dirent_def len or_nil_def Let_def del: of_nat_add)
qed simp

lemma parseEnumerateReply_put:
  assumes "\<forall>ob \<in> set obs. dirent_ok fb db ob" and "length obs < 65536"
  shows "parseEnumerateReply nfc (put_enum fb db obs) = Ok (map (dirent_entry nfc fb db) obs)"
  using enum_entries_put [OF assms(1), of nfc 0 _ "[]" "[]"] unat_off16 [OF assms(2)]
  by (simp add: parseEnumerateReply_def put_enum_def new_reader_rd Let_def)

text \<open>
  What the client relies on of a server that lists the objects \<open>obs\<close>: asked for the entries from
  position \<open>k + 1\<close> on it answers with some of them, as many as it likes but at least one, and past
  the last one with \<^verbatim>\<open>kFPObjectNotFound\<close>; \<open>S\<close> is kept by the exchange.
\<close>

definition lists_dir ::
    "'s env \<Rightarrow> Volume \<Rightarrow> 32 word \<Rightarrow> string \<Rightarrow> (bool \<times> params) list \<Rightarrow> ('s session \<Rightarrow> bool) \<Rightarrow> bool" where
  "lists_dir E v dirID path obs S \<longleftrightarrow>
     (\<forall>s k. S s \<longrightarrow> k \<le> length obs \<longrightarrow> (\<exists>n s'. S s' \<and> 0 < n \<and> n < 65536 \<and>
        command E (enum_request E v dirID path (word_of_nat (k + 1))) s =
          Some (Ok (if k < length obs
                    then (put_enum (fst (entryBitmaps v)) (snd (entryBitmaps v)) (take n (drop k obs)), 0)
                    else ([], ResObjectNotFound)), s')))"

lemma readDir_loop_lists:
  assumes "lists_dir E v dirID path obs S"
    and "\<forall>ob \<in> set obs. dirent_ok (fst (entryBitmaps v)) (snd (entryBitmaps v)) ob"
    and "S s" and "k \<le> length obs"
  shows "\<exists>s'. S s' \<and> readDir_loop E v dirID path (word_of_nat (k + 1)) es s =
     Some (Ok (es @ map (dirent_entry (norm_nfc E) (fst (entryBitmaps v)) (snd (entryBitmaps v)))
                 (drop k obs)), s')"
  using assms(3,4)
proof (induction "length obs - k" arbitrary: k es s rule: less_induct)
  case less
  let ?fb = "fst (entryBitmaps v)" and ?db = "snd (entryBitmaps v)"
  let ?es = "\<lambda>xs. map (dirent_entry (norm_nfc E) ?fb ?db) xs"
  obtain n s' where s': "S s'" "0 < n" "n < 65536" and c:
    "command E (enum_request E v dirID path (word_of_nat (k + 1))) s =
       Some (Ok (if k < length obs then (put_enum ?fb ?db (take n (drop k obs)), 0)
                 else ([], ResObjectNotFound)), s')"
    using assms(1) less.prems unfolding lists_dir_def by blast
  show ?case
  proof (cases "k < length obs")
    case False
    with c s' less.prems show ?thesis by (subst readDir_loop.simps) simp
  next
    case True
    let ?new = "take n (drop k obs)"
    have "\<forall>ob \<in> set ?new. dirent_ok ?fb ?db ob"
      using assms(2) by (meson in_set_dropD in_set_takeD)
    then have p: "parseEnumerateReply (norm_nfc E) (put_enum ?fb ?db ?new) = Ok (?es ?new)"
      using s'(3) by (intro parseEnumerateReply_put) simp_all
    let ?k = "k + length ?new"
    define m where "m = min (length obs - k) n"
    have ne: "m \<noteq> 0" and m: "length ?new = m" using True s'(2) by (simp_all add: m_def)
    have step: "readDir_loop E v dirID path (word_of_nat (k + 1)) es s =
        readDir_loop E v dirID path (word_of_nat (?k + 1)) (es @ ?es ?new) s'"
      using True c p ne
      by (subst readDir_loop.simps) (simp add: ResObjectNotFound_def algebra_simps m del: length_take)
    have "length obs - ?k < length obs - k" "?k \<le> length obs"
      using True s'(2) by auto
    from less.hyps [OF this(1) s'(1) this(2), of "es @ ?es ?new"] obtain s'' where
      "S s''" "readDir_loop E v dirID path (word_of_nat (?k + 1)) (es @ ?es ?new) s' =
        Some (Ok ((es @ ?es ?new) @ ?es (drop ?k obs)), s'')" by blast
    moreover have "?es ?new @ ?es (drop ?k obs) = ?es (drop k obs)"
    proof -
      have "?new @ drop ?k obs = drop k obs"
        using True by (simp add: min_def take_drop_glue)
      then show ?thesis by (metis map_append)
    qed
    ultimately show ?thesis using step by auto
  qed
qed

text \<open>
  (C6) \<^verbatim>\<open>ReadDir\<close> returns, and returns the whole directory: against a server that lists \<open>obs\<close>, in
  batches of whatever sizes it chooses, the result is the decoded objects, each once and in the
  server's order, and no object is skipped or repeated at a batch boundary.
\<close>
theorem ReadDir_complete:
  assumes "lists_dir E v dirID path obs S"
    and "\<forall>ob \<in> set obs. dirent_ok (fst (entryBitmaps v)) (snd (entryBitmaps v)) ob"
    and "S s"
  shows "\<exists>s'. ReadDir E v dirID path s =
     Some (Ok (map (dirent_entry (norm_nfc E) (fst (entryBitmaps v)) (snd (entryBitmaps v))) obs), s')"
  using readDir_loop_lists [OF assms, of 0 "[]"] by (auto simp: ReadDir_def)

definition sample_volume :: Volume where
  "sample_volume = \<lparr>vID = 1, vName = ''v'', vAttributes = 0x20\<rparr>"

definition sample_lister :: "unit env" where
  "sample_lister = serve_env 0 (\<lambda>_ _ p c.
     let k = get32 (take 4 (drop 14 p)); (fb, db) = entryBitmaps sample_volume in
     (if k = 1 then (put_enum fb db [(True, sample_params)], 0)
      else if k = 2 then (put_enum fb db [(False, sample_params)], 0)
      else ([], word_of_int ResObjectNotFound), c))"

lemma enum_request_start: "take 4 (drop 14 (enum_request E v dirID path start)) = put32 start"
  by (simp add: enum_request_def builder_defs builder_path_def Let_def case_prod_beta)

lemma sample_bitmaps: "entryBitmaps sample_volume = (0xA92E, 0xA30E)"
  by (simp add: entryBitmaps_def SupportsUnixPrivs_def sample_volume_def kFP_defs vol_bit_defs)

lemma sample_dirents: "dirent_ok 0xA92E 0xA30E (d, sample_params)"
  by (cases d) (simp_all add: dirent_ok_def dirent_block_def builder_evenPad_def builder_u8_def
      put_params_def params_ok_def utf8_off_def fixed_len_eq put_pascal_def put_pascal2_def
      fixed_len_def put_fixed_def put_head_def put_ids_def put_dir_def put_file_def put_privs_def
      has_bit_def kFP_defs sample_params_def)

lemma sample_lister_lists:
  "lists_dir sample_lister sample_volume 2 [] [(True, sample_params), (False, sample_params)] (\<lambda>_. True)"
  unfolding lists_dir_def
proof (intro allI impI)
  fix s :: "unit session" and k assume "k \<le> length [(True, sample_params), (False, sample_params)]"
  then consider "k = 0" | "k = 1" | "k = 2" by fastforce
  then show "\<exists>n s'. True \<and> 0 < n \<and> n < 65536 \<and>
      command sample_lister (enum_request sample_lister sample_volume 2 [] (word_of_nat (k + 1))) s =
      Some (Ok (if k < length [(True, sample_params), (False, sample_params)]
        then (put_enum (fst (entryBitmaps sample_volume)) (snd (entryBitmaps sample_volume))
          (take n (drop k [(True, sample_params), (False, sample_params)])), 0)
        else ([], ResObjectNotFound)), s')"
    by cases (rule exI [of _ 1],
      simp add: sample_lister_def enum_request_start case_prod_beta Let_def result_of_code_def res_defs)+
qed

theorem ReadDir_complete_witness:
  "\<exists>s'. ReadDir sample_lister sample_volume 2 [] (NewSession ()) =
     Some (Ok (map (dirent_entry (\<lambda>x. x) 0xA92E 0xA30E) [(True, sample_params), (False, sample_params)]), s')"
  using ReadDir_complete [OF sample_lister_lists] sample_dirents
  by (simp add: sample_bitmaps sample_lister_def)

section \<open>Stat\<close>

definition put_stat :: "16 word \<Rightarrow> 16 word \<Rightarrow> bool \<times> params \<Rightarrow> bytes" where
  "put_stat fb db ob =
     put16 fb @ put16 db @ [if fst ob then 0x80 else 0, 0] @
     put_params (if fst ob then db else fb) (fst ob) (snd ob)"

lemma stat_reply_put:
  assumes "params_ok (if fst ob then db else fb) (fst ob) (snd ob)"
  shows "stat_reply nfc (put_stat fb db ob) = Ok (dirent_entry nfc fb db ob)"
  using parseEntryParams_put_params [OF assms, of nfc "[]"]
  by (cases "fst ob") (simp_all add: stat_reply_def put_stat_def new_reader_rd Let_def dirent_entry_def)

lemma Stat_reply:
  assumes "command E (stat_request E v dirID path) s = Some (Ok (put_stat fb db ob, 0), s')"
    and "params_ok (if fst ob then db else fb) (fst ob) (snd ob)"
  shows "Stat E v dirID path s = Some (Ok (dirent_entry (norm_nfc E) fb db ob), s')"
  using assms by (simp add: Stat_def stat_reply_put io_res_def)

text \<open>
  \<^verbatim>\<open>Stat\<close> decodes the reply by the bitmaps the server put in it: for every pair of bitmaps
  and both kinds of object, the entry is the one of the object, and any other result code is
  returned as the error of that code.
\<close>
theorem Stat_correct:
  assumes "command E (stat_request E v dirID path) s = Some (Ok (reply, code), s')"
    and "params_ok (if d then db else fb) d p"
    and "code = 0 \<longrightarrow> reply = put_stat fb db (d, p)"
  shows "Stat E v dirID path s = Some (if code = 0 then Ok (entry_of (norm_nfc E) (if d then db else fb) d p)
     else Err (AfpError (''stat '' @ path) code), s')"
proof (cases "code = 0")
  case True
  with assms Stat_reply [of E v dirID path s fb db "(d, p)" s'] show ?thesis
    by (simp add: dirent_entry_def)
next
  case False
  with assms(1) show ?thesis by (simp add: Stat_def of_err_resultErr io_defs)
qed

theorem Stat_correct_witness:
  "Stat (serve_env 0 (\<lambda>_ _ _ c. ((put_stat 0xA92E 0xA30E (True, sample_params), 0), c)))
     sample_volume 2 ''x'' (NewSession ()) =
   Some (Ok (entry_of (\<lambda>x. x) 0xA30E True sample_params), NewSession ())"
  using Stat_correct [of "serve_env 0 (\<lambda>_ _ _ c. ((put_stat 0xA92E 0xA30E (True, sample_params), 0), c))"
      sample_volume 2 "''x''" "NewSession ()" "put_stat 0xA92E 0xA30E (True, sample_params)" 0
      "NewSession ()" True "0xA30E" "0xA92E" sample_params] sample_dirents [of True]
  by (simp add: NewSession_def result_of_code_def dirent_ok_def)

end
