(* ===== verification/Fork.thy ===== *)
theory Fork
  imports Session
begin

text \<open>
  \<^verbatim>\<open>internal/afp/fork.go\<close>: open forks and the concurrent read path. A function that returns both
  a count and an error gives the pair, so that \<^verbatim>\<open>n\<close> bytes together with \<^verbatim>\<open>io.EOF\<close> are expressible.
\<close>

section \<open>Definitions\<close>

definition forkRead :: "16 word" where "forkRead = 0x01"
definition forkWrite :: "16 word" where "forkWrite = 0x02"
definition forkTypeData :: "8 word" where "forkTypeData = 0x00"
definition forkTypeResource :: "8 word" where "forkTypeResource = 0x80"
definition readChunkSize :: int where "readChunkSize = 128 * 1024"
definition maxConcurrentReads :: int where "maxConcurrentReads = 8"

record Fork =
  fID :: "16 word"
  fSize :: "64 word"
  chunkSize :: int
  maxParallel :: int

definition open_fork_reply :: "bytes \<Rightarrow> Fork res" where
  "open_fork_reply payload =
     (let r = new_reader payload;
          (bm, r) = reader_u16 ''open bitmap'' r;
          (forkid, r) = reader_u16 ''fork id'' r;
          (sz, r) = reader_u64 ''fork length'' r
      in case rerr r of
           Some e \<Rightarrow> Err e
         | None \<Rightarrow> Ok \<lparr>fID = forkid, fSize = sz, chunkSize = readChunkSize,
                       maxParallel = maxConcurrentReads\<rparr>)"

definition open_request :: "'s env \<Rightarrow> Volume \<Rightarrow> 32 word \<Rightarrow> string \<Rightarrow> 16 word \<Rightarrow> bytes" where
  "open_request E v dirID path mode =
     (let w = builder_u8 [] cmdOpenFork;
          w = builder_u8 w forkTypeData;
          w = builder_u16 w (vID v);
          w = builder_u32 w dirID;
          w = builder_u16 w kFPExtDataForkLenBit;
          w = builder_u16 w mode
      in builder_path (norm_nfd E) w path)"

definition openFork :: "'s env \<Rightarrow> Volume \<Rightarrow> 32 word \<Rightarrow> string \<Rightarrow> 16 word \<Rightarrow> ('s session, Fork) io" where
  "openFork E v dirID path mode =
     io_bind (command E (open_request E v dirID path mode)) (\<lambda>(payload, code).
     io_bind (io_res (of_err (resultErr (''open '' @ path) code))) (\<lambda>_.
       io_res (open_fork_reply payload)))"

definition OpenFork :: "'s env \<Rightarrow> Volume \<Rightarrow> 32 word \<Rightarrow> string \<Rightarrow> ('s session, Fork) io" where
  "OpenFork E v dirID path = openFork E v dirID path forkRead"

definition OpenForkRW :: "'s env \<Rightarrow> Volume \<Rightarrow> 32 word \<Rightarrow> string \<Rightarrow> ('s session, Fork) io" where
  "OpenForkRW E v dirID path = openFork E v dirID path (forkRead OR forkWrite)"

definition SetReadAhead :: "int \<Rightarrow> int \<Rightarrow> Fork \<Rightarrow> Fork" where
  "SetReadAhead cs mp f =
     (let f = (if cs > 0 then f\<lparr>chunkSize := cs\<rparr> else f)
      in if mp > 0 then f\<lparr>maxParallel := mp\<rparr> else f)"

definition close_request :: "Fork \<Rightarrow> bytes" where
  "close_request f =
     (let w = builder_u8 [] cmdCloseFork;
          w = builder_u8 w 0
      in builder_u16 w (fID f))"

definition Fork_Close :: "'s env \<Rightarrow> Fork \<Rightarrow> ('s session, unit) io" where
  "Fork_Close E f = simple_command E ''close fork'' (close_request f)"

definition read_request :: "Fork \<Rightarrow> int \<Rightarrow> nat \<Rightarrow> bytes" where
  "read_request f offset cnt =
     (let w = builder_u8 [] cmdReadExt;
          w = builder_u8 w 0;
          w = builder_u16 w (fID f);
          w = builder_u64 w (word_of_int offset)
      in builder_u64 w (word_of_nat cnt))"

definition readChunk :: "'s env \<Rightarrow> Fork \<Rightarrow> int \<Rightarrow> nat \<Rightarrow> ('s session, bytes \<times> bool) io" where
  "readChunk E f offset cnt =
     io_bind (command E (read_request f offset cnt)) (\<lambda>(payload, code).
       if code = ResEOF then io_ret (payload, True)
       else io_bind (io_res (of_err (resultErr ''read'' code))) (\<lambda>_. io_ret (payload, False)))"

subsection \<open>Groups of goroutines\<close>

text \<open>
  \<^verbatim>\<open>errgroup\<close>: the tasks run to their end in the given order of completion; their results are
  kept, and the error reported is the first.
\<close>

primrec run_group :: "(nat \<Rightarrow> ('s, 'a) io) \<Rightarrow> nat list \<Rightarrow> (nat \<Rightarrow> 'a option) \<Rightarrow> goerr option \<Rightarrow>
    ('s, (nat \<Rightarrow> 'a option) \<times> goerr option) io" where
  "run_group task [] res err = io_ret (res, err)"
| "run_group task (i # is) res err = (\<lambda>s.
     case task i s of
       None \<Rightarrow> None
     | Some (Panic, s') \<Rightarrow> Some (Panic, s')
     | Some (Err e, s') \<Rightarrow> run_group task is res (case err of None \<Rightarrow> Some e | Some e0 \<Rightarrow> Some e0) s'
     | Some (Ok a, s') \<Rightarrow> run_group task is (res(i \<mapsto> a)) err s')"

subsection \<open>ReadAt\<close>

text \<open>The chunks of a buffer of \<open>n\<close> bytes; a size of zero would never reach the end.\<close>

partial_function (option) split_loop :: "int \<Rightarrow> int \<Rightarrow> int \<Rightarrow> (nat \<times> nat) list \<Rightarrow> (nat \<times> nat) list option" where
  "split_loop cs n pos chunks =
     (if pos < n
      then let want = (if pos + cs > n then n - pos else cs)
           in split_loop cs n (pos + cs) (chunks @ [(nat pos, nat want)])
      else Some chunks)"

definition copy_at :: "bytes \<Rightarrow> nat \<Rightarrow> bytes \<Rightarrow> bytes \<times> nat" where
  "copy_at p start data =
     (let k = min (length p - start) (length data)
      in (take start p @ take k data @ drop (start + k) p, k))"

fun reassemble :: "(nat \<times> bytes \<times> bool) list \<Rightarrow> bytes \<Rightarrow> nat \<Rightarrow> nat \<times> goerr option \<times> bytes" where
  "reassemble [] p n = (n, None, p)"
| "reassemble ((start, data, short) # cs) p n =
     (let (p, k) = copy_at p start data
      in if short then (n + k, Some EOF, p) else reassemble cs p (n + k))"

definition read_task :: "'s env \<Rightarrow> Fork \<Rightarrow> int \<Rightarrow> nat \<times> nat \<Rightarrow> ('s session, bytes \<times> bool) io" where
  "read_task E f off c =
     io_bind (readChunk E f (off + int (fst c)) (snd c)) (\<lambda>(data, eof).
       io_ret (data, eof \<or> length data < snd c))"

definition ReadAt :: "'s env \<Rightarrow> Fork \<Rightarrow> bytes \<Rightarrow> int \<Rightarrow> ('s session, nat \<times> goerr option \<times> bytes) io" where
  "ReadAt E f p off s =
     (if length p = 0 then Some (Ok (0, None, p), s)
      else case split_loop (chunkSize f) (int (length p)) 0 [] of
        None \<Rightarrow> None
      | Some chunks \<Rightarrow>
          io_bind (run_group (\<lambda>i. read_task E f off (chunks ! i))
                     (group_order E (sconn s) (length chunks)) (\<lambda>_. None) None)
            (\<lambda>(res, err). case err of
               Some e \<Rightarrow> io_ret (0, Some e, p)
             | None \<Rightarrow> io_ret (reassemble
                 (map (\<lambda>i. (fst (chunks ! i),
                             case res i of None \<Rightarrow> ([], False) | Some a \<Rightarrow> a)) [0..<length chunks]) p 0)) s)"

subsection \<open>WriteTo\<close>

text \<open>
  The writer is a parameter: it takes bytes and its own state and may fail. \<^verbatim>\<open>make\<close> panics for a
  negative length, \<^verbatim>\<open>buf[:n]\<close> beyond the buffer; the product of the tunables wraps at 64 bits.
\<close>

definition go_int :: "int \<Rightarrow> int" where
  "go_int i = sint (word_of_int i :: 64 word)"

partial_function (option) writeTo_loop ::
    "'s env \<Rightarrow> Fork \<Rightarrow> (bytes \<Rightarrow> 'o \<Rightarrow> goerr option \<times> 'o) \<Rightarrow> bytes \<Rightarrow> int \<Rightarrow> int \<Rightarrow>
     's session \<times> 'o \<Rightarrow> ((int \<times> goerr option) res \<times> ('s session \<times> 'o)) option" where
  "writeTo_loop E f wr buf tot off st =
     (case ReadAt E f buf off (fst st) of
        None \<Rightarrow> None
      | Some (Panic, s) \<Rightarrow> Some (Panic, (s, snd st))
      | Some (Err e, s) \<Rightarrow> Some (Err e, (s, snd st))
      | Some (Ok (n, err, buf), s) \<Rightarrow>
          if n > length buf then Some (Panic, (s, snd st))
          else (case (if n > 0 then wr (take n buf) (snd st) else (None, snd st)) of
             (Some werr, w) \<Rightarrow> Some (Ok (tot, Some werr), (s, w))
           | (None, w) \<Rightarrow>
               let tot = tot + int n; off = off + int n in
               if err = Some EOF then Some (Ok (tot, None), (s, w))
               else if err \<noteq> None then Some (Ok (tot, err), (s, w))
               else if n = 0 then Some (Ok (tot, None), (s, w))
               else writeTo_loop E f wr buf tot off (s, w)))"

definition writeTo :: "'s env \<Rightarrow> Fork \<Rightarrow> (bytes \<Rightarrow> 'o \<Rightarrow> goerr option \<times> 'o) \<Rightarrow>
    ('s session \<times> 'o, int \<times> goerr option) io" where
  "writeTo E f wr st =
     (let n = go_int (chunkSize f * maxParallel f)
      in if n < 0 then Some (Panic, st)
         else writeTo_loop E f wr (replicate (nat n) 0) 0 0 st)"

definition WriteTo :: "'s env \<Rightarrow> Fork \<Rightarrow> (bytes \<Rightarrow> 'o \<Rightarrow> goerr option \<times> 'o) \<Rightarrow>
    ('s session \<times> 'o, int \<times> goerr option) io" where
  "WriteTo E f wr = writeTo E f wr"

definition WriteToContext :: "'s env \<Rightarrow> Fork \<Rightarrow> (bytes \<Rightarrow> 'o \<Rightarrow> goerr option \<times> 'o) \<Rightarrow>
    ('s session \<times> 'o, int \<times> goerr option) io" where
  "WriteToContext E f wr = writeTo E f wr"

section \<open>Splitting and reassembling\<close>

text \<open>\<open>tiles pos n cks\<close>: the chunks cover the range from \<open>pos\<close> to \<open>n\<close> without gap or overlap.\<close>

fun tiles :: "nat \<Rightarrow> nat \<Rightarrow> (nat \<times> nat) list \<Rightarrow> bool" where
  "tiles pos n [] \<longleftrightarrow> pos = n"
| "tiles pos n ((start, w) # cs) \<longleftrightarrow> start = pos \<and> 0 < w \<and> tiles (pos + w) n cs"

lemma tiles_le: "tiles pos n cks \<Longrightarrow> pos \<le> n"
  by (induction pos n cks rule: tiles.induct) auto

lemma split_loop_tiles:
  assumes "0 < cs" and "0 \<le> pos"
  shows "\<exists>cks. split_loop cs (int n) pos acc = Some (acc @ cks) \<and> tiles (min (nat pos) n) n cks
           \<and> (\<forall>c \<in> set cks. 0 < snd c \<and> int (snd c) \<le> cs \<and> fst c + snd c \<le> n)"
  using assms(2)
proof (induction "nat (int n - pos)" arbitrary: pos acc rule: less_induct)
  case less
  show ?case
  proof (cases "pos < int n")
    case True
    define w where "w = (if pos + cs > int n then int n - pos else cs)"
    have w: "0 < w" "w \<le> cs" "pos + w \<le> int n" using True assms(1) by (auto simp: w_def)
    have "nat (int n - (pos + cs)) < nat (int n - pos)" using True assms(1) by simp
    from less.hyps [OF this, of "acc @ [(nat pos, nat w)]"] less.prems assms(1) obtain cks where
      cks: "split_loop cs (int n) (pos + cs) (acc @ [(nat pos, nat w)]) = Some ((acc @ [(nat pos, nat w)]) @ cks)"
        "tiles (min (nat (pos + cs)) n) n cks" "\<forall>c \<in> set cks. 0 < snd c \<and> int (snd c) \<le> cs \<and> fst c + snd c \<le> n"
      by auto
    have "min (nat (pos + cs)) n = nat pos + nat w" and "min (nat pos) n = nat pos"
      using True less.prems assms(1) by (auto simp: w_def min_def)
    moreover have "nat pos + nat w \<le> n" using w less.prems by simp
    moreover have "split_loop cs (int n) pos acc = Some (acc @ (nat pos, nat w) # cks)"
      using True cks(1) by (subst split_loop.simps) (simp add: w_def Let_def)
    ultimately show ?thesis
      using cks(2,3) w by (intro exI [of _ "(nat pos, nat w) # cks"]) auto
  next
    case False
    then show ?thesis by (subst split_loop.simps) auto
  qed
qed

text \<open>\<open>J D s\<close> describes the state when the tasks in \<open>D\<close> are done.\<close>

lemma run_group_inv:
  assumes "\<And>i D s. i \<in> set order \<Longrightarrow> J D s \<Longrightarrow>
        \<exists>a s'. task i s = Some (Ok a, s') \<and> J (insert i D) s' \<and> Q i a"
    and "J D s"
  shows "\<exists>res' s'. run_group task order res err s = Some (Ok (res', err), s') \<and> J (D \<union> set order) s'
     \<and> (\<forall>i \<in> set order. \<exists>a. res' i = Some a \<and> Q i a) \<and> (\<forall>i. i \<notin> set order \<longrightarrow> res' i = res i)"
  using assms
proof (induction order arbitrary: res s D)
  case Nil
  then show ?case by (simp add: io_ret_def)
next
  case (Cons i ks)
  obtain a s1 where a: "task i s = Some (Ok a, s1)" "J (insert i D) s1" "Q i a"
    using Cons.prems(1) [OF list.set_intros(1) Cons.prems(2)] by blast
  have "\<exists>res' s'. run_group task ks (res(i \<mapsto> a)) err s1 = Some (Ok (res', err), s')
     \<and> J (insert i D \<union> set ks) s'
     \<and> (\<forall>j \<in> set ks. \<exists>a. res' j = Some a \<and> Q j a) \<and> (\<forall>j. j \<notin> set ks \<longrightarrow> res' j = (res(i \<mapsto> a)) j)"
    by (rule Cons.IH) (use Cons.prems(1) a(2) in simp_all)
  then obtain res' s' where r: "run_group task ks (res(i \<mapsto> a)) err s1 = Some (Ok (res', err), s')"
    "J (insert i D \<union> set ks) s'"
    "\<forall>j \<in> set ks. \<exists>a. res' j = Some a \<and> Q j a" "\<forall>j. j \<notin> set ks \<longrightarrow> res' j = (res(i \<mapsto> a)) j"
    by blast
  have "\<exists>a. res' i = Some a \<and> Q i a" using r(3,4) a(3) by (cases "i \<in> set ks") auto
  with r a(1) show ?case by (intro exI [of _ res'] exI [of _ s']) auto
qed

lemmas run_group_ok = run_group_inv [where J = "\<lambda>_. S" and D = "{}" for S]

text \<open>What chunk \<open>(start, w)\<close> of a read of \<open>G\<close> brings back.\<close>

definition piece_of :: "bytes \<Rightarrow> nat \<times> nat \<Rightarrow> nat \<times> bytes \<times> bool" where
  "piece_of G c = (fst c, take (snd c) (drop (fst c) G), length G < fst c + snd c)"

lemma reassemble_tiles:
  assumes "tiles pos n cks" and "length p = n" and "pos \<le> length G" and "take pos p = take pos G"
  shows "reassemble (map (piece_of G) cks) p pos =
     (length (take n G), if length G < n then Some EOF else None, take n G @ drop (length (take n G)) p)"
  using assms
proof (induction pos n cks arbitrary: p rule: tiles.induct)
  case (1 pos n)
  then have "take n G = p" and "length (take n G) = n" by auto
  with 1 show ?case by simp
next
  case (2 pos n start w cs)
  let ?d = "take w (drop pos G)"
  have t: "start = pos" "0 < w" "tiles (pos + w) n cs" "pos + w \<le> n"
    using 2(2) tiles_le by auto
  have k: "min (length p - pos) (length ?d) = length ?d" using 2(3) t by simp
  define p' where "p' = take pos p @ ?d @ drop (pos + length ?d) p"
  have c: "copy_at p pos ?d = (p', length ?d)" 
    unfolding copy_at_def Let_def k p'_def by (simp only: take_all order_refl)
  have pre: "take pos p @ ?d = take (pos + w) G" using 2(5) by (simp add: take_add)
  show ?case
  proof (cases "length G < pos + w")
    case True
    then have "take (pos + w) G = take n G" "pos + length ?d = length (take n G)"
      using t 2(4) by auto
    with True t c pre show ?thesis
      by (simp add: piece_of_def p'_def del: length_take)
  next
    case False
    have "take (pos + w) p' = take (pos + w) G" and "length p' = n"
      using False pre 2(3) t by (auto simp: p'_def simp flip: append_assoc)
    moreover have "drop (length (take n G)) p' = drop (length (take n G)) p"
      using False t 2(3) by (auto simp: p'_def min_def)
    moreover have "length ?d = w" using False t by simp
    ultimately show ?thesis
      using 2(1) [of p'] t c False by (simp add: piece_of_def del: length_take)
  qed
qed

section \<open>Reading a file\<close>

text \<open>
  What the client relies on of a server that holds the bytes \<open>F\<close> in an open fork: a read of at most a
  chunk within the file gives exactly the bytes asked for, a read that meets the end gives the bytes up to it, with or
  without \<^verbatim>\<open>kFPEOFErr\<close>. Of \<^verbatim>\<open>errgroup\<close> it relies on every goroutine running once, in any order.
\<close>

definition reads_file :: "'s env \<Rightarrow> Fork \<Rightarrow> bytes \<Rightarrow> ('s session \<Rightarrow> bool) \<Rightarrow> bool" where
  "reads_file E f F S \<longleftrightarrow>
     (\<forall>s off cnt. S s \<longrightarrow> off < 2 ^ 63 \<longrightarrow> cnt < 2 ^ 63 \<longrightarrow> int cnt \<le> chunkSize f \<longrightarrow> (\<exists>code s'. S s' \<and>
        command E (read_request f (int off) cnt) s = Some (Ok (take cnt (drop off F), code), s') \<and>
        (code = 0 \<or> code = ResEOF \<and> length F < off + cnt)))"

definition group_runs_all :: "'s env \<Rightarrow> bool" where
  "group_runs_all E \<longleftrightarrow> (\<forall>c n. mset (group_order E c n) = mset [0..<n])"

definition fork_ok :: "Fork \<Rightarrow> bool" where
  "fork_ok f \<longleftrightarrow> 0 < chunkSize f \<and> 0 < maxParallel f"

lemma group_set: "group_runs_all E \<Longrightarrow> set (group_order E c n) = {0..<n}"
  by (metis atLeastLessThan_upt group_runs_all_def set_mset_mset)

lemma open_fork_reply_ok: "open_fork_reply b = Ok f \<Longrightarrow> fork_ok f"
  by (auto simp: open_fork_reply_def fork_ok_def Let_def case_prod_beta readChunkSize_def
      maxConcurrentReads_def split: option.splits)

lemma SetReadAhead_ok: "fork_ok f \<Longrightarrow> fork_ok (SetReadAhead cs mp f)"
  by (simp add: SetReadAhead_def fork_ok_def Let_def)

lemma readChunk_file:
  assumes "reads_file E f F S" and "S s" and "off < 2 ^ 63" and "w < 2 ^ 63"
    and "int w \<le> chunkSize f"
  shows "\<exists>eof s'. readChunk E f (int off) w s = Some (Ok (take w (drop off F), eof), s') \<and> S s'
           \<and> (eof \<longrightarrow> length F < off + w)"
proof -
  obtain code s' where "S s'" and
    c: "command E (read_request f (int off) w) s = Some (Ok (take w (drop off F), code), s')" and
    code: "code = 0 \<or> code = ResEOF \<and> length F < off + w"
    using assms unfolding reads_file_def by blast
  then show ?thesis
    by (auto simp: readChunk_def io_ret_def of_err_resultErr io_res_def ResEOF_def)
qed

lemma read_task_file:
  assumes "reads_file E f F S" and "S s" and "off + fst c < 2 ^ 63" and "snd c < 2 ^ 63"
    and "int (snd c) \<le> chunkSize f" and "0 < snd c"
  shows "\<exists>a s'. read_task E f (int off) c s = Some (Ok a, s') \<and> S s'
           \<and> (fst c, a) = piece_of (drop off F) c"
proof -
  obtain eof s' where
    "readChunk E f (int (off + fst c)) (snd c) s = Some (Ok (take (snd c) (drop (off + fst c) F), eof), s')"
    "S s'" "eof \<longrightarrow> length F < off + fst c + snd c"
    using readChunk_file [OF assms(1-5)] by auto
  moreover have "length (drop off F) < fst c + snd c \<longleftrightarrow>
      eof \<or> length (take (snd c) (drop (off + fst c) F)) < snd c"
    using \<open>eof \<longrightarrow> _\<close> assms(6) by auto
  ultimately show ?thesis
    by (simp add: read_task_def io_ret_def piece_of_def add.commute del: length_take length_drop)
qed

lemma ReadAt_file:
  assumes "reads_file E f F S" and "group_runs_all E" and "fork_ok f" and "S s"
    and "off + length p < 2 ^ 63"
  shows "\<exists>s'. S s' \<and> ReadAt E f p (int off) s =
     Some (Ok (let D = take (length p) (drop off F) in
               (length D, if length D < length p then Some EOF else None, D @ drop (length D) p)), s')"
proof (cases "p = []")
  case False
  let ?G = "drop off F"
  obtain cks where cks: "split_loop (chunkSize f) (int (length p)) 0 [] = Some cks"
    "tiles 0 (length p) cks" "\<forall>c \<in> set cks. 0 < snd c \<and> int (snd c) \<le> chunkSize f \<and> fst c + snd c \<le> length p"
    using split_loop_tiles [of "chunkSize f" 0 "length p" "[]"] assms(3) by (auto simp: fork_ok_def)
  let ?order = "group_order E (sconn s) (length cks)"
  have order: "set ?order = {0..<length cks}" using group_set [OF assms(2)] .
  have "\<exists>a s'. read_task E f (int off) (cks ! i) s = Some (Ok a, s') \<and> S s'
      \<and> (fst (cks ! i), a) = piece_of ?G (cks ! i)" if "i \<in> set ?order" "S s" for i s
  proof -
    have "cks ! i \<in> set cks" using that order by simp
    then have "0 < snd (cks ! i) \<and> int (snd (cks ! i)) \<le> chunkSize f \<and> fst (cks ! i) + snd (cks ! i) \<le> length p" using cks(3) by blast
    then show ?thesis using read_task_file [OF assms(1) that(2)] assms(5) by simp
  qed
  from run_group_ok [where task = "\<lambda>i. read_task E f (int off) (cks ! i)" and order = ?order and S = S
      and Q = "\<lambda>i a. (fst (cks ! i), a) = piece_of ?G (cks ! i)" and s = s
      and res = "\<lambda>_. None" and err = None, OF this assms(4)] obtain res s' where
    run: "run_group (\<lambda>i. read_task E f (int off) (cks ! i)) ?order (\<lambda>_. None) None s =
      Some (Ok (res, None), s')" "S s'"
    and res: "\<forall>i \<in> set ?order. \<exists>a. res i = Some a \<and> (fst (cks ! i), a) = piece_of ?G (cks ! i)"
    by blast
  have "map (\<lambda>i. (fst (cks ! i), case res i of None \<Rightarrow> ([], False) | Some a \<Rightarrow> a)) [0..<length cks] =
      map (\<lambda>i. piece_of ?G (cks ! i)) [0..<length cks]"
  proof (intro map_cong refl)
    fix i assume "i \<in> set [0..<length cks]"
    then have "i \<in> set ?order" by (simp only: order set_upt)
    then obtain a where "res i = Some a" "(fst (cks ! i), a) = piece_of ?G (cks ! i)"
      using res by blast
    then show "(fst (cks ! i), case res i of None \<Rightarrow> ([], False) | Some a \<Rightarrow> a) = piece_of ?G (cks ! i)"
      by simp
  qed
  also have "\<dots> = map (piece_of ?G) cks"
    by (simp add: map_equality_iff)
  finally have pieces: "map (\<lambda>i. (fst (cks ! i), case res i of None \<Rightarrow> ([], False) | Some a \<Rightarrow> a))
      [0..<length cks] = map (piece_of ?G) cks" .
  have "ReadAt E f p (int off) s = Some (Ok (reassemble (map (piece_of ?G) cks) p 0), s')"
    using False cks(1) run(1) by (simp add: ReadAt_def pieces io_ret_def)
  with run(2) reassemble_tiles [OF cks(2) refl, of ?G] show ?thesis
    by (auto simp: Let_def)
qed (use assms(4) in \<open>simp add: ReadAt_def\<close>)

text \<open>
  (C3) Concurrent reads return the file: for every order in which the overlapping chunk requests
  of one \<^verbatim>\<open>ReadAt\<close> are answered, any chunk size and any degree of parallelism, the call returns; the
  buffer holds the bytes of the file from \<^verbatim>\<open>off\<close>, the rest of the buffer is untouched, the count is
  exact, and \<^verbatim>\<open>io.EOF\<close> is reported if and only if the file ends before the buffer is full.
\<close>
theorem ReadAt_correct:
  assumes "reads_file E f F S" and "group_runs_all E" and "fork_ok f" and "S s"
    and "off + length p < 2 ^ 63"
  shows "\<exists>s'. ReadAt E f p (int off) s =
     Some (Ok (let D = take (length p) (drop off F) in
               (length D, if length D < length p then Some EOF else None, D @ drop (length D) p)), s')"
  using ReadAt_file [OF assms] by blast

text \<open>A server that holds one file and answers every read from it.\<close>

definition file_env :: "bytes \<Rightarrow> unit env" where
  "file_env F = serve_env 0 (\<lambda>_ _ p c.
     let off = unat (get64 (take 8 (drop 4 p))); cnt = unat (get64 (take 8 (drop 12 p))) in
     ((take cnt (drop off F), if length F < off + cnt then word_of_int ResEOF else 0), c))"

definition sample_fork :: Fork where
  "sample_fork = \<lparr>fID = 3, fSize = 5, chunkSize = 2, maxParallel = 2\<rparr>"

lemma read_request_fields:
  "take 8 (drop 4 (read_request f off cnt)) = put64 (word_of_int off)"
  "take 8 (drop 12 (read_request f off cnt)) = put64 (word_of_nat cnt)"
  by (simp_all add: read_request_def builder_defs Let_def)

lemma unat_off64: "n < 2 ^ 63 \<Longrightarrow> unat (word_of_nat n :: 64 word) = n"
  by (simp add: unat_of_nat)

lemma file_env_reads: "reads_file (file_env F) f F (\<lambda>_. True)"
  unfolding reads_file_def
proof (intro allI impI)
  fix s :: "unit session" and off cnt :: nat
  assume "off < 2 ^ 63" and "cnt < 2 ^ 63"
  then show "\<exists>code s'. True \<and> command (file_env F) (read_request f (int off) cnt) s =
      Some (Ok (take cnt (drop off F), code), s') \<and> (code = 0 \<or> code = ResEOF \<and> length F < off + cnt)"
    unfolding file_env_def serve_env_command read_request_fields get_put of_int_of_nat_eq Let_def
    by (simp only: unat_off64) (auto simp: result_of_code_def ResEOF_def)
qed

lemma file_env_group: "group_runs_all (file_env F)"
  by (simp add: group_runs_all_def file_env_def)

lemma sample_fork_ok: "fork_ok sample_fork"
  by (simp add: fork_ok_def sample_fork_def)

theorem ReadAt_correct_witness:
  "\<exists>s'. ReadAt (file_env [1, 2, 3, 4, 5]) sample_fork [9, 9, 9, 9, 9, 9, 9] 1 (NewSession ()) =
     Some (Ok (4, Some EOF, [2, 3, 4, 5, 9, 9, 9]), s')"
proof -
  have "\<exists>s'. ReadAt (file_env [1, 2, 3, 4, 5]) sample_fork [9, 9, 9, 9, 9, 9, 9] (int 1) (NewSession ()) =
    Some (Ok (let D = take (length [9, 9, 9, 9, 9, 9, 9 :: byte]) (drop 1 [1, 2, 3, 4, 5]) in
      (length D, if length D < length [9, 9, 9, 9, 9, 9, 9 :: byte] then Some EOF else None,
       D @ drop (length D) [9, 9, 9, 9, 9, 9, 9])), s')"
    by (rule ReadAt_correct [OF file_env_reads file_env_group sample_fork_ok TrueI]) simp
  then show ?thesis by (simp add: Let_def numeral_eq_Suc)
qed

section \<open>Copying a whole fork\<close>

text \<open>A writer that takes everything; \<open>out\<close> reads off what it has been given so far.\<close>

definition writer_accepts :: "(bytes \<Rightarrow> 'o \<Rightarrow> goerr option \<times> 'o) \<Rightarrow> ('o \<Rightarrow> bytes) \<Rightarrow> bool" where
  "writer_accepts wr out \<longleftrightarrow> (\<forall>b w. fst (wr b w) = None \<and> out (snd (wr b w)) = out w @ b)"

lemma writeTo_loop_step:
  assumes "ReadAt E f buf off s = Some (Ok (n, err, buf'), s')" and "n \<le> length buf'"
    and "(if 0 < n then wr (take n buf') w else (None, w)) = (None, w')"
  shows "writeTo_loop E f wr buf tot off (s, w) =
     (if err = Some EOF then Some (Ok (tot + int n, None), (s', w'))
      else if err \<noteq> None then Some (Ok (tot + int n, err), (s', w'))
      else if n = 0 then Some (Ok (tot + int n, None), (s', w'))
      else writeTo_loop E f wr buf' (tot + int n) (off + int n) (s', w'))"
  using assms(2,3) by (subst writeTo_loop.simps) (cases "0 < n"; simp add: assms(1) Let_def)

lemma writeTo_loop_file:
  assumes "reads_file E f F S" and "group_runs_all E" and "fork_ok f" and "writer_accepts wr out"
    and "0 < length buf" and "length F + length buf < 2 ^ 63"
    and "S s" and "off \<le> length F"
  shows "\<exists>s' w'. writeTo_loop E f wr buf (int off) (int off) (s, w) =
     Some (Ok (int (length F), None), (s', w')) \<and> S s' \<and> out w' = out w @ drop off F"
  using assms(5-8)
proof (induction "length F - off" arbitrary: off s w buf rule: less_induct)
  case less
  define D where "D = take (length buf) (drop off F)"
  obtain s' where s': "S s'" and r: "ReadAt E f buf (int off) s =
      Some (Ok (length D, if length D < length buf then Some EOF else None, D @ drop (length D) buf), s')"
    using ReadAt_file [OF assms(1-3) less.prems(3), of off buf] less.prems
    by (auto simp: Let_def D_def)
  define buf' where "buf' = D @ drop (length D) buf"
  have len: "length D \<le> length buf" by (simp add: D_def)
  then have len: "length D \<le> length buf" "length buf' = length buf" "take (length D) buf' = D"
    by (simp_all add: buf'_def)
  define w' where "w' = (if 0 < length D then snd (wr D w) else w)"
  have wr: "(if 0 < length D then wr D w else (None, w)) = (None, w')" and out: "out w' = out w @ D"
    using assms(4) by (auto simp: writer_accepts_def w'_def prod_eq_iff)
  have "(if 0 < length D then wr (take (length D) buf') w else (None, w)) = (None, w')"
    unfolding len(3) by (rule wr)
  note step = writeTo_loop_step [where wr = wr and w = w and w' = w' and tot = "int off",
      OF r [folded buf'_def] _ this, unfolded len(2), OF len(1)]
  show ?case
  proof (cases "length D < length buf")
    case True
    then have "drop off F = D" using less.prems(4) by (auto simp: D_def)
    moreover from this have "int off + int (length D) = int (length F)" using less.prems(4) by auto
    ultimately show ?thesis
      using step True out s' by simp
  next
    case False
    then have eq: "writeTo_loop E f wr buf (int off) (int off) (s, w) =
        writeTo_loop E f wr buf' (int (off + length D)) (int (off + length D)) (s', w')"
      using step less.prems(1) len by simp
    have "length D = length buf" "off + length D \<le> length F"
      using False len less.prems(1,4) by (auto simp: D_def)
    moreover from this have "length F - (off + length D) < length F - off"
      using less.prems(1) by arith
    ultimately obtain s'' w'' where
      "writeTo_loop E f wr buf' (int (off + length D)) (int (off + length D)) (s', w') =
        Some (Ok (int (length F), None), (s'', w''))" "S s''" "out w'' = out w' @ drop (off + length D) F"
      using less.hyps [of "off + length D" buf' s' w'] less.prems len s' by auto
    moreover have "D @ drop (off + length D) F = drop off F"
      unfolding \<open>length D = length buf\<close> unfolding D_def by (rule take_drop_glue [OF refl])
    ultimately show ?thesis using eq out by auto
  qed
qed

lemma go_int_small: "0 \<le> i \<Longrightarrow> i < 2 ^ 63 \<Longrightarrow> go_int i = i"
  unfolding go_int_def sint_sbintrunc' by (rule signed_take_bit_int_eq_self) simp_all

lemma writeTo_file:
  assumes "reads_file E f F S" and "group_runs_all E" and "fork_ok f" and "writer_accepts wr out"
    and "int (length F) + chunkSize f * maxParallel f < 2 ^ 63" and "S s"
  shows "\<exists>s' w'. writeTo E f wr (s, w) = Some (Ok (int (length F), None), (s', w')) \<and> S s'
           \<and> out w' = out w @ F"
proof -
  have n: "go_int (chunkSize f * maxParallel f) = chunkSize f * maxParallel f"
      "0 < chunkSize f * maxParallel f"
    using assms(3,5) by (auto intro!: go_int_small simp: fork_ok_def)
  then have "\<exists>s' w'. writeTo_loop E f wr (replicate (nat (chunkSize f * maxParallel f)) 0) (int 0) (int 0) (s, w) =
     Some (Ok (int (length F), None), (s', w')) \<and> S s' \<and> out w' = out w @ drop 0 F"
    using assms(5) by (intro writeTo_loop_file [OF assms(1-4) _ _ assms(6)]) auto
  with n show ?thesis by (simp add: writeTo_def Let_def)
qed

text \<open>
  (C25) \<^verbatim>\<open>WriteTo\<close> copies the whole fork: over a server that holds \<open>F\<close> and a writer that accepts what it
  is given, the copy ends, the writer has received exactly \<open>F\<close>, and the count returned is its length,
  for every window size, chunk size and order of answers.
\<close>
theorem writeTo_correct:
  assumes "reads_file E f F S" and "group_runs_all E" and "fork_ok f" and "writer_accepts wr out"
    and "int (length F) + chunkSize f * maxParallel f < 2 ^ 63" and "S s"
  shows "\<exists>s' w'. writeTo E f wr (s, w) = Some (Ok (int (length F), None), (s', w'))
           \<and> out w' = out w @ F"
  using writeTo_file [OF assms] by blast

theorem writeTo_correct_witness:
  "\<exists>s' w'. writeTo (file_env [1, 2, 3, 4, 5]) sample_fork (\<lambda>b w. (None, w @ b)) (NewSession (), []) =
     Some (Ok (5, None), (s', w')) \<and> w' = [1, 2, 3, 4, 5]"
proof -
  have "writer_accepts (\<lambda>b w. (None, w @ b)) (\<lambda>w. w)" by (simp add: writer_accepts_def)
  moreover have "int (length [1, 2, 3, 4, 5 :: byte]) + chunkSize sample_fork * maxParallel sample_fork < 2 ^ 63"
    by (simp add: sample_fork_def)
  ultimately have "\<exists>s' w'. writeTo (file_env [1, 2, 3, 4, 5]) sample_fork (\<lambda>b w. (None, w @ b)) (NewSession (), []) =
     Some (Ok (int (length [1, 2, 3, 4, 5 :: byte]), None), (s', w')) \<and> w' = [] @ [1, 2, 3, 4, 5]"
    by (rule writeTo_correct [OF file_env_reads file_env_group sample_fork_ok _ _ TrueI])
  then show ?thesis by simp
qed

section \<open>The read path over any sound transport\<close>

lemma open_fork_reply_not_Panic: "open_fork_reply b \<noteq> Panic"
  by (auto simp: open_fork_reply_def Let_def case_prod_beta split: option.splits)

lemma run_group_safe:
  assumes "\<And>i. io_safe P (task i)"
  shows "io_safe P (run_group task order res err)"
proof (induction order arbitrary: res err)
  case (Cons i ks)
  show ?case
    unfolding io_safe_def
  proof (intro allI impI)
    fix s assume "P s"
    from assms this show "\<exists>r s'. run_group task (i # ks) res err s = Some (r, s') \<and> r \<noteq> Panic \<and> P s'"
      by (cases rule: io_safeE [of P "task i" s]) (use io_safeD [OF Cons.IH] in auto)
  qed
qed simp

context afp_layer
begin

lemma openFork_safe [intro!]: "io_safe sound (openFork E v dirID path mode)"
  unfolding openFork_def
  by (intro io_safe_bind io_safe_prod io_safe_res command_safe) (simp_all add: open_fork_reply_not_Panic)

lemma Fork_Close_safe [intro!]: "io_safe sound (Fork_Close E f)"
  unfolding Fork_Close_def by (rule simple_command_safe)

lemma read_task_safe: "io_safe sound (read_task E f off c)"
  unfolding read_task_def readChunk_def
  by (intro io_safe_bind io_safe_prod io_safe_if io_safe_res command_safe io_safe_ret) simp

lemma ReadAt_safe:
  assumes "fork_ok f"
  shows "io_safe sound (ReadAt E f p off)"
  unfolding io_safe_def
proof (intro allI impI)
  fix s assume s: "sound s"
  obtain cks where cks: "split_loop (chunkSize f) (int (length p)) 0 [] = Some cks"
    using split_loop_tiles [of "chunkSize f" 0 "length p" "[]"] assms by (auto simp: fork_ok_def)
  have "io_safe sound (io_bind (run_group (\<lambda>i. read_task E f off (cks ! i))
      (group_order E (sconn s) (length cks)) (\<lambda>_. None) None)
      (\<lambda>(res, err). case err of Some e \<Rightarrow> io_ret (0, Some e, p)
        | None \<Rightarrow> io_ret (reassemble (map (\<lambda>i. (fst (cks ! i),
            case res i of None \<Rightarrow> ([], False) | Some a \<Rightarrow> a)) [0..<length cks]) p 0)))"
    by (intro io_safe_bind io_safe_prod run_group_safe read_task_safe) (simp split: option.split)
  from io_safeD [OF this s] show "\<exists>r s'. ReadAt E f p off s = Some (r, s') \<and> r \<noteq> Panic \<and> sound s'"
    using cks s by (cases "p = []") (simp_all add: ReadAt_def)
qed

end

section \<open>Two ways a copy goes wrong\<close>

lemma run_group_error:
  assumes "\<And>i s. S s \<Longrightarrow> \<exists>s'. task i s = Some (Err e, s') \<and> S s'" and "S s"
    and "err = Some e \<or> err = None \<and> order \<noteq> []"
  shows "\<exists>res' s'. run_group task order res err s = Some (Ok (res', Some e), s') \<and> S s'"
  using assms(2,3)
proof (induction order arbitrary: err s)
  case Nil
  then show ?case by (simp add: io_ret_def)
next
  case (Cons i ks)
  obtain s1 where "task i s = Some (Err e, s1)" "S s1" using assms(1) Cons.prems(1) by blast
  with Cons.IH [of s1 "Some e"] Cons.prems(2) show ?case by auto
qed

lemma ReadAt_error:
  assumes "\<And>s p. S s \<Longrightarrow> \<exists>s'. command E p s = Some (Err e, s') \<and> S s'"
    and "group_runs_all E" and "fork_ok f" and "S s" and "p \<noteq> []"
  shows "\<exists>s'. ReadAt E f p off s = Some (Ok (0, Some e, p), s') \<and> S s'"
proof -
  obtain cks where cks: "split_loop (chunkSize f) (int (length p)) 0 [] = Some cks"
    "tiles 0 (length p) cks"
    using split_loop_tiles [of "chunkSize f" 0 "length p" "[]"] assms(3) by (auto simp: fork_ok_def)
  then have "cks \<noteq> []" using assms(5) by auto
  then have order: "group_order E (sconn s) (length cks) \<noteq> []"
    using group_set [OF assms(2), of "sconn s" "length cks"] by auto
  have task: "\<exists>s'. read_task E f off (cks ! i) s = Some (Err e, s') \<and> S s'" if "S s" for i s
    using assms(1) [OF that, of "read_request f (off + int (fst (cks ! i))) (snd (cks ! i))"]
    by (auto simp: read_task_def readChunk_def io_bind_def)
  obtain res s' where
    "run_group (\<lambda>i. read_task E f off (cks ! i)) (group_order E (sconn s) (length cks)) (\<lambda>_. None) None s =
      Some (Ok (res, Some e), s')" "S s'"
    using run_group_error [where S = S and task = "\<lambda>i. read_task E f off (cks ! i)" and e = e and s = s
        and err = None and order = "group_order E (sconn s) (length cks)" and res = "\<lambda>_. None"]
      task assms(4) order by blast
  with cks(1) assms(5) show ?thesis by (simp add: ReadAt_def io_ret_def)
qed

lemma closed_command:
  assumes "closeErr (dconn (sconn s)) = Some e"
  shows "\<exists>s'. command (dsi_env N nfd nfc order) p s = Some (Err e, s') \<and> closeErr (dconn (sconn s')) = Some e"
  using assms
  by (simp add: command_def dsi_env_def on_sconn_def request_def on_conn_def register_def io_bind_def Let_def)

text \<open>
  (C33) A connection that the server closes between two packets looks like the end of the file: the
  reader records the plain \<^verbatim>\<open>io.EOF\<close> of its read as the connection's error, every chunk request then
  fails with it, \<^verbatim>\<open>ReadAt\<close> passes it on, and \<^verbatim>\<open>writeTo\<close>, at whatever point of the copy this happens,
  takes it for the end of the fork and returns success with the bytes copied so far.
\<close>
theorem writeTo_lost_connection:
  assumes "IsAlive c" and "\<not> doneClosed c"
    and "readLoop (Some EOF) [] [] c = Some (r, c')"
    and "dconn (sconn s) = c'" and "fork_ok f" and "group_runs_all (dsi_env N nfd nfc order)" and "buf \<noteq> []"
  shows "\<exists>s'. writeTo_loop (dsi_env N nfd nfc order) f wr buf copied off (s, w) =
           Some (Ok (copied, None), (s', w))"
proof -
  have "readLoop (Some EOF) [] [] c = Some (Ok ([], []), c\<lparr>closeErr := Some EOF, doneClosed := True\<rparr>)"
    using assms(1,2) readLoop_step [of "Some EOF" "[]" "HeaderErr EOF" "[]" c None False]
    by (simp add: next_inbound_def readFull_def HeaderSize_def conn_fail_def IsAlive_def io_defs)
  with assms(3) have "c' = c\<lparr>closeErr := Some EOF, doneClosed := True\<rparr>" by simp
  then have closed: "closeErr (dconn (sconn s)) = Some EOF" unfolding assms(4) by simp
  then obtain s' where "ReadAt (dsi_env N nfd nfc order) f buf off s = Some (Ok (0, Some EOF, buf), s')"
    using ReadAt_error [where S = "\<lambda>s. closeErr (dconn (sconn s)) = Some EOF", OF closed_command assms(6,5) closed assms(7)]
    by blast
  from writeTo_loop_step [OF this, of wr w w copied] show ?thesis by auto
qed

theorem writeTo_lost_connection_witness:
  "\<exists>r c'. readLoop (Some EOF) [] [] NewConn = Some (r, c') \<and>
     (\<exists>s'. writeTo_loop (dsi_env (echo_net zero_header []) (\<lambda>x. x) (\<lambda>x. x) (\<lambda>_ n. [0..<n])) sample_fork
        (\<lambda>b w. (None, w @ b)) [0, 0, 0, 0] 4 4
        (NewSession ((fresh_dsi ())\<lparr>dconn := c'\<rparr>), [1, 2, 3, 4]) = Some (Ok (4, None), (s', [1, 2, 3, 4])))"
proof -
  have alive: "IsAlive NewConn" "\<not> doneClosed NewConn" by (simp_all add: NewConn_def IsAlive_def)
  have A: "readLoop (Some EOF) [] [] NewConn =
      Some (Ok ([], []), NewConn\<lparr>closeErr := Some EOF, doneClosed := True\<rparr>)"
    using alive readLoop_step [of "Some EOF" "[]" "HeaderErr EOF" "[]" NewConn None False]
    by (simp add: next_inbound_def readFull_def HeaderSize_def conn_fail_def IsAlive_def io_defs)
  have G: "group_runs_all (dsi_env (echo_net zero_header []) (\<lambda>x. x) (\<lambda>x. x) (\<lambda>_ n. [0..<n]))"
    by (simp add: group_runs_all_def dsi_env_def)
  have "\<exists>s'. writeTo_loop (dsi_env (echo_net zero_header []) (\<lambda>x. x) (\<lambda>x. x) (\<lambda>_ n. [0..<n])) sample_fork
      (\<lambda>b w. (None, w @ b)) [0, 0, 0, 0] 4 4
      (NewSession ((fresh_dsi ())\<lparr>dconn := NewConn\<lparr>closeErr := Some EOF, doneClosed := True\<rparr>\<rparr>), [1, 2, 3, 4]) =
      Some (Ok (4, None), (s', [1, 2, 3, 4]))"
    by (rule writeTo_lost_connection [OF alive A _ sample_fork_ok G]) (simp_all add: NewSession_def)
  with A show ?thesis by blast
qed

section \<open>Replies that are too long\<close>

text \<open>A server that answers every read of a chunk with more bytes than were asked for.\<close>

definition overanswers :: "'s env \<Rightarrow> Fork \<Rightarrow> ('s session \<Rightarrow> bool) \<Rightarrow> bool" where
  "overanswers E f S \<longleftrightarrow>
     (\<forall>s off cnt. S s \<longrightarrow> 0 < cnt \<longrightarrow> int cnt \<le> chunkSize f \<longrightarrow>
        (\<exists>d s'. command E (read_request f off cnt) s = Some (Ok (d, 0), s') \<and> S s' \<and> cnt < length d))"

definition over_piece :: "nat \<times> nat \<Rightarrow> nat \<times> bytes \<times> bool \<Rightarrow> bool" where
  "over_piece c x \<longleftrightarrow> fst x = fst c \<and> snd c < length (fst (snd x)) \<and> \<not> snd (snd x)"

text \<open>Every piece but the last is counted beyond its chunk; \<^verbatim>\<open>copy\<close> clips the last one at the end of the buffer.\<close>

lemma reassemble_over:
  assumes "tiles pos n cks" and "list_all2 over_piece cks xs" and "length p = n"
  shows "\<exists>m q. reassemble xs p k = (m, None, q) \<and> length q = n \<and>
     (if length cks \<le> 1 then m = k + (n - pos) else k + (n - pos) < m)"
  using assms
proof (induction pos n cks arbitrary: p k xs rule: tiles.induct)
  case (1 pos n)
  then show ?case by simp
next
  case (2 pos n start w cs)
  obtain x ys where x: "xs = x # ys" "over_piece (start, w) x" and ys: "list_all2 over_piece cs ys"
    using 2(3) by (auto simp: list_all2_Cons1)
  then obtain d where xs: "xs = (pos, d, False) # ys" and d: "w < length d"
    using 2(2) by (cases x) (auto simp: over_piece_def)
  have t: "0 < w" "tiles (pos + w) n cs" "pos + w \<le> n" using 2(2) tiles_le by auto
  define c where "c = min (n - pos) (length d)"
  define q where "q = take pos p @ take c d @ drop (pos + c) p"
  have q: "copy_at p pos d = (q, c)" "length q = n"
    using 2(4) t by (simp_all add: copy_at_def q_def c_def Let_def)
  obtain m q' where m: "reassemble ys q (k + c) = (m, None, q')" "length q' = n"
      "if length cs \<le> 1 then m = k + c + (n - (pos + w)) else k + c + (n - (pos + w)) < m"
    using 2(1) [OF t(2) ys q(2), of "k + c"] by blast
  have "pos + w < n" if "cs \<noteq> []" using that t(2) tiles_le [of "pos + w + snd (hd cs)" n "tl cs"] by (cases cs) auto
  then have c: "if cs = [] then c = w \<and> pos + w = n else w < c"
    using t d by (auto simp: c_def)
  have "reassemble xs p k = (m, None, q')" using xs q m(1) by simp
  moreover have "if length ((start, w) # cs) \<le> 1 then m = k + (n - pos) else k + (n - pos) < m"
    using m(3) c t(3) by (auto split: if_splits)
  ultimately show ?case using m(2) by blast
qed

lemma split_single:
  assumes "0 < n"
  shows "int n \<le> cs \<Longrightarrow> split_loop cs (int n) 0 [] = Some [(0, n)]"
    and "0 < cs \<Longrightarrow> cs < int n \<Longrightarrow> split_loop cs (int n) 0 [] = Some cks \<Longrightarrow> 1 < length cks"
proof -
  assume "int n \<le> cs"
  then show "split_loop cs (int n) 0 [] = Some [(0, n)]"
    using assms by (subst split_loop.simps, subst split_loop.simps) (auto simp: Let_def)
next
  assume cs: "0 < cs" "cs < int n" and s: "split_loop cs (int n) 0 [] = Some cks"
  then have cks': "tiles 0 n cks" "\<forall>c \<in> set cks. int (snd c) \<le> cs"
    using split_loop_tiles [of cs 0 n "[]"] by auto
  then show "1 < length cks" using cs by (cases cks rule: remdups_adj.cases) auto
qed

lemma ReadAt_over:
  assumes "overanswers E f S" and "group_runs_all E" and "fork_ok f" and "S s" and "p \<noteq> []"
  shows "\<exists>n buf s'. ReadAt E f p off s = Some (Ok (n, None, buf), s') \<and> S s' \<and> length buf = length p \<and>
     (if int (length p) \<le> chunkSize f then n = length p else length p < n)"
proof -
  have cs: "0 < chunkSize f" using assms(3) by (simp add: fork_ok_def)
  obtain cks where cks: "split_loop (chunkSize f) (int (length p)) 0 [] = Some cks"
    "tiles 0 (length p) cks" "\<forall>c \<in> set cks. 0 < snd c \<and> int (snd c) \<le> chunkSize f"
    using split_loop_tiles [of "chunkSize f" 0 "length p" "[]"] cs by auto
  let ?order = "group_order E (sconn s) (length cks)"
  have order: "set ?order = {0..<length cks}" using group_set [OF assms(2)] .
  have "\<exists>a s'. read_task E f off (cks ! i) s = Some (Ok a, s') \<and> S s' \<and> over_piece (cks ! i) (fst (cks ! i), a)"
    if i: "i \<in> set ?order" "S s" for i s
  proof -
    have "cks ! i \<in> set cks" using i order by simp
    then have c: "0 < snd (cks ! i)" "int (snd (cks ! i)) \<le> chunkSize f" using cks(3) by blast+
    obtain d s' where "command E (read_request f (off + int (fst (cks ! i))) (snd (cks ! i))) s = Some (Ok (d, 0), s')"
        "S s'" "snd (cks ! i) < length d"
      using assms(1) [unfolded overanswers_def, rule_format, OF i(2) c] by blast
    then show ?thesis
      by (simp add: read_task_def readChunk_def io_ret_def io_res_def ResEOF_def over_piece_def)
  qed
  from run_group_ok [where task = "\<lambda>i. read_task E f off (cks ! i)" and order = ?order and S = S
      and Q = "\<lambda>i a. over_piece (cks ! i) (fst (cks ! i), a)" and s = s and res = "\<lambda>_. None" and err = None, OF this assms(4)]
  obtain res s' where run: "run_group (\<lambda>i. read_task E f off (cks ! i)) ?order (\<lambda>_. None) None s = Some (Ok (res, None), s')" "S s'"
    and res: "\<forall>i \<in> set ?order. \<exists>a. res i = Some a \<and> over_piece (cks ! i) (fst (cks ! i), a)" by blast
  let ?xs = "map (\<lambda>i. (fst (cks ! i), case res i of None \<Rightarrow> ([], False) | Some a \<Rightarrow> a)) [0..<length cks]"
  have "list_all2 over_piece cks ?xs"
    unfolding list_all2_conv_all_nth
  proof (intro conjI allI impI)
    fix i assume "i < length cks"
    then have "i \<in> set ?order" using order by simp
    then obtain a where "res i = Some a" "over_piece (cks ! i) (fst (cks ! i), a)" using res by blast
    then show "over_piece (cks ! i) (?xs ! i)" using \<open>i < length cks\<close> by simp
  qed simp
  from reassemble_over [OF cks(2) this refl, of 0] obtain m q where
    m: "reassemble ?xs p 0 = (m, None, q)" "length q = length p"
      "if length cks \<le> 1 then m = 0 + (length p - 0) else 0 + (length p - 0) < m" by blast
  have "ReadAt E f p off s = Some (Ok (m, None, q), s')"
    using assms(5) cks(1) run(1) m(1) by (simp add: ReadAt_def io_ret_def)
  moreover have "length cks \<le> 1 \<longleftrightarrow> int (length p) \<le> chunkSize f"
  proof (cases "int (length p) \<le> chunkSize f")
    case True
    then show ?thesis using split_single(1) [of "length p" "chunkSize f"] cks(1) assms(5) by simp
  next
    case False
    then show ?thesis using split_single(2) [of "length p" "chunkSize f" cks] cks(1) cs assms(5) by simp
  qed
  ultimately show ?thesis using run(2) m(2,3) by (intro exI [of _ m] exI [of _ q] exI [of _ s']) (simp split: if_splits)
qed

text \<open>
  (C34) Against a server that answers reads with more bytes than were asked for, \<^verbatim>\<open>ReadAt\<close> counts the surplus: for every
  buffer of more than one chunk and every order of the answers it returns a count beyond the length of the buffer and no
  error, while a single chunk is clipped. The copy of \<^verbatim>\<open>writeTo\<close>, whose buffer has \<^verbatim>\<open>maxParallel\<close> chunks, ends in a panic when it
  slices the buffer at that count, unless \<^verbatim>\<open>maxParallel\<close> is one.
\<close>
theorem ReadAt_overlong:
  assumes "overanswers E f S" and "group_runs_all E" and "fork_ok f" and "S s" and "p \<noteq> []"
  shows "(\<exists>n buf s'. ReadAt E f p off s = Some (Ok (n, None, buf), s') \<and> length buf = length p \<and>
       (if int (length p) \<le> chunkSize f then n = length p else length p < n)) \<and>
     (1 < maxParallel f \<longrightarrow> chunkSize f * maxParallel f < 2 ^ 63 \<longrightarrow>
       (\<exists>s'. writeTo E f wr (s, w) = Some (Panic, (s', w))))"
proof (intro conjI impI)
  show "\<exists>n buf s'. ReadAt E f p off s = Some (Ok (n, None, buf), s') \<and> length buf = length p \<and>
      (if int (length p) \<le> chunkSize f then n = length p else length p < n)"
    using ReadAt_over [OF assms] by blast
  assume par: "1 < maxParallel f" "chunkSize f * maxParallel f < 2 ^ 63"
  have cs: "0 < chunkSize f" using assms(3) by (simp add: fork_ok_def)
  then have big: "chunkSize f < chunkSize f * maxParallel f" using par(1) by simp
  then have n: "go_int (chunkSize f * maxParallel f) = chunkSize f * maxParallel f"
    using par(2) cs by (intro go_int_small) auto
  let ?buf = "replicate (nat (chunkSize f * maxParallel f)) 0"
  have "0 < chunkSize f * maxParallel f" using big cs by linarith
  then have "?buf \<noteq> []" and "\<not> int (length ?buf) \<le> chunkSize f" using big by auto
  with ReadAt_over [OF assms(1-4), of ?buf 0] obtain m buf s' where
    "ReadAt E f ?buf 0 s = Some (Ok (m, None, buf), s')" "length buf < m" by auto
  then have "writeTo_loop E f wr ?buf 0 0 (s, w) = Some (Panic, (s', w))" by (subst writeTo_loop.simps) simp
  then show "\<exists>s'. writeTo E f wr (s, w) = Some (Panic, (s', w))"
    unfolding writeTo_def Let_def n using \<open>0 < chunkSize f * maxParallel f\<close> by simp
qed

text \<open>A server that answers every read with four bytes; two chunks of two bytes are asked for.\<close>

definition overlong_env :: "bytes \<Rightarrow> unit env" where
  "overlong_env b = serve_env 0 (\<lambda>_ _ _ c. ((b, 0), c))"

theorem ReadAt_overlong_witness:
  "(\<exists>n buf s'. ReadAt (overlong_env [1, 2, 3, 4]) sample_fork [0, 0, 0, 0] 0 (NewSession ()) = Some (Ok (n, None, buf), s') \<and> 4 < n) \<and>
   (\<exists>s'. writeTo (overlong_env [1, 2, 3, 4]) sample_fork (\<lambda>b w. (None, w @ b)) (NewSession (), []) = Some (Panic, (s', [])))"
proof -
  have over: "overanswers (overlong_env [1, 2, 3, 4]) sample_fork (\<lambda>_. True)"
    by (simp add: overanswers_def overlong_env_def sample_fork_def result_of_code_def)
  have grp: "group_runs_all (overlong_env [1, 2, 3, 4])" by (simp add: group_runs_all_def overlong_env_def)
  show ?thesis
    using ReadAt_overlong [OF over grp sample_fork_ok TrueI, of "[0, 0, 0, 0]" 0 "NewSession ()" "\<lambda>b w. (None, w @ b)" "[]"]
    by (auto simp: sample_fork_def)
qed

end
