(* ===== verification/Fork_Write.thy ===== *)
theory Fork_Write
  imports Fork
begin

text \<open>\<^verbatim>\<open>internal/afp/write.go\<close>: the concurrent write path and truncation of forks.\<close>

section \<open>Definitions\<close>

definition writeChunkHeaderLen :: int where "writeChunkHeaderLen = 1 + 1 + 2 + 8 + 8"

definition write_header :: "Fork \<Rightarrow> int \<Rightarrow> bytes \<Rightarrow> bytes" where
  "write_header f offset data =
     (let w = builder_u8 [] cmdWriteExt;
          w = builder_u8 w 0;
          w = builder_u16 w (fID f);
          w = builder_u64 w (word_of_int offset)
      in builder_u64 w (word_of_nat (length data)))"

definition writeChunk :: "'s env \<Rightarrow> Fork \<Rightarrow> int \<Rightarrow> bytes \<Rightarrow> ('s session, nat) io" where
  "writeChunk E f offset data =
     (let w = write_header f offset data;
          dataOffset = length w;
          w = builder_bytes w data in
      io_bind (commandWrite E (word_of_nat dataOffset) w) (\<lambda>(_, code).
      io_bind (io_res (of_err (resultErr ''write'' code))) (\<lambda>_.
        io_ret (length data))))"

definition writeChunkSize :: "'s env \<Rightarrow> Fork \<Rightarrow> 's session \<Rightarrow> int" where
  "writeChunkSize E f s =
     (let chunk = chunkSize f;
          q = uint (serverQuantum E s);
          chunk = (if q > 0
                   then let mx = q - writeChunkHeaderLen in if mx > 0 \<and> chunk > mx then mx else chunk
                   else chunk)
      in if chunk \<le> 0 then 32 * 1024 else chunk)"

definition write_task :: "'s env \<Rightarrow> Fork \<Rightarrow> bytes \<Rightarrow> int \<Rightarrow> nat \<times> nat \<Rightarrow> ('s session, nat) io" where
  "write_task E f p off pc =
     writeChunk E f (off + int (fst pc)) (take (snd pc) (drop (fst pc) p))"

definition WriteAt :: "'s env \<Rightarrow> Fork \<Rightarrow> bytes \<Rightarrow> int \<Rightarrow> ('s session, nat \<times> goerr option) io" where
  "WriteAt E f p off s =
     (if length p = 0 then Some (Ok (0, None), s)
      else case split_loop (writeChunkSize E f s) (int (length p)) 0 [] of
        None \<Rightarrow> None
      | Some pieces \<Rightarrow>
          io_bind (run_group (\<lambda>i. write_task E f p off (pieces ! i))
                     (group_order E (sconn s) (length pieces)) (\<lambda>_. None) None)
            (\<lambda>(written, err). io_ret
               (sum_list (map (\<lambda>i. case written i of None \<Rightarrow> 0 | Some n \<Rightarrow> n) [0..<length pieces]), err)) s)"

text \<open>
  \<^verbatim>\<open>io.ReadFull\<close> from a source that yields its bytes and then fails with its error: the data read,
  the error of the call and the source after it.
\<close>

type_synonym source = "bytes \<times> goerr"

definition ReadFull :: "nat \<Rightarrow> source \<Rightarrow> bytes \<times> goerr option \<times> source" where
  "ReadFull n src = (case src of (b, e) \<Rightarrow>
     (take n b,
      if n \<le> length b then None
      else if e = EOF \<and> b \<noteq> [] then Some ErrUnexpectedEOF
      else Some e,
      (drop n b, e)))"

partial_function (option) readFrom_loop ::
    "'s env \<Rightarrow> Fork \<Rightarrow> nat \<Rightarrow> int \<Rightarrow> 's session \<times> source \<Rightarrow>
     ((int \<times> goerr option) res \<times> ('s session \<times> source)) option" where
  "readFrom_loop E f n tot st =
     (case ReadFull n (snd st) of (data, err, src) \<Rightarrow>
        (case (if length data > 0 then WriteAt E f data tot (fst st) else Some (Ok (0, None), fst st)) of
           None \<Rightarrow> None
         | Some (Panic, s) \<Rightarrow> Some (Panic, (s, src))
         | Some (Err e, s) \<Rightarrow> Some (Err e, (s, src))
         | Some (Ok (_, Some werr), s) \<Rightarrow> Some (Ok (tot, Some werr), (s, src))
         | Some (Ok (_, None), s) \<Rightarrow>
             let tot = tot + int (length data) in
             if err = Some EOF \<or> err = Some ErrUnexpectedEOF then Some (Ok (tot, None), (s, src))
             else if err \<noteq> None then Some (Ok (tot, err), (s, src))
             else readFrom_loop E f n tot (s, src)))"

definition readFrom :: "'s env \<Rightarrow> Fork \<Rightarrow> ('s session \<times> source, int \<times> goerr option) io" where
  "readFrom E f st =
     (let n = go_int (writeChunkSize E f (fst st) * maxParallel f)
      in if n < 0 then Some (Panic, st) else readFrom_loop E f (nat n) 0 st)"

definition ReadFrom :: "'s env \<Rightarrow> Fork \<Rightarrow> ('s session \<times> source, int \<times> goerr option) io" where
  "ReadFrom E f = readFrom E f"

definition ReadFromContext :: "'s env \<Rightarrow> Fork \<Rightarrow> ('s session \<times> source, int \<times> goerr option) io" where
  "ReadFromContext E f = readFrom E f"

definition truncate_request :: "Fork \<Rightarrow> int \<Rightarrow> bytes" where
  "truncate_request f sz =
     (let w = builder_u8 [] cmdSetForkParms;
          w = builder_u8 w 0;
          w = builder_u16 w (fID f)
      in if sz \<le> 0xFFFFFFFF
         then builder_u32 (builder_u16 w kFPDataForkLenBit) (word_of_int sz)
         else builder_u64 (builder_u16 w kFPExtDataForkLenBit) (word_of_int sz))"

definition Fork_Truncate :: "'s env \<Rightarrow> Fork \<Rightarrow> int \<Rightarrow> ('s session, unit) io" where
  "Fork_Truncate E f sz = simple_command E ''truncate'' (truncate_request f sz)"

section \<open>Writing into a file\<close>

text \<open>The effect of a write at an offset, with the hole before it filled with zeros.\<close>

definition byte_at :: "bytes \<Rightarrow> nat \<Rightarrow> byte" where
  "byte_at F i = (if i < length F then F ! i else 0)"

definition write_at :: "bytes \<Rightarrow> nat \<Rightarrow> bytes \<Rightarrow> bytes" where
  "write_at F off d =
     (if d = [] then F
      else take off F @ replicate (off - length F) 0 @ d @ drop (off + length d) F)"

lemma length_write_at:
  "length (write_at F off d) = (if d = [] then length F else max (length F) (off + length d))"
  by (auto simp: write_at_def)

lemma byte_at_write_at:
  "byte_at (write_at F off d) i =
     (if off \<le> i \<and> i < off + length d then d ! (i - off) else byte_at F i)"
  by (cases "off \<le> length F") (auto simp: byte_at_def write_at_def nth_append not_less min_def)

lemma file_eqI: "length F = length G \<Longrightarrow> (\<And>i. byte_at F i = byte_at G i) \<Longrightarrow> F = G"
  by (metis byte_at_def nth_equalityI)

text \<open>
  \<open>partly F off p cks D G\<close>: \<open>G\<close> is the file \<open>F\<close> after the pieces of \<open>p\<close> numbered in \<open>D\<close> have been
  written from \<open>off\<close> on.
\<close>

definition in_piece :: "nat \<Rightarrow> nat \<times> nat \<Rightarrow> nat \<Rightarrow> bool" where
  "in_piece off c i \<longleftrightarrow> off + fst c \<le> i \<and> i < off + fst c + snd c"

definition partly :: "bytes \<Rightarrow> nat \<Rightarrow> bytes \<Rightarrow> (nat \<times> nat) list \<Rightarrow> nat set \<Rightarrow> bytes \<Rightarrow> bool" where
  "partly F off p cks D G \<longleftrightarrow>
     length G = Max (insert (length F) ((\<lambda>k. off + fst (cks ! k) + snd (cks ! k)) ` D)) \<and>
     (\<forall>i. byte_at G i = (if \<exists>k \<in> D. in_piece off (cks ! k) i then p ! (i - off) else byte_at F i))"

lemma partly_step:
  assumes "partly F off p cks D G" and "finite D"
    and "0 < snd (cks ! k)" and "fst (cks ! k) + snd (cks ! k) \<le> length p"
  shows "partly F off p cks (insert k D)
     (write_at G (off + fst (cks ! k)) (take (snd (cks ! k)) (drop (fst (cks ! k)) p)))"
proof -
  let ?st = "fst (cks ! k)" and ?w = "snd (cks ! k)"
  let ?d = "take ?w (drop ?st p)" and ?L = "(\<lambda>k. off + fst (cks ! k) + snd (cks ! k)) ` D"
  have len: "length ?d = ?w" "?d \<noteq> []" using assms(3,4) by auto
  have "length (write_at G (off + ?st) ?d) = max (length G) (off + ?st + ?w)"
    using len by (simp add: length_write_at del: length_take)
  also have "length G = Max (insert (length F) ?L)" using assms(1) by (simp add: partly_def)
  also have "max (Max (insert (length F) ?L)) (off + ?st + ?w) =
      Max (insert (length F) ((\<lambda>k. off + fst (cks ! k) + snd (cks ! k)) ` insert k D))"
    using assms(2) Max_insert [of "insert (length F) ?L" "off + ?st + ?w"]
    by (simp only: image_insert insert_commute [of "length F"] finite_insert finite_imageI
        insert_not_empty not_False_eq_True max.commute)
  finally have 1: "length (write_at G (off + ?st) ?d) =
      Max (insert (length F) ((\<lambda>k. off + fst (cks ! k) + snd (cks ! k)) ` insert k D))" .
  have "byte_at (write_at G (off + ?st) ?d) i =
      (if \<exists>j \<in> insert k D. in_piece off (cks ! j) i then p ! (i - off) else byte_at F i)" for i
  proof (cases "in_piece off (cks ! k) i")
    case True
    then obtain j where "i = off + ?st + j" "j < ?w"
      by (metis in_piece_def le_Suc_ex nat_add_left_cancel_less)
    then have "?d ! (i - (off + ?st)) = p ! (i - off)"
      using assms(4) by simp
    with True len show ?thesis by (simp add: byte_at_write_at in_piece_def del: length_take)
  next
    case False
    with len assms(1) show ?thesis
      by (auto simp: byte_at_write_at in_piece_def partly_def simp del: length_take)
  qed
  with 1 show ?thesis by (simp add: partly_def)
qed

lemma tiles_cover:
  assumes "tiles pos n cks" and "pos \<le> i" and "i < n"
  shows "\<exists>k < length cks. fst (cks ! k) \<le> i \<and> i < fst (cks ! k) + snd (cks ! k)"
  using assms
proof (induction pos n cks rule: tiles.induct)
  case (2 pos n start w cs)
  show ?case
  proof (cases "i < pos + w")
    case True
    with 2(2,3) show ?thesis by (intro exI [of _ 0]) simp
  next
    case False
    then obtain k where "k < length cs" "fst (cs ! k) \<le> i \<and> i < fst (cs ! k) + snd (cs ! k)"
      using 2 by auto
    then show ?thesis by (intro exI [of _ "Suc k"]) simp
  qed
qed simp

lemma tiles_within: "tiles pos n cks \<Longrightarrow> c \<in> set cks \<Longrightarrow> pos \<le> fst c \<and> fst c + snd c \<le> n"
  by (induction pos n cks rule: tiles.induct) (auto dest: tiles_le)

lemma tiles_sum: "tiles pos n cks \<Longrightarrow> pos + sum_list (map snd cks) = n"
  by (induction pos n cks rule: tiles.induct) auto

lemma partly_all:
  assumes "partly F off p cks {0..<length cks} G" and "tiles 0 (length p) cks" and "p \<noteq> []"
  shows "G = write_at F off p"
proof (rule file_eqI)
  let ?e = "\<lambda>k. off + fst (cks ! k) + snd (cks ! k)"
  obtain k where k: "k < length cks" "length p - 1 < fst (cks ! k) + snd (cks ! k)"
    using tiles_cover [OF assms(2), of "length p - 1"] assms(3) by auto
  have within: "fst (cks ! j) + snd (cks ! j) \<le> length p" if "j < length cks" for j
    using tiles_within [OF assms(2) nth_mem [OF that]] by simp
  have "Max (insert (length F) (?e ` {0..<length cks})) = max (length F) (off + length p)"
  proof (rule Max_eqI)
    have "?e k = off + length p" using k(2) within [OF k(1)] by linarith
    then have "off + length p \<in> ?e ` {0..<length cks}" using k(1) by (intro image_eqI [of _ _ k]) auto
    then show "max (length F) (off + length p) \<in> insert (length F) (?e ` {0..<length cks})"
      by (simp add: max_def)
    show "y \<le> max (length F) (off + length p)" if "y \<in> insert (length F) (?e ` {0..<length cks})" for y
    proof (cases "y = length F")
      case False
      with that obtain j where "j < length cks" "y = ?e j" by auto
      with within [of j] show ?thesis by simp
    qed simp
  qed simp
  with assms(1,3) show "length G = length (write_at F off p)"
    by (simp add: partly_def length_write_at)
  fix i
  have "(\<exists>k \<in> {0..<length cks}. in_piece off (cks ! k) i) \<longleftrightarrow> off \<le> i \<and> i < off + length p"
  proof
    assume i: "off \<le> i \<and> i < off + length p"
    then have "0 \<le> i - off" "i - off < length p" by auto
    from tiles_cover [OF assms(2) this] obtain k where
      "k < length cks" "fst (cks ! k) \<le> i - off" "i - off < fst (cks ! k) + snd (cks ! k)" by blast
    with i show "\<exists>k \<in> {0..<length cks}. in_piece off (cks ! k) i"
      by (intro bexI [of _ k]) (auto simp: in_piece_def)
  next
    assume "\<exists>k \<in> {0..<length cks}. in_piece off (cks ! k) i"
    then obtain k where "k < length cks" "in_piece off (cks ! k) i" by auto
    with within [of k] show "off \<le> i \<and> i < off + length p" by (auto simp: in_piece_def)
  qed
  with assms(1) show "byte_at G i = byte_at (write_at F off p) i"
    by (simp add: partly_def byte_at_write_at)
qed

section \<open>The contract of the server\<close>

text \<open>
  A write request fits when it is no longer than the quantum the server announced, and its length has
  32 bits. A server that holds the file \<open>content s\<close> in the fork applies every write that fits.
\<close>

definition write_fits :: "32 word \<Rightarrow> nat \<Rightarrow> bool" where
  "write_fits q n \<longleftrightarrow> (unat q > 20 \<longrightarrow> 20 + n \<le> unat q) \<and> 20 + n < 2 ^ 32"

definition wfork_ok :: "Fork \<Rightarrow> bool" where
  "wfork_ok f \<longleftrightarrow> fork_ok f \<and> chunkSize f < 2 ^ 31"

definition accepts_writes :: "'s env \<Rightarrow> Fork \<Rightarrow> ('s session \<Rightarrow> bytes) \<Rightarrow> ('s session \<Rightarrow> bool) \<Rightarrow> bool" where
  "accepts_writes E f content S \<longleftrightarrow>
     (\<forall>s off d. S s \<longrightarrow> off + length d < 2 ^ 63 \<longrightarrow> write_fits (serverQuantum E s) (length d) \<longrightarrow>
        (\<exists>reply s'. commandWrite E 20 (write_header f (int off) d @ d) s = Some (Ok (reply, 0), s') \<and>
           S s' \<and> serverQuantum E s' = serverQuantum E s \<and> content s' = write_at (content s) off d))"

lemma length_write_header [simp]: "length (write_header f off d) = 20"
  by (simp add: write_header_def builder_defs Let_def)

lemma writeChunkSize_pos: "0 < writeChunkSize E f s"
  by (simp add: writeChunkSize_def Let_def)

lemma writeChunkSize_fits:
  assumes "wfork_ok f" and "int n \<le> writeChunkSize E f s"
  shows "write_fits (serverQuantum E s) n"
proof -
  have pos: "0 < chunkSize f" and bound: "chunkSize f < 2 ^ 31" using assms(1) by (simp_all add: wfork_ok_def fork_ok_def)
  have "writeChunkSize E f s \<le> chunkSize f" using pos by (auto simp: writeChunkSize_def Let_def)
  with assms(2) bound have "20 + n < 2 ^ 32" by simp
  moreover
  have "20 < uint (serverQuantum E s) \<longrightarrow> int n + 20 \<le> uint (serverQuantum E s)"
    using pos assms(2) by (auto simp: writeChunkSize_def Let_def writeChunkHeaderLen_def split: if_split_asm)
  moreover have "uint (serverQuantum E s) = int (unat (serverQuantum E s))" by simp
  ultimately show ?thesis unfolding write_fits_def by linarith
qed

lemma writeChunk_content:
  assumes "accepts_writes E f content S" and "S s" and "off + length d < 2 ^ 63"
    and "write_fits (serverQuantum E s) (length d)"
  shows "\<exists>s'. writeChunk E f (int off) d s = Some (Ok (length d), s') \<and> S s'
     \<and> serverQuantum E s' = serverQuantum E s \<and> content s' = write_at (content s) off d"
proof -
  obtain reply s' where "commandWrite E 20 (write_header f (int off) d @ d) s = Some (Ok (reply, 0), s')"
    "S s' \<and> serverQuantum E s' = serverQuantum E s \<and> content s' = write_at (content s) off d"
    using assms unfolding accepts_writes_def by blast
  then show ?thesis
    by (simp add: writeChunk_def builder_bytes_def Let_def io_res_def io_ret_def)
qed

section \<open>WriteAt\<close>

lemma write_task_content:
  assumes "accepts_writes E f content S" and "S s" and "serverQuantum E s = serverQuantum E s0"
    and "wfork_ok f" and "int (snd c) \<le> writeChunkSize E f s0"
    and "fst c + snd c \<le> length p" and "off + length p < 2 ^ 63"
  shows "\<exists>s'. write_task E f p (int off) c s = Some (Ok (snd c), s') \<and> S s'
     \<and> serverQuantum E s' = serverQuantum E s0
     \<and> content s' = write_at (content s) (off + fst c) (take (snd c) (drop (fst c) p))"
proof -
  let ?d = "take (snd c) (drop (fst c) p)"
  have len: "length ?d = snd c" using assms(6) by simp
  have "write_fits (serverQuantum E s) (length ?d)"
    unfolding len using writeChunkSize_fits [OF assms(4,5)] assms(3) by simp
  with writeChunk_content [OF assms(1,2), of "off + fst c" ?d] assms(3,6,7) len show ?thesis
    by (auto simp: write_task_def)
qed

lemma WriteAt_content:
  assumes "accepts_writes E f content S" and "group_runs_all E" and "wfork_ok f" and "S s"
    and "off + length p < 2 ^ 63"
  shows "\<exists>s'. WriteAt E f p (int off) s = Some (Ok (length p, None), s') \<and> S s'
     \<and> serverQuantum E s' = serverQuantum E s \<and> content s' = write_at (content s) off p"
proof (cases "p = []")
  case True
  then show ?thesis using assms(4) by (simp add: WriteAt_def write_at_def)
next
  case False
  obtain cks where cks: "split_loop (writeChunkSize E f s) (int (length p)) 0 [] = Some cks"
    "tiles 0 (length p) cks"
    "\<forall>c \<in> set cks. 0 < snd c \<and> int (snd c) \<le> writeChunkSize E f s \<and> fst c + snd c \<le> length p"
    using split_loop_tiles [OF writeChunkSize_pos [of E f s], of 0 "length p" "[]"] by auto
  let ?order = "group_order E (sconn s) (length cks)" and ?F = "content s"
  let ?J = "\<lambda>D s'. S s' \<and> finite D \<and> serverQuantum E s' = serverQuantum E s \<and> partly ?F off p cks D (content s')"
  have order: "set ?order = {0..<length cks}" using group_set [OF assms(2)] .
  have step: "\<exists>a s2. write_task E f p (int off) (cks ! i) s1 = Some (Ok a, s2) \<and> ?J (insert i D) s2
      \<and> a = snd (cks ! i)" if "i \<in> set ?order" "?J D s1" for i D s1
  proof -
    have c: "0 < snd (cks ! i)" "int (snd (cks ! i)) \<le> writeChunkSize E f s"
        "fst (cks ! i) + snd (cks ! i) \<le> length p"
      using cks(3) that(1) order nth_mem [of i cks] by auto
    from that(2) assms(3,5) obtain s2 where
      "write_task E f p (int off) (cks ! i) s1 = Some (Ok (snd (cks ! i)), s2)" "S s2"
      "serverQuantum E s2 = serverQuantum E s"
      "content s2 = write_at (content s1) (off + fst (cks ! i))
         (take (snd (cks ! i)) (drop (fst (cks ! i)) p))"
      using write_task_content [OF assms(1) _ _ _ c(2,3), of s1 off] by auto
    then show ?thesis using that(2) partly_step [OF _ _ c(1,3), of ?F off D "content s1"] by simp
  qed
  have "?J {} s" using assms(4) by (simp add: partly_def)
  from run_group_inv [where task = "\<lambda>i. write_task E f p (int off) (cks ! i)" and order = ?order and J = ?J
      and Q = "\<lambda>i a. a = snd (cks ! i)" and D = "{}" and s = s and res = "\<lambda>_. None" and err = None, OF step this]
  obtain res s' where run: "run_group (\<lambda>i. write_task E f p (int off) (cks ! i)) ?order (\<lambda>_. None) None s =
      Some (Ok (res, None), s')" and J: "?J {0..<length cks} s'"
    and res: "\<forall>i \<in> {0..<length cks}. res i = Some (snd (cks ! i))"
    unfolding order by auto
  have "map (\<lambda>i. case res i of None \<Rightarrow> 0 | Some n \<Rightarrow> n) [0..<length cks] = map snd cks"
    by (rule nth_equalityI) (use res in auto)
  then have "WriteAt E f p (int off) s = Some (Ok (length p, None), s')"
    using False cks(1) run tiles_sum [OF cks(2)] by (simp add: WriteAt_def io_ret_def)
  with J partly_all [OF _ cks(2) False] show ?thesis by blast
qed

text \<open>
  (C4) Concurrent writes have the effect of one write: for every order in which the overlapping
  chunk requests of one \<^verbatim>\<open>WriteAt\<close> are served, the call returns with the full count and no error,
  and the file is the old one with the buffer written at \<^verbatim>\<open>off\<close>. No request exceeds the quantum the
  server announced: the server is only assumed to accept requests within it.
\<close>
theorem WriteAt_correct:
  assumes "accepts_writes E f content S" and "group_runs_all E" and "wfork_ok f" and "S s"
    and "off + length p < 2 ^ 63"
  shows "\<exists>s'. WriteAt E f p (int off) s = Some (Ok (length p, None), s')
     \<and> content s' = write_at (content s) off p"
  using WriteAt_content [OF assms] by blast

text \<open>A server that holds one file, announces a quantum and refuses longer requests.\<close>

definition disk_env :: "32 word \<Rightarrow> bytes env" where
  "disk_env q = serve_env q (\<lambda>_ _ p F.
     let off = unat (get64 (take 8 (drop 4 p))); d = drop 20 p in
     if write_fits q (length d) then (([], 0), write_at F off d) else (([], word_of_int ResParamErr), F))"

lemma write_header_fields:
  "take 8 (drop 4 (write_header f off d @ d)) = put64 (word_of_int off)" "drop 20 (write_header f off d @ d) = d"
  by (simp_all add: write_header_def builder_defs Let_def)

lemma disk_env_accepts: "accepts_writes (disk_env q) f sconn (\<lambda>_. True)"
  unfolding accepts_writes_def
proof (intro allI impI)
  fix s :: "bytes session" and off and d :: bytes
  assume "off + length d < 2 ^ 63" and fits: "write_fits (serverQuantum (disk_env q) s) (length d)"
  then have off: "off < 2 ^ 63" by simp
  show "\<exists>reply s'. commandWrite (disk_env q) 20 (write_header f (int off) d @ d) s = Some (Ok (reply, 0), s') \<and>
      True \<and> serverQuantum (disk_env q) s' = serverQuantum (disk_env q) s \<and>
      sconn s' = write_at (sconn s) off d"
    using fits
    unfolding disk_env_def serve_env_command write_header_fields get_put of_int_of_nat_eq Let_def
      unat_off64 [OF off]
    by (simp add: result_of_code_def)
qed

lemma disk_env_group: "group_runs_all (disk_env q)"
  by (simp add: group_runs_all_def disk_env_def)

lemma sample_wfork_ok: "wfork_ok sample_fork"
  using sample_fork_ok by (simp add: wfork_ok_def sample_fork_def)

theorem WriteAt_correct_witness:
  "\<exists>s'. WriteAt (disk_env 21) sample_fork [7, 8, 9] 1 (NewSession [1, 2]) = Some (Ok (3, None), s')
     \<and> sconn s' = [1, 7, 8, 9]"
proof -
  have "\<exists>s'. WriteAt (disk_env 21) sample_fork [7, 8, 9] (int 1) (NewSession [1, 2]) =
      Some (Ok (length [7, 8, 9 :: byte], None), s') \<and> sconn s' = write_at (sconn (NewSession [1, 2])) 1 [7, 8, 9]"
    by (rule WriteAt_correct [OF disk_env_accepts disk_env_group sample_wfork_ok TrueI]) simp
  then show ?thesis by (simp add: NewSession_def write_at_def numeral_eq_Suc)
qed

section \<open>ReadFrom\<close>

lemma write_at_append: "write_at (write_at F k d) (k + length d) e = write_at F k (d @ e)"
proof (cases "d = [] \<or> e = []")
  case True
  then show ?thesis by (auto simp: write_at_def)
next
  case False
  show ?thesis
  proof (rule file_eqI)
    show "length (write_at (write_at F k d) (k + length d) e) = length (write_at F k (d @ e))"
      using False by (simp add: length_write_at)
    show "byte_at (write_at (write_at F k d) (k + length d) e) i = byte_at (write_at F k (d @ e)) i" for i
      by (auto simp: byte_at_write_at nth_append)
  qed
qed

lemma readFrom_loop_step:
  assumes "ReadFull n src = (data, err, src')"
    and "(if length data > 0 then WriteAt E f data tot s else Some (Ok (0, None), s)) = Some (Ok (k, None), s')"
  shows "readFrom_loop E f n tot (s, src) =
     (if err = Some EOF \<or> err = Some ErrUnexpectedEOF then Some (Ok (tot + int (length data), None), (s', src'))
      else if err \<noteq> None then Some (Ok (tot + int (length data), err), (s', src'))
      else readFrom_loop E f n (tot + int (length data)) (s', src'))"
  using assms(2)
  by (subst readFrom_loop.simps) (cases "length data > 0"; simp add: assms(1) Let_def)

lemma readFrom_loop_content:
  assumes "accepts_writes E f content S" and "group_runs_all E" and "wfork_ok f" and "0 < n"
    and "S s" and "k + length b < 2 ^ 63"
  shows "\<exists>s'. readFrom_loop E f n (int k) (s, (b, EOF)) = Some (Ok (int (k + length b), None), (s', ([], EOF)))
     \<and> S s' \<and> content s' = write_at (content s) k b"
  using assms(5,6)
proof (induction "length b" arbitrary: b k s rule: less_induct)
  case less
  let ?d = "take n b"
  have "k + length ?d < 2 ^ 63" using less.prems(2) by simp
  from WriteAt_content [OF assms(1-3) less.prems(1) this] obtain s1 where
    w: "WriteAt E f ?d (int k) s = Some (Ok (length ?d, None), s1)" "S s1"
      "content s1 = write_at (content s) k ?d" by blast
  define s2 where "s2 = (if length ?d > 0 then s1 else s)"
  have w2: "(if length ?d > 0 then WriteAt E f ?d (int k) s else Some (Ok (0, None), s)) =
      Some (Ok (length ?d, None), s2)" "S s2" "content s2 = write_at (content s) k ?d"
    using w less.prems(1) by (auto simp: s2_def write_at_def)
  show ?case
  proof (cases "n \<le> length b")
    case True
    have r: "ReadFull n (b, EOF) = (?d, None, (drop n b, EOF))" using True by (simp add: ReadFull_def)
    have d: "length ?d = n" using True by simp
    have "length (drop n b) < length b" "k + n + length (drop n b) < 2 ^ 63"
      using True assms(4) less.prems(2) by auto
    from less.hyps [OF this(1) w2(2) this(2)] obtain s' where
      "readFrom_loop E f n (int (k + n)) (s2, (drop n b, EOF)) =
        Some (Ok (int (k + n + length (drop n b)), None), (s', ([], EOF)))" "S s'"
      "content s' = write_at (content s2) (k + n) (drop n b)" by blast
    moreover have "write_at (content s2) (k + n) (drop n b) = write_at (content s) k b"
      using w2(3) write_at_append [of "content s" k ?d "drop n b"] d by simp
    ultimately show ?thesis
      using readFrom_loop_step [OF r w2(1)] True d by simp
  next
    case False
    then have r: "ReadFull n (b, EOF) = (b, Some (if b = [] then EOF else ErrUnexpectedEOF), ([], EOF))"
      and d: "?d = b" by (simp_all add: ReadFull_def)
    show ?thesis
      using readFrom_loop_step [OF r w2(1) [unfolded d]] w2(2) w2(3) [unfolded d] by (cases "b = []") simp_all
  qed
qed

lemma readFrom_content:
  assumes "accepts_writes E f content S" and "group_runs_all E" and "wfork_ok f" and "S s"
    and "length b < 2 ^ 63" and "writeChunkSize E f s * maxParallel f < 2 ^ 63"
  shows "\<exists>s'. readFrom E f (s, (b, EOF)) = Some (Ok (int (length b), None), (s', ([], EOF)))
     \<and> S s' \<and> content s' = write_at (content s) 0 b"
proof -
  have pos: "0 < writeChunkSize E f s * maxParallel f"
    using writeChunkSize_pos [of E f s] assms(3) by (simp add: wfork_ok_def fork_ok_def)
  then have n: "go_int (writeChunkSize E f s * maxParallel f) = writeChunkSize E f s * maxParallel f"
    using assms(6) by (intro go_int_small) auto
  then have "\<exists>s'. readFrom_loop E f (nat (writeChunkSize E f s * maxParallel f)) (int 0) (s, (b, EOF)) =
      Some (Ok (int (0 + length b), None), (s', ([], EOF))) \<and> S s' \<and> content s' = write_at (content s) 0 b"
    using pos assms(5) by (intro readFrom_loop_content [OF assms(1-3) _ assms(4)]) auto
  with n pos show ?thesis by (simp add: readFrom_def Let_def)
qed

text \<open>
  (C26) \<^verbatim>\<open>ReadFrom\<close> uploads the whole source: the copy ends, every byte of a source that ends in
  \<^verbatim>\<open>io.EOF\<close> is written from offset 0 on, the count is its length and no error is reported. The rest of
  a longer file is left as it was.
\<close>
theorem readFrom_correct:
  assumes "accepts_writes E f content S" and "group_runs_all E" and "wfork_ok f" and "S s"
    and "length b < 2 ^ 63" and "writeChunkSize E f s * maxParallel f < 2 ^ 63"
  shows "\<exists>s'. readFrom E f (s, (b, EOF)) = Some (Ok (int (length b), None), (s', ([], EOF)))
     \<and> content s' = write_at (content s) 0 b"
  using readFrom_content [OF assms] by blast

theorem readFrom_correct_witness:
  "\<exists>s'. readFrom (disk_env 21) sample_fork (NewSession [], ([1, 2, 3, 4, 5], EOF)) =
      Some (Ok (5, None), (s', ([], EOF))) \<and> sconn s' = [1, 2, 3, 4, 5]"
proof -
  have "writeChunkSize (disk_env 21) sample_fork (NewSession []) * maxParallel sample_fork < 2 ^ 63"
    by (simp add: writeChunkSize_def sample_fork_def disk_env_def writeChunkHeaderLen_def Let_def)
  then have "\<exists>s'. readFrom (disk_env 21) sample_fork (NewSession [], ([1, 2, 3, 4, 5], EOF)) =
      Some (Ok (int (length [1, 2, 3, 4, 5 :: byte]), None), (s', ([], EOF)))
      \<and> sconn s' = write_at (sconn (NewSession [])) 0 [1, 2, 3, 4, 5]"
    by (intro readFrom_correct [OF disk_env_accepts disk_env_group sample_wfork_ok TrueI]) simp_all
  then show ?thesis by (simp add: NewSession_def write_at_def)
qed

section \<open>Truncate\<close>

text \<open>The length a server reads off an \<^verbatim>\<open>FPSetForkParms\<close> request.\<close>

definition requested_length :: "bytes \<Rightarrow> int option" where
  "requested_length req =
     (let bm = get16 (take 2 (drop 4 req)); v = drop 6 req in
      if bm = kFPDataForkLenBit \<and> length v = 4 then Some (uint (get32 v))
      else if bm = kFPExtDataForkLenBit \<and> length v = 8 then Some (uint (get64 v))
      else None)"

text \<open>
  \<^verbatim>\<open>Truncate\<close> asks for exactly the given length on both sides of the 4 GiB boundary, with the
  short form of the request where the length fits it; the result code of the server is its error.
\<close>
theorem Truncate_exact:
  assumes "0 \<le> sz" and "sz < 2 ^ 63"
    and "command E (truncate_request f sz) s = Some (Ok (reply, code), s')"
  shows "requested_length (truncate_request f sz) = Some sz
     \<and> length (truncate_request f sz) = (if sz < 2 ^ 32 then 10 else 14)
     \<and> Fork_Truncate E f sz s = Some (if code = 0 then Ok () else Err (AfpError ''truncate'' code), s')"
proof -
  have 64: "uint (word_of_int sz :: 64 word) = sz"
    using assms(1,2) by (simp add: unsigned_of_int take_bit_int_eq_self)
  have 32: "sz \<le> 0xFFFFFFFF \<Longrightarrow> uint (word_of_int sz :: 32 word) = sz"
    using assms(1) by (simp add: unsigned_of_int take_bit_int_eq_self)
  have "requested_length (truncate_request f sz) = Some sz"
    using 64 32
    by (auto simp: requested_length_def truncate_request_def builder_defs Let_def kFP_defs
        )
  moreover have "length (truncate_request f sz) = (if sz < 2 ^ 32 then 10 else 14)"
    by (simp add: truncate_request_def builder_defs Let_def)
  ultimately show ?thesis
    using assms(3) by (simp add: Fork_Truncate_def simple_command_def of_err_resultErr io_res_def)
qed

theorem Truncate_exact_witness:
  "requested_length (truncate_request sample_fork 0x100000000) = Some 0x100000000
   \<and> Fork_Truncate (overlong_env []) sample_fork 0x100000000 (NewSession ()) = Some (Ok (), NewSession ())"
  using Truncate_exact [of "0x100000000" "overlong_env []" sample_fork "NewSession ()" "[]" 0 "NewSession ()"]
  by (simp add: overlong_env_def result_of_code_def NewSession_def)

section \<open>The write path over any sound transport\<close>

context afp_layer
begin

lemma write_task_safe: "io_safe sound (write_task E f p off c)"
  unfolding write_task_def writeChunk_def Let_def
  by (intro io_safe_bind io_safe_prod io_safe_res commandWrite_safe io_safe_ret) simp

lemma WriteAt_safe: "io_safe sound (WriteAt E f p off)"
  unfolding io_safe_def
proof (intro allI impI)
  fix s assume s: "sound s"
  obtain cks where cks: "split_loop (writeChunkSize E f s) (int (length p)) 0 [] = Some cks"
    using split_loop_tiles [OF writeChunkSize_pos [of E f s], of 0 "length p" "[]"] by auto
  have "io_safe sound (io_bind (run_group (\<lambda>i. write_task E f p off (cks ! i))
      (group_order E (sconn s) (length cks)) (\<lambda>_. None) None)
      (\<lambda>(written, err). io_ret
         (sum_list (map (\<lambda>i. case written i of None \<Rightarrow> 0 | Some n \<Rightarrow> n) [0..<length cks]), err)))"
    by (intro io_safe_bind io_safe_prod run_group_safe write_task_safe io_safe_ret)
  from io_safeD [OF this s] show "\<exists>r s'. WriteAt E f p off s = Some (r, s') \<and> r \<noteq> Panic \<and> sound s'"
    using cks s by (cases "p = []") (simp_all add: WriteAt_def)
qed

lemma Fork_Truncate_safe [intro!]: "io_safe sound (Fork_Truncate E f sz)"
  unfolding Fork_Truncate_def by (rule simple_command_safe)

end

end
