(* ===== verification/Vol_Ops.thy ===== *)
theory Vol_Ops
  imports Session
begin

text \<open>
  \<^verbatim>\<open>internal/afp/ops.go\<close> and \<^verbatim>\<open>internal/afp/setparams.go\<close>: creating, deleting and renaming objects,
  setting their parameters, and the capacity of a volume.
\<close>

section \<open>Definitions\<close>

definition createSoft :: "8 word" where "createSoft = 0x00"
definition createHard :: "8 word" where "createHard = 0x80"

definition create_request :: "'s env \<Rightarrow> Volume \<Rightarrow> 32 word \<Rightarrow> string \<Rightarrow> bool \<Rightarrow> bytes" where
  "create_request E v dirID path overwrite =
     (let flag = (if overwrite then createHard else createSoft);
          w = builder_u8 [] cmdCreateFile;
          w = builder_u8 w flag;
          w = builder_u16 w (vID v);
          w = builder_u32 w dirID
      in builder_path (norm_nfd E) w path)"

definition CreateFile :: "'s env \<Rightarrow> Volume \<Rightarrow> 32 word \<Rightarrow> string \<Rightarrow> bool \<Rightarrow> ('s session, unit) io" where
  "CreateFile E v dirID path overwrite =
     simple_command E (''create '' @ path) (create_request E v dirID path overwrite)"

definition Mkdir :: "'s env \<Rightarrow> Volume \<Rightarrow> 32 word \<Rightarrow> string \<Rightarrow> ('s session, unit) io" where
  "Mkdir E v dirID path =
     (let w = builder_u8 [] cmdCreateDir;
          w = builder_u8 w 0;
          w = builder_u16 w (vID v);
          w = builder_u32 w dirID;
          w = builder_path (norm_nfd E) w path
      in simple_command E (''mkdir '' @ path) w)"

definition Delete :: "'s env \<Rightarrow> Volume \<Rightarrow> 32 word \<Rightarrow> string \<Rightarrow> ('s session, unit) io" where
  "Delete E v dirID path =
     (let w = builder_u8 [] cmdDelete;
          w = builder_u8 w 0;
          w = builder_u16 w (vID v);
          w = builder_u32 w dirID;
          w = builder_path (norm_nfd E) w path
      in simple_command E (''delete '' @ path) w)"

text \<open>\<^verbatim>\<open>strings.LastIndex(p, "/")\<close>, \<open>None\<close> for \<open>-1\<close>.\<close>

definition last_slash :: "string \<Rightarrow> nat option" where
  "last_slash p =
     (case dropWhile (\<lambda>c. c \<noteq> CHR ''/'') (rev p) of
        [] \<Rightarrow> None
      | _ # r \<Rightarrow> Some (length r))"

definition splitPath :: "string \<Rightarrow> string \<times> string" where
  "splitPath p =
     (let p = trim_slash p in
      case last_slash p of
        Some i \<Rightarrow> (take i p, drop (i + 1) p)
      | None \<Rightarrow> ([], p))"

definition rename_request :: "'s env \<Rightarrow> Volume \<Rightarrow> 32 word \<Rightarrow> string \<Rightarrow> string \<Rightarrow> bytes" where
  "rename_request E v dirID from to =
     (let (destDir, newName) = splitPath to;
          w = builder_u8 [] cmdMoveAndRename;
          w = builder_u8 w 0;
          w = builder_u16 w (vID v);
          w = builder_u32 w dirID;
          w = builder_u32 w dirID;
          w = builder_path (norm_nfd E) w from;
          w = builder_path (norm_nfd E) w destDir
      in builder_path (norm_nfd E) w newName)"

definition Rename :: "'s env \<Rightarrow> Volume \<Rightarrow> 32 word \<Rightarrow> string \<Rightarrow> string \<Rightarrow> ('s session, unit) io" where
  "Rename E v dirID from to = simple_command E (''rename '' @ from) (rename_request E v dirID from to)"

subsection \<open>Parameters\<close>

definition writeParamsHeader :: "'s env \<Rightarrow> Volume \<Rightarrow> 16 word \<Rightarrow> 32 word \<Rightarrow> string \<Rightarrow> builder" where
  "writeParamsHeader E v bitmap dirID path =
     (let w = builder_u8 [] cmdSetFileDirParms;
          w = builder_u8 w 0;
          w = builder_u16 w (vID v);
          w = builder_u32 w dirID;
          w = builder_u16 w bitmap;
          w = builder_path (norm_nfd E) w path
      in builder_evenPad w)"

definition SetUnixPrivs :: "'s env \<Rightarrow> Volume \<Rightarrow> 32 word \<Rightarrow> string \<Rightarrow> 32 word \<Rightarrow> 32 word \<Rightarrow> 32 word \<Rightarrow>
    ('s session, unit) io" where
  "SetUnixPrivs E v dirID path uid gid mode =
     (let w = writeParamsHeader E v kFPUnixPrivsBit dirID path;
          w = builder_u32 w uid;
          w = builder_u32 w gid;
          w = builder_u32 w mode;
          w = builder_u32 w 0
      in simple_command E (''set unix privs '' @ path) w)"

definition mod_time_request :: "'s env \<Rightarrow> Volume \<Rightarrow> 32 word \<Rightarrow> string \<Rightarrow> int \<Rightarrow> bytes" where
  "mod_time_request E v dirID path mtime =
     (let w = writeParamsHeader E v kFPModDateBit dirID path
      in builder_u32 w (word_of_int (mtime - afpEpochDelta)))"

definition SetModTime :: "'s env \<Rightarrow> Volume \<Rightarrow> 32 word \<Rightarrow> string \<Rightarrow> int \<Rightarrow> ('s session, unit) io" where
  "SetModTime E v dirID path mtime =
     simple_command E (''set mod time '' @ path) (mod_time_request E v dirID path mtime)"

record FSInfo =
  TotalBytes :: "64 word"
  FreeBytes :: "64 word"
  BlockSize :: "32 word"

definition statfs_reply :: "bytes \<Rightarrow> FSInfo res" where
  "statfs_reply payload =
     (let r = new_reader payload;
          (bm, r) = reader_u16 ''volume bitmap'' r;
          (free, r) = reader_u64 ''ext bytes free'' r;
          (tot, r) = reader_u64 ''ext bytes total'' r;
          (blk, r) = reader_u32 ''block size'' r
      in case rerr r of
           Some e \<Rightarrow> Err e
         | None \<Rightarrow> Ok \<lparr>TotalBytes = tot, FreeBytes = free, BlockSize = blk\<rparr>)"

definition StatFS :: "'s env \<Rightarrow> Volume \<Rightarrow> ('s session, FSInfo) io" where
  "StatFS E v =
     (let w = builder_u8 [] cmdGetVolParms;
          w = builder_u8 w 0;
          w = builder_u16 w (vID v);
          w = builder_u16 w (kFPVolExtBytesFreeBit OR kFPVolExtBytesTotalBit OR kFPVolBlockSizeBit) in
      io_bind (command E w) (\<lambda>(payload, code).
      io_bind (io_res (of_err (resultErr ''statfs'' code))) (\<lambda>_.
        io_res (statfs_reply payload))))"

section \<open>Paths on the wire\<close>

text \<open>
  How a server reads a path field: the type byte, the encoding hint, and a string of components
  separated by NUL.
\<close>

definition read_path :: "reader \<Rightarrow> (8 word \<times> 32 word \<times> string) \<times> reader" where
  "read_path r =
     (let (t, r) = reader_u8 ''path type'' r;
          (h, r) = reader_u32 ''path hint'' r;
          (n, r) = reader_u16 ''path length'' r;
          (b, r) = reader_take (unat n) ''path'' r
      in ((t, h, string_of_bytes (or_nil b)), r))"

lemma builder_path_eq:
  "builder_path nfd w p =
     w @ kFPUTF8Name # put32 utf8PathHint @ put_pascal2 (slash_to_nul (nfd (trim_slash p)))"
  by (simp add: builder_path_def builder_defs put_pascal2_def Let_def)

definition path_ok :: "(string \<Rightarrow> string) \<Rightarrow> string \<Rightarrow> bool" where
  "path_ok nfd p \<longleftrightarrow> length (nfd (trim_slash p)) < 65536"

lemma length_slash_to_nul [simp]: "length (slash_to_nul s) = length s"
  by (simp add: slash_to_nul_def)

lemma read_path_put:
  assumes "path_ok nfd p"
  shows "read_path (rd pre (kFPUTF8Name # put32 utf8PathHint @
       put_pascal2 (slash_to_nul (nfd (trim_slash p))) @ rest)) =
     ((kFPUTF8Name, utf8PathHint, slash_to_nul (nfd (trim_slash p))),
      rd (pre @ kFPUTF8Name # put32 utf8PathHint @ put_pascal2 (slash_to_nul (nfd (trim_slash p)))) rest)"
proof -
  let ?s = "slash_to_nul (nfd (trim_slash p))"
  have "length ?s < 65536" using assms by (simp add: path_ok_def)
  then show ?thesis
    using unat_length16 [of ?s] by (simp add: read_path_def put_pascal2_def or_nil_def Let_def)
qed

lemma last_slash_None: "last_slash p = None \<longleftrightarrow> CHR ''/'' \<notin> set p"
proof -
  have "last_slash p = None \<longleftrightarrow> dropWhile (\<lambda>c. c \<noteq> CHR ''/'') (rev p) = []"
    by (cases "dropWhile (\<lambda>c. c \<noteq> CHR ''/'') (rev p)") (simp_all add: last_slash_def del: dropWhile_eq_Nil_conv)
  also have "\<dots> \<longleftrightarrow> (\<forall>c \<in> set p. c \<noteq> CHR ''/'')" by (simp only: dropWhile_eq_Nil_conv set_rev)
  finally show ?thesis by blast
qed

lemma last_slash_Some:
  assumes "last_slash p = Some i"
  shows "p = take i p @ CHR ''/'' # drop (i + 1) p \<and> CHR ''/'' \<notin> set (drop (i + 1) p)"
proof -
  obtain c r where d: "dropWhile (\<lambda>c. c \<noteq> CHR ''/'') (rev p) = c # r" and i: "i = length r"
    using assms by (auto simp: last_slash_def split: list.splits)
  have c: "c = CHR ''/''" using hd_dropWhile [of "\<lambda>c. c \<noteq> CHR ''/''" "rev p"] d by simp
  obtain t where t: "t = takeWhile (\<lambda>c. c \<noteq> CHR ''/'') (rev p)" by simp
  then have "CHR ''/'' \<notin> set t" by (auto dest: set_takeWhileD)
  moreover have "rev p = t @ c # r"
    unfolding d [symmetric] t by (rule takeWhile_dropWhile_id [symmetric])
  then have p: "p = rev r @ CHR ''/'' # rev t" using c by (simp add: rev_eq_append_conv)
  ultimately show ?thesis unfolding p i by simp
qed

text \<open>A path splits at its last slash: the two parts joined again are the trimmed path.\<close>

definition join_path :: "string \<Rightarrow> string \<Rightarrow> string \<Rightarrow> bool" where
  "join_path dir base p \<longleftrightarrow> CHR ''/'' \<notin> set base \<and>
     (if CHR ''/'' \<in> set p then p = dir @ CHR ''/'' # base else dir = [] \<and> p = base)"

lemma splitPath_join:
  assumes "splitPath p = (dir, base)"
  shows "join_path dir base (trim_slash p)"
proof (cases "last_slash (trim_slash p)")
  case None
  with assms have "dir = []" "base = trim_slash p" by (auto simp: splitPath_def Let_def)
  with None show ?thesis by (simp add: join_path_def last_slash_None)
next
  case (Some i)
  with assms have d: "dir = take i (trim_slash p)" "base = drop (i + 1) (trim_slash p)"
    by (auto simp: splitPath_def Let_def)
  from last_slash_Some [OF Some] have "trim_slash p = dir @ CHR ''/'' # base" "CHR ''/'' \<notin> set base"
    unfolding d by blast+
  moreover have "CHR ''/'' \<in> set (trim_slash p)" using Some last_slash_None [of "trim_slash p"] by auto
  ultimately show ?thesis unfolding join_path_def by argo
qed

text \<open>How a server reads an \<^verbatim>\<open>FPMoveAndRename\<close> request: command, volume, the two parents, three paths.\<close>

definition wire_path :: "(string \<Rightarrow> string) \<Rightarrow> string \<Rightarrow> 8 word \<times> 32 word \<times> string" where
  "wire_path nfd p = (3, 0x08000103, slash_to_nul (nfd (trim_slash p)))"

definition read_rename ::
    "bytes \<Rightarrow> ((8 word \<times> 16 word \<times> 32 word \<times> 32 word) \<times> (8 word \<times> 32 word \<times> string) list) \<times> reader" where
  "read_rename req =
     (let r = new_reader req;
          (cmd, r) = reader_u8 ''command'' r;
          (pad, r) = reader_u8 ''pad'' r;
          (vid, r) = reader_u16 ''volume'' r;
          (sdir, r) = reader_u32 ''source'' r;
          (ddir, r) = reader_u32 ''destination'' r;
          (p1, r) = read_path r;
          (p2, r) = read_path r;
          (p3, r) = read_path r
      in (((cmd, vid, sdir, ddir), [p1, p2, p3]), r))"

text \<open>
  (C35) A rename names what it means: read field by field, the request carries the volume, the
  directory twice and three complete paths with nothing left over; the second and third are the
  parent and the last component of the new path, and put together again they are that path. Every
  path keeps its own length as long as it is below 65536 bytes.
\<close>
theorem Rename_decodes:
  assumes "path_ok (norm_nfd E) from" and "splitPath to = (dir, base)"
    and "path_ok (norm_nfd E) dir" and "path_ok (norm_nfd E) base"
  shows "join_path dir base (trim_slash to) \<and>
     read_rename (rename_request E v dirID from to) =
       (((cmdMoveAndRename, vID v, dirID, dirID),
         [wire_path (norm_nfd E) from, wire_path (norm_nfd E) dir, wire_path (norm_nfd E) base]),
        rd (rename_request E v dirID from to) [])"
proof -
  let ?p = "\<lambda>x. kFPUTF8Name # put32 utf8PathHint @ put_pascal2 (slash_to_nul (norm_nfd E (trim_slash x)))"
  have req: "rename_request E v dirID from to =
      cmdMoveAndRename # 0 # put16 (vID v) @ put32 dirID @ put32 dirID @ ?p from @ ?p dir @ ?p base"
    by (simp add: rename_request_def assms(2) builder_path_eq builder_defs Let_def)
  have "read_path (rd pre (?p base)) = (wire_path (norm_nfd E) base, rd (pre @ ?p base) [])" for pre
    using read_path_put [OF assms(4), of pre "[]"] by (simp add: wire_path_def kFPUTF8Name_def utf8PathHint_def)
  then have "read_rename (rename_request E v dirID from to) =
       (((cmdMoveAndRename, vID v, dirID, dirID),
         [wire_path (norm_nfd E) from, wire_path (norm_nfd E) dir, wire_path (norm_nfd E) base]),
        rd (rename_request E v dirID from to) [])"
    using read_path_put [OF assms(1)] read_path_put [OF assms(3)]
    unfolding req read_rename_def new_reader_rd
    by (simp add: wire_path_def kFPUTF8Name_def utf8PathHint_def Let_def)
  with splitPath_join [OF assms(2)] show ?thesis by blast
qed

theorem Rename_decodes_witness:
  "join_path ''b/c'' ''d'' (trim_slash ''/b/c/d/'') \<and>
   snd (fst (read_rename (rename_request (serve_env 0 (\<lambda>_ _ _ c. (([], 0), c)) :: unit env)
      sample_volume 2 ''a'' ''/b/c/d/''))) =
     [(3, 0x08000103, ''a''), (3, 0x08000103, [CHR ''b'', CHR 0x00, CHR ''c'']), (3, 0x08000103, ''d'')]"
proof -
  let ?E = "serve_env 0 (\<lambda>_ _ _ c. (([], 0), c)) :: unit env"
  have "splitPath ''/b/c/d/'' = (''b/c'', ''d'')" by code_simp
  then show ?thesis
    using Rename_decodes [of ?E "''a''" "''/b/c/d/''" "''b/c''" "''d''" sample_volume 2]
    by (simp add: path_ok_def wire_path_def trim_slash_def slash_to_nul_def)
qed

section \<open>Dates\<close>

lemma mod_time_request_date:
  "drop (length (mod_time_request E v dirID path mtime) - 4) (mod_time_request E v dirID path mtime) =
     put32 (word_of_int (mtime - afpEpochDelta))"
  by (simp add: mod_time_request_def builder_u32_def Let_def)

lemma even_evenPad: "even (length (builder_evenPad w))"
  by (simp add: builder_evenPad_def builder_u8_def) presburger

lemma writeParamsHeader_even: "even (length (writeParamsHeader E v bm dirID path))"
  unfolding writeParamsHeader_def Let_def by (rule even_evenPad)

text \<open>
  (C36) A modification time survives \<^verbatim>\<open>SetModTime\<close> and a later \<^verbatim>\<open>Stat\<close> exactly when it lies within
  \<open>2\<^sup>3\<^sup>1\<close> seconds of 2000-01-01: the date sits in the last four bytes of the request, on an even
  offset, and read back as a date it is the time that was set if and only if the difference fits
  a signed 32-bit number. Any other time is silently changed.
\<close>
theorem SetModTime_roundtrip:
  "even (length (mod_time_request E v dirID path mtime) - 4) \<and>
   (afpDate (get32 (drop (length (mod_time_request E v dirID path mtime) - 4)
      (mod_time_request E v dirID path mtime))) = mtime
    \<longleftrightarrow> - (2 ^ 31) \<le> mtime - 946684800 \<and> mtime - 946684800 < 2 ^ 31)"
proof -
  have "sint (word_of_int d :: 32 word) = d \<longleftrightarrow> - (2 ^ 31) \<le> d \<and> d < 2 ^ 31" for d
    by (simp add: sint_sbintrunc' signed_take_bit_int_eq_self_iff)
  from this [of "mtime - 946684800"] show ?thesis
    using writeParamsHeader_even [of E v kFPModDateBit dirID path]
    unfolding mod_time_request_date get_put afpDate_def
    by (auto simp: afpEpochDelta_def mod_time_request_def builder_u32_def Let_def)
qed

section \<open>The operations over any sound transport\<close>

lemma statfs_reply_not_Panic: "statfs_reply b \<noteq> Panic"
  by (auto simp: statfs_reply_def Let_def case_prod_beta split: option.splits)

context afp_layer
begin

lemma vol_ops_safe:
  "io_safe sound (CreateFile E v dirID path ow)" "io_safe sound (Mkdir E v dirID path)"
  "io_safe sound (Delete E v dirID path)" "io_safe sound (Rename E v dirID from to)"
  "io_safe sound (SetUnixPrivs E v dirID path u g m)" "io_safe sound (SetModTime E v dirID path t)"
  "io_safe sound (StatFS E v)"
  unfolding CreateFile_def Mkdir_def Delete_def Rename_def SetUnixPrivs_def SetModTime_def StatFS_def Let_def
  by (rule simple_command_safe
      | intro io_safe_bind io_safe_prod io_safe_res command_safe
      | simp add: statfs_reply_not_Panic)+

end

end
