(* ===== verification/Symlink.thy ===== *)
theory Symlink
  imports Fork_Write Vol_Ops
begin

text \<open>
  \<^verbatim>\<open>internal/afp/symlink.go\<close>: symbolic links as files whose content is the target and whose
  Finder type is \<^verbatim>\<open>slnk\<close>.
\<close>

section \<open>Definitions\<close>

definition symlinkFinderInfo :: bytes where
  "symlinkFinderInfo = bytes_of_string ''slnk'' @ bytes_of_string ''rhap'' @ replicate 24 0"

definition finder_request :: "'s env \<Rightarrow> Volume \<Rightarrow> 32 word \<Rightarrow> string \<Rightarrow> bytes \<Rightarrow> bytes" where
  "finder_request E v dirID path fi =
     (let w = writeParamsHeader E v kFPFinderInfoBit dirID path in builder_bytes w fi)"

definition setFinderInfo :: "'s env \<Rightarrow> Volume \<Rightarrow> 32 word \<Rightarrow> string \<Rightarrow> bytes \<Rightarrow> ('s session, unit) io" where
  "setFinderInfo E v dirID path fi =
     simple_command E (''set finder info '' @ path) (finder_request E v dirID path fi)"

definition Symlink :: "'s env \<Rightarrow> Volume \<Rightarrow> 32 word \<Rightarrow> string \<Rightarrow> string \<Rightarrow> ('s session, unit) io" where
  "Symlink E v dirID link target =
     io_bind (CreateFile E v dirID link False) (\<lambda>_.
     io_bind (OpenForkRW E v dirID link) (\<lambda>fork.
     io_bind (WriteAt E fork (bytes_of_string target) 0) (\<lambda>(_, err).
       case err of
         Some e \<Rightarrow> io_defer (io_res (Err e)) (Fork_Close E fork)
       | None \<Rightarrow>
           io_bind (Fork_Close E fork) (\<lambda>_.
             setFinderInfo E v dirID link symlinkFinderInfo))))"

text \<open>\<^verbatim>\<open>make\<close> panics when the length the server announced is not a Go \<^verbatim>\<open>int\<close>.\<close>

definition readlink_body :: "'s env \<Rightarrow> Fork \<Rightarrow> ('s session, string) io" where
  "readlink_body E fork =
     (if fSize fork = 0 then io_ret []
      else if unat (fSize fork) \<ge> 2 ^ 63 then io_res Panic
      else io_bind (ReadAt E fork (replicate (unat (fSize fork)) 0) 0) (\<lambda>(n, err, buf).
        case err of
          None \<Rightarrow> if n > length buf then io_res Panic else io_ret (string_of_bytes (take n buf))
        | Some e \<Rightarrow>
            if e \<noteq> EOF then io_res (Err e)
            else if n > length buf then io_res Panic
            else io_ret (string_of_bytes (take n buf))))"

definition ReadLink :: "'s env \<Rightarrow> Volume \<Rightarrow> 32 word \<Rightarrow> string \<Rightarrow> ('s session, string) io" where
  "ReadLink E v dirID path =
     io_bind (OpenFork E v dirID path) (\<lambda>fork.
       io_defer (readlink_body E fork) (Fork_Close E fork))"

section \<open>The round trip\<close>

text \<open>
  What a server does that keeps one file at a path: opening it gives the fork number and the length,
  the fork takes writes and answers reads, closing it leaves the content alone. \<open>S\<close> says that the
  file is there, \<open>T\<close> that it is open.
\<close>

definition put_fork :: "16 word \<Rightarrow> 16 word \<Rightarrow> nat \<Rightarrow> bytes" where
  "put_fork bm fid n = put16 bm @ put16 fid @ put64 (word_of_nat n)"

definition keeps_file :: "'s env \<Rightarrow> ('s session \<Rightarrow> bytes) \<Rightarrow> ('s session \<Rightarrow> bool) \<Rightarrow> ('s session \<Rightarrow> bool) \<Rightarrow> bytes \<Rightarrow> bool" where
  "keeps_file E content S T req \<longleftrightarrow>
     (\<forall>s. S s \<longrightarrow> (\<exists>r s'. command E req s = Some (Ok (r, 0), s') \<and> T s' \<and> content s' = content s))"

definition plain_fork :: "16 word \<Rightarrow> Fork \<Rightarrow> bool" where
  "plain_fork fid f \<longleftrightarrow> fID f = fid \<and> chunkSize f = readChunkSize \<and> maxParallel f = maxConcurrentReads"

definition keeps_fork ::
    "'s env \<Rightarrow> Volume \<Rightarrow> 32 word \<Rightarrow> string \<Rightarrow> 16 word \<Rightarrow> ('s session \<Rightarrow> bytes) \<Rightarrow> ('s session \<Rightarrow> bool) \<Rightarrow>
     ('s session \<Rightarrow> bool) \<Rightarrow> bool" where
  "keeps_fork E v dirID path fid content S T \<longleftrightarrow>
     (\<forall>s mode. S s \<longrightarrow> (\<exists>bm s'. command E (open_request E v dirID path mode) s =
        Some (Ok (put_fork bm fid (length (content s)), 0), s') \<and> T s' \<and> content s' = content s)) \<and>
     (\<forall>f. plain_fork fid f \<longrightarrow> accepts_writes E f content T \<and> keeps_file E content T S (close_request f)
        \<and> (\<forall>F. reads_file E f F (\<lambda>s. T s \<and> content s = F)))"

text \<open>A hard create (\<^verbatim>\<open>overwrite\<close>) always succeeds and leaves an empty file.\<close>

definition holds_file ::
    "'s env \<Rightarrow> Volume \<Rightarrow> 32 word \<Rightarrow> string \<Rightarrow> 16 word \<Rightarrow> ('s session \<Rightarrow> bytes) \<Rightarrow> ('s session \<Rightarrow> bool) \<Rightarrow>
     ('s session \<Rightarrow> bool) \<Rightarrow> bool" where
  "holds_file E v dirID path fid content S T \<longleftrightarrow>
     (\<forall>s. S s \<longrightarrow> (\<exists>r s'. command E (create_request E v dirID path True) s = Some (Ok (r, 0), s')
        \<and> S s' \<and> content s' = [])) \<and>
     keeps_fork E v dirID path fid content S T"

text \<open>
  A soft create makes an empty file where there is none (\<open>N\<close>), and is refused where there is one,
  which then stays as it is. Setting the Finder information leaves the content alone.
\<close>

definition holds_link ::
    "'s env \<Rightarrow> Volume \<Rightarrow> 32 word \<Rightarrow> string \<Rightarrow> 16 word \<Rightarrow> ('s session \<Rightarrow> bytes) \<Rightarrow> ('s session \<Rightarrow> bool) \<Rightarrow>
     ('s session \<Rightarrow> bool) \<Rightarrow> ('s session \<Rightarrow> bool) \<Rightarrow> bool" where
  "holds_link E v dirID link fid content N S T \<longleftrightarrow>
     (\<forall>s. N s \<longrightarrow> (\<exists>r s'. command E (create_request E v dirID link False) s = Some (Ok (r, 0), s')
        \<and> S s' \<and> content s' = [])) \<and>
     (\<forall>s. S s \<longrightarrow> (\<exists>r s'. command E (create_request E v dirID link False) s = Some (Ok (r, ResObjectExists), s')
        \<and> S s' \<and> content s' = content s)) \<and>
     keeps_fork E v dirID link fid content S T \<and>
     keeps_file E content S S (finder_request E v dirID link symlinkFinderInfo)"

lemma simple_command_ok:
  "command E req s = Some (Ok (r, 0), s') \<Longrightarrow> simple_command E op req s = Some (Ok (), s')"
  by (simp add: simple_command_def io_res_def)

lemma open_fork_reply_put:
  "open_fork_reply (put_fork bm fid n) =
     Ok \<lparr>fID = fid, fSize = word_of_nat n, chunkSize = readChunkSize, maxParallel = maxConcurrentReads\<rparr>"
  by (simp add: open_fork_reply_def put_fork_def new_reader_rd Let_def)

lemma openFork_holds:
  assumes "keeps_fork E v dirID path fid content S T" and "S s"
  shows "\<exists>s'. openFork E v dirID path mode s = Some (Ok \<lparr>fID = fid, fSize = word_of_nat (length (content s)),
       chunkSize = readChunkSize, maxParallel = maxConcurrentReads\<rparr>, s') \<and> T s' \<and> content s' = content s"
proof -
  obtain bm s' where "command E (open_request E v dirID path mode) s =
      Some (Ok (put_fork bm fid (length (content s)), 0), s')" "T s'" "content s' = content s"
    using assms unfolding keeps_fork_def by blast
  then show ?thesis by (simp add: openFork_def open_fork_reply_put io_res_def)
qed

lemma default_fork_ok:
  "plain_fork fid f \<Longrightarrow> wfork_ok f"
  by (simp add: plain_fork_def wfork_ok_def fork_ok_def readChunkSize_def maxConcurrentReads_def)

lemma Symlink_content:
  assumes "holds_link E v dirID link fid content N S T" and "group_runs_all E" and "N s"
    and "length target < 2 ^ 63"
  shows "\<exists>s'. Symlink E v dirID link target s = Some (Ok (), s') \<and> S s' \<and> content s' = bytes_of_string target"
proof -
  have held: "keeps_fork E v dirID link fid content S T"
    and fi: "keeps_file E content S S (finder_request E v dirID link symlinkFinderInfo)"
    using assms(1) by (simp_all add: holds_link_def)
  have h: "\<And>f. plain_fork fid f \<Longrightarrow> accepts_writes E f content T" "\<And>f. plain_fork fid f \<Longrightarrow> keeps_file E content T S (close_request f)"
    using held unfolding keeps_fork_def by blast+
  obtain r s1 where "command E (create_request E v dirID link False) s = Some (Ok (r, 0), s1)"
    and s1: "S s1" "content s1 = []"
    using assms(1,3) unfolding holds_link_def by blast
  then have c: "CreateFile E v dirID link False s = Some (Ok (), s1)"
    unfolding CreateFile_def by (auto intro: simple_command_ok)
  define f where "f = \<lparr>fID = fid, fSize = word_of_nat (length (content s1)), chunkSize = readChunkSize,
    maxParallel = maxConcurrentReads\<rparr>"
  obtain s2 where o: "OpenForkRW E v dirID link s1 = Some (Ok f, s2)" and s2: "T s2" "content s2 = []"
    using openFork_holds [OF held s1(1)] s1(2) unfolding OpenForkRW_def f_def by metis
  then have f: "plain_fork fid f" by (simp add: f_def plain_fork_def)
  have "0 + length (bytes_of_string target) < 2 ^ 63" using assms(4) by simp
  from WriteAt_content [OF h(1) [OF f] assms(2) default_fork_ok [OF f] s2(1) this] obtain s3 where
    w: "WriteAt E f (bytes_of_string target) 0 s2 = Some (Ok (length (bytes_of_string target), None), s3)"
    and s3: "T s3" "content s3 = bytes_of_string target"
    using s2(2) by (auto simp: write_at_def)
  obtain r4 s4 where "command E (close_request f) s3 = Some (Ok (r4, 0), s4)"
    and s4: "S s4" "content s4 = content s3" using h(2) [OF f] s3(1) unfolding keeps_file_def by blast
  then have cl: "Fork_Close E f s3 = Some (Ok (), s4)" unfolding Fork_Close_def by (auto intro: simple_command_ok)
  obtain r5 s5 where "command E (finder_request E v dirID link symlinkFinderInfo) s4 = Some (Ok (r5, 0), s5)"
    and s5: "S s5" "content s5 = content s4" using fi s4(1) unfolding keeps_file_def by blast
  then have "setFinderInfo E v dirID link symlinkFinderInfo s4 = Some (Ok (), s5)"
    unfolding setFinderInfo_def by (auto intro: simple_command_ok)
  with c o w cl s3 s4 s5 show ?thesis by (simp add: Symlink_def)
qed

lemma ReadLink_content:
  assumes "keeps_fork E v dirID link fid content S T" and "group_runs_all E" and "S s"
    and "length (content s) < 2 ^ 63"
  shows "\<exists>s'. ReadLink E v dirID link s = Some (Ok (string_of_bytes (content s)), s')
    \<and> S s' \<and> content s' = content s"
proof -
  let ?n = "length (content s)"
  define f where "f = \<lparr>fID = fid, fSize = word_of_nat ?n, chunkSize = readChunkSize,
    maxParallel = maxConcurrentReads\<rparr>"
  obtain s1 where o: "OpenFork E v dirID link s = Some (Ok f, s1)" and s1: "T s1" "content s1 = content s"
    using openFork_holds [OF assms(1,3)] unfolding OpenFork_def f_def by blast
  have f: "plain_fork fid f" "unat (fSize f) = ?n"
    unfolding f_def using unat_off64 [OF assms(4)] by (simp_all add: plain_fork_def)
  then have ok: "fork_ok f" using default_fork_ok by (simp add: wfork_ok_def)
  have reads: "reads_file E f (content s) (\<lambda>s'. T s' \<and> content s' = content s)"
    and close: "keeps_file E content T S (close_request f)"
    using assms(1) f(1) unfolding keeps_fork_def by blast+
  have "\<exists>s2. readlink_body E f s1 = Some (Ok (string_of_bytes (content s)), s2)
      \<and> T s2 \<and> content s2 = content s"
  proof (cases "?n = 0")
    case True
    then have "fSize f = 0" using f(2) by (simp add: unat_eq_0)
    with True s1 show ?thesis by (simp add: readlink_body_def io_ret_def string_of_bytes_def)
  next
    case False
    then have nz: "fSize f \<noteq> 0" using f(2) by auto
    have "\<exists>s2. (T s2 \<and> content s2 = content s) \<and> ReadAt E f (replicate ?n 0) (int 0) s1 =
        Some (Ok (let D = take (length (replicate ?n (0 :: byte))) (drop 0 (content s)) in
          (length D, if length D < length (replicate ?n (0 :: byte)) then Some EOF else None,
           D @ drop (length D) (replicate ?n 0))), s2)"
      by (rule ReadAt_file [OF reads assms(2) ok]) (use s1 assms(4) in simp_all)
    then obtain s2 where "T s2" "content s2 = content s" "ReadAt E f (replicate ?n 0) 0 s1 = Some (Ok (?n, None, content s), s2)"
      by (auto simp: Let_def)
    with nz f(2) assms(4) show ?thesis by (simp add: readlink_body_def io_ret_def)
  qed
  then obtain s2 where b: "readlink_body E f s1 = Some (Ok (string_of_bytes (content s)), s2)"
    "T s2" "content s2 = content s" by blast
  then obtain r s3 where "command E (close_request f) s2 = Some (Ok (r, 0), s3)" and s3: "S s3" "content s3 = content s2"
    using close unfolding keeps_file_def by blast
  then have "Fork_Close E f s2 = Some (Ok (), s3)" unfolding Fork_Close_def by (auto intro: simple_command_ok)
  with o b s3 show ?thesis by (simp add: ReadLink_def io_defer_def)
qed

lemma Symlink_taken:
  assumes "holds_link E v dirID link fid content N S T" and "S s"
  shows "\<exists>s'. Symlink E v dirID link target s = Some (Err (AfpError (''create '' @ link) ResObjectExists), s')
    \<and> S s' \<and> content s' = content s"
proof -
  obtain r s' where "command E (create_request E v dirID link False) s = Some (Ok (r, ResObjectExists), s')"
    and s': "S s'" "content s' = content s"
    using assms unfolding holds_link_def by blast
  then have "CreateFile E v dirID link False s = Some (Err (AfpError (''create '' @ link) ResObjectExists), s')"
    by (simp add: CreateFile_def simple_command_def resultErr_def res_defs io_res_def)
  with s' show ?thesis by (simp add: Symlink_def io_bind_def)
qed

text \<open>
  (C24) A symbolic link reads back as it was made, and is not overwritten: on a path that holds no
  object \<^verbatim>\<open>Symlink\<close> succeeds, and \<^verbatim>\<open>ReadLink\<close> then returns exactly the target string. A second
  \<^verbatim>\<open>Symlink\<close> on the path fails with the server's object-exists result, before the file is opened, and
  \<^verbatim>\<open>ReadLink\<close> still returns the first target. All the calls return, and the Finder information sent is
  what the entry parser recognises as a link.
\<close>
theorem Symlink_ReadLink:
  assumes "holds_link E v dirID link fid content N S T" and "group_runs_all E" and "N s"
    and "length target < 2 ^ 63"
  shows "\<exists>s1 s2 s3 s4. Symlink E v dirID link target s = Some (Ok (), s1) \<and>
     ReadLink E v dirID link s1 = Some (Ok target, s2) \<and>
     Symlink E v dirID link target' s2 = Some (Err (AfpError (''create '' @ link) ResObjectExists), s3) \<and>
     ReadLink E v dirID link s3 = Some (Ok target, s4) \<and>
     deIsSymlink (finder_info (Some symlinkFinderInfo) zero_entry)"
proof -
  have fork: "keeps_fork E v dirID link fid content S T" using assms(1) by (simp add: holds_link_def)
  have read: "\<exists>s'. ReadLink E v dirID link s = Some (Ok target, s') \<and> S s' \<and> content s' = bytes_of_string target"
    if "S s" "content s = bytes_of_string target" for s
    using ReadLink_content [OF fork assms(2) that(1)] that(2) assms(4) by simp
  obtain s1 where s1: "Symlink E v dirID link target s = Some (Ok (), s1)" "S s1" "content s1 = bytes_of_string target"
    using Symlink_content [OF assms] by blast
  obtain s2 where s2: "ReadLink E v dirID link s1 = Some (Ok target, s2)" "S s2" "content s2 = bytes_of_string target"
    using read [OF s1(2,3)] by blast
  obtain s3 where s3: "S s3" "content s3 = bytes_of_string target"
    "Symlink E v dirID link target' s2 = Some (Err (AfpError (''create '' @ link) ResObjectExists), s3)"
    using Symlink_taken [OF assms(1) s2(2)] s2(3) by auto
  have "deIsSymlink (finder_info (Some symlinkFinderInfo) zero_entry)"
    by (simp add: finder_info_def symlinkFinderInfo_def or_nil_def)
  with s1(1) s2(1) s3(3) read [OF s3(1,2)] show ?thesis by blast
qed

subsection \<open>A server with one file\<close>

definition link_serve :: "8 word \<Rightarrow> 32 word \<Rightarrow> bytes \<Rightarrow> bytes \<Rightarrow> (bytes \<times> 32 word) \<times> bytes" where
  "link_serve cmd doff p F =
     (let c = p ! 0; off = unat (get64 (take 8 (drop 4 p))); cnt = unat (get64 (take 8 (drop 12 p))) in
      if c = cmdCreateFile
      then (if p ! 1 = createHard then (([], 0), []) else (([], word_of_int ResObjectExists), F))
      else if c = cmdOpenFork then ((put_fork 0 5 (length F), 0), F)
      else if c = cmdReadExt
      then ((take cnt (drop off F), if length F < off + cnt then word_of_int ResEOF else 0), F)
      else if c = cmdWriteExt then (([], 0), write_at F off (drop 20 p))
      else (([], 0), F))"

definition link_env :: "bytes env" where
  "link_env = serve_env 0 link_serve"

lemma request_cmd:
  "create_request E v dirID path ow ! 0 = cmdCreateFile" "open_request E v dirID path mode ! 0 = cmdOpenFork"
  "read_request f off cnt ! 0 = cmdReadExt" "(write_header f off d @ d) ! 0 = cmdWriteExt"
  "close_request f ! 0 = cmdCloseFork" "finder_request E v dirID path fi ! 0 = cmdSetFileDirParms"
  by (simp_all add: create_request_def open_request_def read_request_def write_header_def close_request_def
      finder_request_def writeParamsHeader_def builder_evenPad_def builder_path_def builder_defs Let_def)

lemma create_request_flag:
  "create_request E v dirID path ow ! Suc 0 = (if ow then createHard else createSoft)"
  by (simp add: create_request_def builder_path_def builder_defs Let_def)

lemma link_serve_create:
  "link_serve cmd d (create_request E v dirID path ow) F =
     (if ow then (([], 0), []) else (([], word_of_int ResObjectExists), F))"
  by (simp add: link_serve_def request_cmd create_request_flag createHard_def createSoft_def)

lemma link_serve_open:
  "link_serve cmd d (open_request E v dirID path mode) F = ((put_fork 0 5 (length F), 0), F)"
  by (simp add: link_serve_def request_cmd cmd_defs)

lemma link_serve_read:
  "off < 2 ^ 63 \<Longrightarrow> cnt < 2 ^ 63 \<Longrightarrow> link_serve cmd d (read_request f (int off) cnt) F =
     ((take cnt (drop off F), if length F < off + cnt then word_of_int ResEOF else 0), F)"
  unfolding link_serve_def request_cmd read_request_fields get_put of_int_of_nat_eq Let_def
  by (simp only: unat_off64) (simp add: cmd_defs)

lemma link_serve_write:
  "off < 2 ^ 63 \<Longrightarrow> link_serve cmd d (write_header f (int off) b @ b) F = (([], 0), write_at F off b)"
  unfolding link_serve_def request_cmd write_header_fields get_put of_int_of_nat_eq Let_def
  by (simp only: unat_off64) (simp add: cmd_defs)

lemma link_serve_other:
  "p ! 0 \<notin> {cmdCreateFile, cmdOpenFork, cmdReadExt, cmdWriteExt} \<Longrightarrow> link_serve cmd d p F = (([], 0), F)"
  by (simp add: link_serve_def Let_def)

lemma link_env_reads: "reads_file link_env f F (\<lambda>s. sconn s = F)"
  unfolding reads_file_def link_env_def serve_env_command
  by (auto simp: link_serve_read result_of_code_def ResEOF_def)

text \<open>A server with room for one file: a create makes it, a soft create is refused once it is there.\<close>

definition path_serve :: "8 word \<Rightarrow> 32 word \<Rightarrow> bytes \<Rightarrow> bytes option \<Rightarrow> (bytes \<times> 32 word) \<times> bytes option" where
  "path_serve cmd doff p st =
     (case st of
        None \<Rightarrow> if p ! 0 = cmdCreateFile then (([], 0), Some []) else (([], word_of_int ResObjectNotFound), None)
      | Some F \<Rightarrow> map_prod id Some (link_serve cmd doff p F))"

definition path_env :: "bytes option env" where
  "path_env = serve_env 0 path_serve"

definition path_content :: "bytes option session \<Rightarrow> bytes" where
  "path_content s = (case sconn s of None \<Rightarrow> [] | Some F \<Rightarrow> F)"

lemma path_env_run:
  "sconn s = Some F \<Longrightarrow> command path_env p s = (case link_serve CmdCommand 0 p F of ((b, code), F') \<Rightarrow>
     Some (Ok (b, result_of_code code), s\<lparr>sconn := Some F'\<rparr>))"
  "sconn s = Some F \<Longrightarrow> commandWrite path_env off p s = (case link_serve CmdWrite off p F of ((b, code), F') \<Rightarrow>
     Some (Ok (b, result_of_code code), s\<lparr>sconn := Some F'\<rparr>))"
  by (simp_all add: path_env_def path_serve_def split: prod.split)

lemma path_env_quantum: "serverQuantum path_env s = 0"
  by (simp add: path_env_def)

lemma path_env_new:
  "sconn s = None \<Longrightarrow> command path_env (create_request E v dirID path ow) s = Some (Ok ([], 0), s\<lparr>sconn := Some []\<rparr>)"
  by (simp add: path_env_def path_serve_def request_cmd result_of_code_def)

lemma path_env_fork:
  "keeps_fork path_env v dirID path 5 path_content (\<lambda>s. sconn s \<noteq> None) (\<lambda>s. sconn s \<noteq> None)"
  unfolding keeps_fork_def
proof (intro conjI allI impI)
  let ?S = "\<lambda>s :: bytes option session. sconn s \<noteq> None"
  fix s :: "bytes option session" and mode
  assume "?S s"
  then obtain F where F: "sconn s = Some F" by blast
  show "\<exists>bm s'. command path_env (open_request path_env v dirID path mode) s =
      Some (Ok (put_fork bm 5 (length (path_content s)), 0), s') \<and> ?S s' \<and> path_content s' = path_content s"
    using F by (auto simp: path_env_run [OF F] link_serve_open result_of_code_def path_content_def)
next
  let ?S = "\<lambda>s :: bytes option session. sconn s \<noteq> None"
  fix f :: Fork
  show "accepts_writes path_env f path_content ?S"
    unfolding accepts_writes_def
    by (auto simp: path_env_run link_serve_write result_of_code_def path_content_def path_env_quantum)
  show "keeps_file path_env path_content ?S ?S (close_request f)"
    unfolding keeps_file_def
    by (auto simp: path_env_run link_serve_other request_cmd cmd_defs result_of_code_def path_content_def)
  show "reads_file path_env f F (\<lambda>s. ?S s \<and> path_content s = F)" for F
    unfolding reads_file_def
    by (auto simp: path_env_run link_serve_read result_of_code_def path_content_def ResEOF_def)
qed

lemma path_env_holds:
  "holds_link path_env v dirID link 5 path_content (\<lambda>s. sconn s = None) (\<lambda>s. sconn s \<noteq> None) (\<lambda>s. sconn s \<noteq> None)"
  unfolding holds_link_def keeps_file_def
  by (intro conjI path_env_fork)
     (auto simp: path_env_new path_env_run link_serve_create link_serve_other request_cmd cmd_defs result_of_code_def
        path_content_def res_defs)

theorem Symlink_ReadLink_witness:
  "\<exists>s1 s2 s3 s4. Symlink path_env sample_volume 2 ''l'' ''a/b'' (NewSession None) = Some (Ok (), s1) \<and>
     ReadLink path_env sample_volume 2 ''l'' s1 = Some (Ok ''a/b'', s2) \<and>
     Symlink path_env sample_volume 2 ''l'' ''c'' s2 = Some (Err (AfpError ''create l'' ResObjectExists), s3) \<and>
     ReadLink path_env sample_volume 2 ''l'' s3 = Some (Ok ''a/b'', s4)"
proof -
  have g: "group_runs_all path_env" by (simp add: group_runs_all_def path_env_def)
  have n: "sconn (NewSession None :: bytes option session) = None" by (simp add: NewSession_def)
  from Symlink_ReadLink [OF path_env_holds g n, of "''a/b''" sample_volume 2 "''l''" "''c''"]
  show ?thesis by auto
qed

section \<open>Over any sound transport\<close>

text \<open>\<^verbatim>\<open>ReadLink\<close> returns, but the length and the bytes come from the server: it may panic.\<close>

context afp_layer
begin

lemma Symlink_safe: "io_safe sound (Symlink E v dirID link target)"
  unfolding Symlink_def OpenForkRW_def setFinderInfo_def
  by (intro io_safe_bind io_safe_prod vol_ops_safe openFork_safe WriteAt_safe)
     (auto split: option.split)

lemma openFork_fork_ok: "openFork E v dirID path mode s = Some (Ok f, s') \<Longrightarrow> fork_ok f"
  by (auto simp: openFork_def open_fork_reply_def io_bind_def io_res_def fork_ok_def readChunkSize_def maxConcurrentReads_def
      Let_def case_prod_beta split: option.splits res.splits)

lemma ReadLink_ends: "io_ends sound (ReadLink E v dirID path)"
proof -
  have "io_ends sound (readlink_body E f)" if "fork_ok f" for f
    unfolding readlink_body_def
    by (intro io_ends_if io_ends_bind io_ends_prod io_ends_option io_ends_res io_ends_ret io_safe_ends [OF ReadAt_safe [OF that]])
  then show ?thesis
    unfolding ReadLink_def OpenFork_def
    by (intro io_ends_bind io_ends_defer io_safe_ends [OF openFork_safe] io_safe_ends [OF Fork_Close_safe])
       (blast dest: openFork_fork_ok)
qed

end

end
