(* ===== verification/Dsi_Serve.thy ===== *)
theory Dsi_Serve
  imports Dsi_Linear Symlink
begin

text \<open>
  A DSI connection to a server is as good as the server itself: over a transport that carries packets
  to the server and its answers back, a request returns what the server answers, whatever else the
  server sends in between. What holds of the AFP operations on the server therefore holds over the wire.
\<close>

section \<open>A transport with a server behind it\<close>

text \<open>
  What a transport does whose other end is the server \<open>f\<close> with the state \<open>st w\<close>: a request packet is
  taken, and during the wait for its reply whole packets arrive, the reply last; the others ask for
  nothing (tickles, attention). Answers longer than the client accepts are left open.
\<close>

definition dsi_serves :: "'w net \<Rightarrow> 'v server \<Rightarrow> ('w \<Rightarrow> 'v) \<Rightarrow> ('w \<Rightarrow> bool) \<Rightarrow> bool" where
  "dsi_serves N f st S \<longleftrightarrow>
     (\<forall>w cmd i off p b code v. S w \<longrightarrow> length p < 2 ^ 32 \<longrightarrow> f cmd off p (st w) = ((b, code), v) \<longrightarrow>
        length b \<le> maxPayload \<longrightarrow>
        (\<exists>w1 noise ctxe w2. nc_Write N (packet (request_header cmd i off p) p) w = (None, w1) \<and>
           nc_arrive N w1 = (concat (map (\<lambda>(h, q). packet h q) noise) @
               packet (Header (answer (request_header cmd i off p) b code)) b, None, ctxe, w2) \<and>
           (\<forall>(h, q) \<in> set noise. packet_ok (h, q) \<and> Flags h \<noteq> flagReply) \<and> S w2 \<and> st w2 = v))"

text \<open>A connection between two requests, alive and with nothing unread.\<close>

definition live :: "('w \<Rightarrow> bool) \<Rightarrow> 'w dsi \<Rightarrow> bool" where
  "live S s \<longleftrightarrow> dsi_ok s \<and> closeErr (dconn s) = None \<and> dinp s = [] \<and> S (dworld s)"

lemma answer_ok: "length b \<le> maxPayload \<Longrightarrow> packet_ok (Header (answer h b code), b)"
  by (simp add: packet_ok_def answer_def unat_of_nat maxPayload_def)

lemma noise_deliveries:
  "\<forall>(h, q) \<in> set noise. packet_ok (h, q) \<and> Flags h \<noteq> flagReply \<Longrightarrow> deliveries tbl (noise @ fs) = deliveries tbl fs"
  by (induction noise) auto

lemma await_served:
  assumes "nc_arrive N (dworld s) = (concat (map (\<lambda>(h, q). packet h q) noise) @ packet (Header r) b, None, ctxe, w2)"
    and "\<forall>(h, q) \<in> set noise. packet_ok (h, q) \<and> Flags h \<noteq> flagReply"
    and "r = answer h b code" and "length b \<le> maxPayload" and "dinp s = []"
    and "pending (dconn s) (RequestID h) = Some ch"
  shows "await N ch s = Some (Ok r, s\<lparr>dworld := w2\<rparr>)"
proof -
  let ?fs = "noise @ [(Header r, b)]"
  have ok: "\<forall>hp \<in> set ?fs. packet_ok hp" using assms(2,3,4) answer_ok by auto
  have r: "Header r = Header (answer h b code)" "\<lparr>Header = Header r, Payload = b\<rparr> = r" using assms(3) by (simp_all add: answer_def)
  have "\<not> frame_ready []" by (simp add: frame_ready_def HeaderSize_def)
  then have "readLoop None (concat (map (\<lambda>(h, q). packet h q) ?fs) @ []) [] (dconn s) =
      Some (Ok (deliveries (pending (dconn s)) ?fs, []), dconn s)"
    unfolding readLoop_packets [OF ok] by (subst readLoop.simps) simp
  moreover have "deliveries (pending (dconn s)) ?fs = [(ch, r)]"
    using noise_deliveries [OF assms(2)] assms(6) r by (simp add: answer_def)
  ultimately show ?thesis using assms(1,5) by (simp add: await_def on_conn_def)
qed

lemma request_serves:
  assumes "dsi_serves N f st S" and "live S s" and "length p < 2 ^ 32"
    and "f cmd off p (st (dworld s)) = ((b, code), v)" and len: "length b \<le> maxPayload"
  shows "\<exists>h s'. request N cmd off p s = Some (Ok (answer h b code), s') \<and> live S s' \<and> st (dworld s') = v
     \<and> ServerQuantum (dconn s') = ServerQuantum (dconn s) \<and> ncClosed (dconn s') = ncClosed (dconn s)"
proof -
  let ?i = "nextID (dconn s) + 1"
  let ?h = "request_header cmd ?i off p"
  let ?s1 = "s\<lparr>dchan := Suc (dchan s), dconn := (dconn s)\<lparr>nextID := ?i, pending := [?i \<mapsto> dchan s]\<rparr>\<rparr>"
  have reg: "on_conn (register (dchan s)) (s\<lparr>dchan := Suc (dchan s)\<rparr>) = Some (Ok ?i, ?s1)"
    using assms(2) by (simp add: live_def on_conn_def register_def dsi_ok_def register_loop.simps [of Map.empty])
  obtain w1 noise ctxe w2 where
    wr: "nc_Write N (packet ?h p) (dworld s) = (None, w1)" and
    ar: "nc_arrive N w1 = (concat (map (\<lambda>(h, q). packet h q) noise) @ packet (Header (answer ?h b code)) b, None, ctxe, w2)" and
    no: "\<forall>(h, q) \<in> set noise. packet_ok (h, q) \<and> Flags h \<noteq> flagReply" and w2: "S w2" "st w2 = v"
    using assms unfolding dsi_serves_def live_def by blast
  have "send N ?h p ?s1 = Some (Ok (), ?s1\<lparr>dworld := w1\<rparr>)" using wr by (simp add: send_def)
  moreover have "await N (dchan s) (?s1\<lparr>dworld := w1\<rparr>) = Some (Ok (answer ?h b code), ?s1\<lparr>dworld := w1\<rparr>\<lparr>dworld := w2\<rparr>)"
    by (rule await_served [OF _ no refl len]) (use ar assms(2) in \<open>simp_all add: live_def request_header_def\<close>)
  ultimately have "request N cmd off p s = Some (Ok (answer ?h b code),
      ?s1\<lparr>dconn := (dconn s)\<lparr>nextID := ?i, pending := Map.empty\<rparr>, dworld := w2\<rparr>)"
    using reg by (simp add: request_def Let_def io_defer_def on_conn_def unregister_def)
  then show ?thesis using assms(2) w2 by (auto simp: live_def dsi_ok_def conn_ok_def)
qed

section \<open>The AFP layer on the server itself\<close>

text \<open>
  The environment in which a request is a call of the server. An answer too long for the client ends
  the connection.
\<close>

definition direct_env :: "32 word \<Rightarrow> (string \<Rightarrow> string) \<Rightarrow> (string \<Rightarrow> string) \<Rightarrow> ('v \<Rightarrow> nat \<Rightarrow> nat list) \<Rightarrow> 'v server \<Rightarrow> 'v env" where
  "direct_env q nfd nfc order f =
     \<lparr>conn_request = (\<lambda>cmd off p v. case f cmd off p v of ((b, code), v') \<Rightarrow>
        Some (if length b \<le> maxPayload then Ok (answer zero_header b code) else Err ErrClosed, v')),
      conn_quantum = (\<lambda>_. q), norm_nfd = nfd, norm_nfc = nfc, group_order = order\<rparr>"

text \<open>
  \<open>env_sim E E' R al\<close>: in states \<open>R\<close> the environment \<open>E\<close> implements \<open>E'\<close> on the abstract states \<open>al s\<close>:
  every request has the same outcome and leads to the same abstract state.
\<close>

definition env_sim :: "'s env \<Rightarrow> 'v env \<Rightarrow> ('s \<Rightarrow> bool) \<Rightarrow> ('s \<Rightarrow> 'v) \<Rightarrow> bool" where
  "env_sim E E' R al \<longleftrightarrow> norm_nfd E = norm_nfd E' \<and> norm_nfc E = norm_nfc E' \<and>
     (\<forall>s. R s \<longrightarrow> conn_quantum E s = conn_quantum E' (al s)) \<and>
     (\<forall>s cmd off p r v. R s \<longrightarrow> length p < 2 ^ 32 \<longrightarrow> conn_request E' cmd off p (al s) = Some (Ok r, v) \<longrightarrow>
        (\<exists>r' s'. conn_request E cmd off p s = Some (Ok r', s') \<and> Payload r' = Payload r \<and>
           ErrCode (Header r') = ErrCode (Header r) \<and> R s' \<and> al s' = v))"

definition abs_session :: "('s \<Rightarrow> 'v) \<Rightarrow> 's session \<Rightarrow> 'v session" where
  "abs_session al s = \<lparr>sconn = al (sconn s), Version = Version s\<rparr>"

definition lifted :: "('s \<Rightarrow> bool) \<Rightarrow> ('s \<Rightarrow> 'v) \<Rightarrow> ('v session \<Rightarrow> bool) \<Rightarrow> 's session \<Rightarrow> bool" where
  "lifted R al S s \<longleftrightarrow> R (sconn s) \<and> S (abs_session al s)"

lemma request_sim:
  assumes "env_sim E E' R al" and "R (sconn s)" and "length p < 2 ^ 32"
    and "on_sconn (conn_request E' cmd off p) (abs_session al s) = Some (Ok r, v)"
  shows "\<exists>r' s'. on_sconn (conn_request E cmd off p) s = Some (Ok r', s') \<and> Payload r' = Payload r \<and>
     ErrCode (Header r') = ErrCode (Header r) \<and> R (sconn s') \<and> abs_session al s' = v"
proof -
  obtain c where c: "conn_request E' cmd off p (al (sconn s)) = Some (Ok r, c)" "v = \<lparr>sconn = c, Version = Version s\<rparr>"
    using assms(4) by (auto simp: on_sconn_def abs_session_def split: option.splits)
  then obtain r' s' where "conn_request E cmd off p (sconn s) = Some (Ok r', s')" "Payload r' = Payload r"
      "ErrCode (Header r') = ErrCode (Header r)" "R s'" "al s' = c"
    using assms(1-3) unfolding env_sim_def by blast
  then show ?thesis using c(2) by (auto simp: on_sconn_def abs_session_def)
qed

lemma command_sim:
  assumes "env_sim E E' R al" and "R (sconn s)" and "length p < 2 ^ 32"
  shows "command E' p (abs_session al s) = Some (Ok a, v) \<Longrightarrow>
      \<exists>s'. command E p s = Some (Ok a, s') \<and> R (sconn s') \<and> abs_session al s' = v"
    and "commandWrite E' off p (abs_session al s) = Some (Ok a, v) \<Longrightarrow>
      \<exists>s'. commandWrite E off p s = Some (Ok a, s') \<and> R (sconn s') \<and> abs_session al s' = v"
  using request_sim [OF assms, of CmdCommand 0] request_sim [OF assms, of CmdWrite off]
  by (fastforce simp: command_def commandWrite_def io_bind_def io_ret_def split: option.splits res.splits)+

lemma quantum_sim:
  "env_sim E E' R al \<Longrightarrow> R (sconn s) \<Longrightarrow> serverQuantum E s = serverQuantum E' (abs_session al s)"
  by (simp add: env_sim_def serverQuantum_def abs_session_def)

lemma keeps_file_sim:
  assumes "env_sim E E' R al" and "keeps_file E' content S T req" and "length req < 2 ^ 32"
  shows "keeps_file E (\<lambda>s. content (abs_session al s)) (lifted R al S) (lifted R al T) req"
  unfolding keeps_file_def
proof (intro allI impI)
  fix s assume s: "lifted R al S s"
  then obtain r v where "command E' req (abs_session al s) = Some (Ok (r, 0), v)" "T v"
      "content v = content (abs_session al s)"
    using assms(2) unfolding keeps_file_def lifted_def by blast
  with command_sim(1) [OF assms(1) _ assms(3)] s
  show "\<exists>r s'. command E req s = Some (Ok (r, 0), s') \<and> lifted R al T s' \<and> content (abs_session al s') = content (abs_session al s)"
    unfolding lifted_def by metis
qed

lemma reads_file_sim:
  assumes "env_sim E E' R al" and "reads_file E' f F S"
  shows "reads_file E f F (lifted R al S)"
  unfolding reads_file_def
proof (intro allI impI)
  fix s and off cnt :: nat assume s: "lifted R al S s" and b: "off < 2 ^ 63" "cnt < 2 ^ 63" "int cnt \<le> chunkSize f"
  have len: "length (read_request f (int off) cnt) < 2 ^ 32" by (simp add: read_request_def builder_defs Let_def)
  obtain code v where "S v" "command E' (read_request f (int off) cnt) (abs_session al s) = Some (Ok (take cnt (drop off F), code), v)"
      "code = 0 \<or> code = ResEOF \<and> length F < off + cnt"
    using assms(2) s b unfolding reads_file_def lifted_def by blast
  with command_sim(1) [OF assms(1) _ len] s
  show "\<exists>code s'. lifted R al S s' \<and> command E (read_request f (int off) cnt) s = Some (Ok (take cnt (drop off F), code), s')
      \<and> (code = 0 \<or> code = ResEOF \<and> length F < off + cnt)"
    unfolding lifted_def by metis
qed

lemma accepts_writes_sim:
  assumes "env_sim E E' R al" and "accepts_writes E' f content S"
  shows "accepts_writes E f (\<lambda>s. content (abs_session al s)) (lifted R al S)"
  unfolding accepts_writes_def
proof (intro allI impI)
  fix s off and d :: bytes
  assume s: "lifted R al S s" and b: "off + length d < 2 ^ 63" and fits: "write_fits (serverQuantum E s) (length d)"
  have len: "length (write_header f (int off) d @ d) < 2 ^ 32" using fits by (simp add: write_fits_def)
  have q: "serverQuantum E s = serverQuantum E' (abs_session al s)" using quantum_sim [OF assms(1)] s by (simp add: lifted_def)
  obtain r v where "commandWrite E' 20 (write_header f (int off) d @ d) (abs_session al s) = Some (Ok (r, 0), v)"
      "S v" "serverQuantum E' v = serverQuantum E' (abs_session al s)" "content v = write_at (content (abs_session al s)) off d"
    using assms(2) s b fits unfolding accepts_writes_def lifted_def q by blast
  with command_sim(2) [OF assms(1) _ len] s q quantum_sim [OF assms(1)]
  show "\<exists>reply s'. commandWrite E 20 (write_header f (int off) d @ d) s = Some (Ok (reply, 0), s') \<and> lifted R al S s' \<and>
      serverQuantum E s' = serverQuantum E s \<and> content (abs_session al s') = write_at (content (abs_session al s)) off d"
    unfolding lifted_def by metis
qed

lemma length_path_requests:
  assumes "path_ok (norm_nfd E) path"
  shows "length (create_request E v dirID path ow) < 2 ^ 32" "length (open_request E v dirID path mode) < 2 ^ 32"
    "length (close_request f) < 2 ^ 32"
  using assms
  by (simp_all add: path_ok_def create_request_def open_request_def close_request_def builder_path_def builder_defs
      slash_to_nul_def Let_def)

lemma path_request_sim:
  assumes "env_sim E E' R al"
  shows "create_request E v dirID path ow = create_request E' v dirID path ow"
    "open_request E v dirID path mode = open_request E' v dirID path mode"
  using assms by (simp_all add: env_sim_def create_request_def open_request_def)

lemma holds_file_sim:
  assumes "env_sim E E' R al" and "holds_file E' v dirID path fid content S T" and "path_ok (norm_nfd E') path"
  shows "holds_file E v dirID path fid (\<lambda>s. content (abs_session al s)) (lifted R al S) (lifted R al T)"
  unfolding holds_file_def keeps_fork_def
proof (intro conjI allI impI)
  note len = length_path_requests [OF assms(3)]
  fix s assume s: "lifted R al S s"
  obtain r v' where "command E' (create_request E' v dirID path True) (abs_session al s) = Some (Ok (r, 0), v')" "S v'" "content v' = []"
    using assms(2) s unfolding holds_file_def keeps_fork_def lifted_def by blast
  with command_sim(1) [OF assms(1) _ len(1)] s
  show "\<exists>r s'. command E (create_request E v dirID path True) s = Some (Ok (r, 0), s') \<and> lifted R al S s' \<and> content (abs_session al s') = []"
    unfolding lifted_def path_request_sim [OF assms(1)] by metis
  fix mode
  obtain bm v' where "command E' (open_request E' v dirID path mode) (abs_session al s) =
      Some (Ok (put_fork bm fid (length (content (abs_session al s))), 0), v')" "T v'" "content v' = content (abs_session al s)"
    using assms(2) s unfolding holds_file_def keeps_fork_def lifted_def by blast
  with command_sim(1) [OF assms(1) _ len(2)] s
  show "\<exists>bm s'. command E (open_request E v dirID path mode) s = Some (Ok (put_fork bm fid (length (content (abs_session al s))), 0), s')
      \<and> lifted R al T s' \<and> content (abs_session al s') = content (abs_session al s)"
    unfolding lifted_def path_request_sim [OF assms(1)] by metis
next
  fix f :: Fork assume f: "plain_fork fid f"
  then have h: "accepts_writes E' f content T" "keeps_file E' content T S (close_request f)"
      "\<And>F. reads_file E' f F (\<lambda>s. T s \<and> content s = F)"
    using assms(2) unfolding holds_file_def keeps_fork_def by blast+
  show "accepts_writes E f (\<lambda>s. content (abs_session al s)) (lifted R al T)"
    by (rule accepts_writes_sim [OF assms(1) h(1)])
  show "keeps_file E (\<lambda>s. content (abs_session al s)) (lifted R al T) (lifted R al S) (close_request f)"
    by (rule keeps_file_sim [OF assms(1) h(2) length_path_requests(3) [OF assms(3)]])
  have "lifted R al (\<lambda>s. T s \<and> content s = F) = (\<lambda>s. lifted R al T s \<and> content (abs_session al s) = F)" for F
    by (auto simp: lifted_def)
  then show "reads_file E f F (\<lambda>s. lifted R al T s \<and> content (abs_session al s) = F)" for F
    using reads_file_sim [OF assms(1) h(3)] by metis
qed

section \<open>Over the wire\<close>

lemma dsi_env_sim:
  assumes "dsi_serves N f st S"
  shows "env_sim (dsi_env N nfd nfc order) (direct_env q nfd nfc order' f)
    (\<lambda>s. live S s \<and> ServerQuantum (dconn s) = q) (\<lambda>s. st (dworld s))"
  unfolding env_sim_def
proof (intro conjI allI impI)
  fix s cmd off p r v
  assume s: "live S s \<and> ServerQuantum (dconn s) = q" and len: "length p < 2 ^ 32"
    and run: "conn_request (direct_env q nfd nfc order' f) cmd off p (st (dworld s)) = Some (Ok r, v)"
  obtain b code where f: "f cmd off p (st (dworld s)) = ((b, code), v)" and r: "r = answer zero_header b code"
      and b: "length b \<le> maxPayload"
    using run by (auto simp: direct_env_def split: prod.splits if_splits)
  from request_serves [OF assms _ len f b] s r
  show "\<exists>r' s'. conn_request (dsi_env N nfd nfc order) cmd off p s = Some (Ok r', s') \<and> Payload r' = Payload r \<and>
      ErrCode (Header r') = ErrCode (Header r) \<and> (live S s' \<and> ServerQuantum (dconn s') = q) \<and> st (dworld s') = v"
    by (fastforce simp: dsi_env_def answer_def)
qed (simp_all add: dsi_env_def direct_env_def)

end
