(* ===== verification/Go_Crypto.thy ===== *)
theory Go_Crypto
  imports Prelude
begin

text \<open>
  What the login methods use of the Go standard library: \<^verbatim>\<open>math/big\<close>, \<^verbatim>\<open>crypto/sha1\<close>,
  \<^verbatim>\<open>crypto/md5\<close> and the CBC mode of \<^verbatim>\<open>crypto/cipher\<close>. Block ciphers and the source of
  randomness are parameters.
\<close>

section \<open>Big integers\<close>

text \<open>
  The values are natural numbers. \<open>nat_bytes\<close> is \<^verbatim>\<open>Bytes\<close> (no leading zeros), \<open>fillBytes\<close> is
  \<^verbatim>\<open>FillBytes\<close>, which panics when the value does not fit; \<^verbatim>\<open>SetBytes\<close> is \<open>be_val\<close>.
\<close>

fun nat_bytes :: "nat \<Rightarrow> bytes" where
  "nat_bytes n = (if n = 0 then [] else nat_bytes (n div 256) @ [word_of_nat n])"

declare nat_bytes.simps [simp del]

definition fillBytes :: "nat \<Rightarrow> nat \<Rightarrow> bytes res" where
  "fillBytes v n = (if length (nat_bytes v) > n then Panic else Ok (be_bytes n v))"

fun bitLen :: "nat \<Rightarrow> nat" where
  "bitLen n = (if n = 0 then 0 else Suc (bitLen (n div 2)))"

declare bitLen.simps [simp del]

text \<open>\<^verbatim>\<open>Exp(x, y, m)\<close>: by squaring, and without modulus for \<open>m = 0\<close>.\<close>

fun mod_exp :: "nat \<Rightarrow> nat \<Rightarrow> nat \<Rightarrow> nat" where
  "mod_exp x y m =
     (if y = 0 then 1 mod m
      else let h = mod_exp (x * x mod m) (y div 2) m in if odd y then x * h mod m else h)"

declare mod_exp.simps [simp del]

definition big_Exp :: "nat \<Rightarrow> nat \<Rightarrow> nat \<Rightarrow> nat" where
  "big_Exp x y m = mod_exp x y m"

lemma be_val_nat_bytes [simp]: "be_val (nat_bytes n) = n"
proof (induction n rule: nat_bytes.induct)
  case (1 n)
  show ?case
  proof (cases "n = 0")
    case False
    then show ?thesis using 1 by (subst nat_bytes.simps) (simp add: be_val_snoc unat_byte_of_nat)
  qed (simp add: nat_bytes.simps)
qed

lemma length_nat_bytes: "length (nat_bytes n) \<le> k \<longleftrightarrow> n < 256 ^ k"
proof (induction k arbitrary: n)
  case 0
  then show ?case by (subst nat_bytes.simps) simp
next
  case (Suc k)
  show ?case
  proof (cases "n = 0")
    case False
    have "n div 256 < 256 ^ k \<longleftrightarrow> n < 256 ^ k * 256" by (rule div_less_iff_less_mult) simp
    with False Suc [of "n div 256"] show ?thesis by (subst nat_bytes.simps) (simp add: mult.commute)
  qed (simp add: nat_bytes.simps)
qed

lemma fillBytes_Ok: "v < 256 ^ n \<Longrightarrow> fillBytes v n = Ok (be_bytes n v)"
  using length_nat_bytes [of v n] by (simp add: fillBytes_def)

lemma fillBytes_Panic: "fillBytes v n = Panic \<longleftrightarrow> 256 ^ n \<le> v"
  using length_nat_bytes [of v n] by (auto simp: fillBytes_def)

lemma mod_exp_eq: "mod_exp x y m = x ^ y mod m"
proof (induction x y m rule: mod_exp.induct)
  case (1 x y m)
  show ?case
  proof (cases "y = 0")
    case False
    have h: "mod_exp (x * x mod m) (y div 2) m = (x * x) ^ (y div 2) mod m"
      using 1 [OF False] by (simp add: power_mod)
    have e: "x ^ y = (if odd y then x * (x * x) ^ (y div 2) else (x * x) ^ (y div 2))"
      by (auto simp flip: power2_eq_square power_mult power_Suc)
    from False h e show ?thesis
      by (subst mod_exp.simps) (simp add: Let_def mod_mult_right_eq)
  qed (simp add: mod_exp.simps)
qed

lemma bitLen_less: "bitLen n \<le> k \<longleftrightarrow> n < 2 ^ k"
proof (induction k arbitrary: n)
  case 0
  then show ?case by (subst bitLen.simps) simp
next
  case (Suc k)
  show ?case
  proof (cases "n = 0")
    case False
    have "n div 2 < 2 ^ k \<longleftrightarrow> n < 2 ^ k * 2" by (rule div_less_iff_less_mult) simp
    with False Suc [of "n div 2"] show ?thesis by (subst bitLen.simps) (simp add: mult.commute)
  qed (simp add: bitLen.simps)
qed

section \<open>Blocks of bytes\<close>

fun chunks_of :: "nat \<Rightarrow> 'a list \<Rightarrow> 'a list list" where
  "chunks_of n xs = (if n = 0 \<or> xs = [] then [] else take n xs # chunks_of n (drop n xs))"

declare chunks_of.simps [simp del]

definition word_le :: "bytes \<Rightarrow> 32 word" where
  "word_le b = get32 (rev b)"

definition put_le32 :: "32 word \<Rightarrow> bytes" where
  "put_le32 w = rev (put32 w)"

text \<open>The padding of both hash functions: a one bit, zeros, and the length in bits in eight bytes.\<close>

definition md_pad :: "(64 word \<Rightarrow> bytes) \<Rightarrow> bytes \<Rightarrow> bytes" where
  "md_pad len msg = msg @ [0x80] @ replicate ((119 - length msg mod 64) mod 64) 0
     @ len (word_of_nat (8 * length msg))"

section \<open>SHA-1\<close>

type_synonym hash5 = "32 word \<times> 32 word \<times> 32 word \<times> 32 word \<times> 32 word"

definition rotl :: "nat \<Rightarrow> 32 word \<Rightarrow> 32 word" where
  "rotl k w = push_bit k w OR drop_bit (32 - k) w"

definition sha1_f :: "nat \<Rightarrow> 32 word \<Rightarrow> 32 word \<Rightarrow> 32 word \<Rightarrow> 32 word" where
  "sha1_f t b c d =
     (if t < 20 then (b AND c) OR (NOT b AND d)
      else if t < 40 then b XOR c XOR d
      else if t < 60 then (b AND c) OR (b AND d) OR (c AND d)
      else b XOR c XOR d)"

definition sha1_k :: "nat \<Rightarrow> 32 word" where
  "sha1_k t = (if t < 20 then 0x5A827999 else if t < 40 then 0x6ED9EBA1
     else if t < 60 then 0x8F1BBCDC else 0xCA62C1D6)"

text \<open>The message schedule, latest word first.\<close>

primrec sha1_schedule :: "nat \<Rightarrow> 32 word list \<Rightarrow> 32 word list" where
  "sha1_schedule 0 ws = ws"
| "sha1_schedule (Suc n) ws =
     sha1_schedule n (rotl 1 (ws ! 2 XOR ws ! 7 XOR ws ! 13 XOR ws ! 15) # ws)"

fun sha1_round :: "hash5 \<Rightarrow> nat \<times> 32 word \<Rightarrow> hash5" where
  "sha1_round (a, b, c, d, e) (t, w) =
     (rotl 5 a + sha1_f t b c d + e + sha1_k t + w, a, rotl 30 b, c, d)"

fun sha1_block :: "hash5 \<Rightarrow> bytes \<Rightarrow> hash5" where
  "sha1_block (a, b, c, d, e) m =
     (let ws = rev (sha1_schedule 64 (rev (map get32 (chunks_of 4 m)))) in
      case foldl sha1_round (a, b, c, d, e) (zip [0..<80] ws) of
        (a', b', c', d', e') \<Rightarrow> (a + a', b + b', c + c', d + d', e + e'))"

definition sha1 :: "bytes \<Rightarrow> bytes" where
  "sha1 msg =
     (case foldl sha1_block (0x67452301, 0xEFCDAB89, 0x98BADCFE, 0x10325476, 0xC3D2E1F0)
             (chunks_of 64 (md_pad put64 msg)) of
        (a, b, c, d, e) \<Rightarrow> put32 a @ put32 b @ put32 c @ put32 d @ put32 e)"

lemma length_sha1 [simp]: "length (sha1 b) = 20"
  by (simp add: sha1_def split: prod.split)

section \<open>MD5\<close>

type_synonym hash4 = "32 word \<times> 32 word \<times> 32 word \<times> 32 word"

definition md5_k :: "32 word list" where
  "md5_k =
    [0xd76aa478, 0xe8c7b756, 0x242070db, 0xc1bdceee, 0xf57c0faf, 0x4787c62a, 0xa8304613, 0xfd469501,
     0x698098d8, 0x8b44f7af, 0xffff5bb1, 0x895cd7be, 0x6b901122, 0xfd987193, 0xa679438e, 0x49b40821,
     0xf61e2562, 0xc040b340, 0x265e5a51, 0xe9b6c7aa, 0xd62f105d, 0x2441453, 0xd8a1e681, 0xe7d3fbc8,
     0x21e1cde6, 0xc33707d6, 0xf4d50d87, 0x455a14ed, 0xa9e3e905, 0xfcefa3f8, 0x676f02d9, 0x8d2a4c8a,
     0xfffa3942, 0x8771f681, 0x6d9d6122, 0xfde5380c, 0xa4beea44, 0x4bdecfa9, 0xf6bb4b60, 0xbebfbc70,
     0x289b7ec6, 0xeaa127fa, 0xd4ef3085, 0x4881d05, 0xd9d4d039, 0xe6db99e5, 0x1fa27cf8, 0xc4ac5665,
     0xf4292244, 0x432aff97, 0xab9423a7, 0xfc93a039, 0x655b59c3, 0x8f0ccc92, 0xffeff47d, 0x85845dd1,
     0x6fa87e4f, 0xfe2ce6e0, 0xa3014314, 0x4e0811a1, 0xf7537e82, 0xbd3af235, 0x2ad7d2bb, 0xeb86d391]"

definition md5_s :: "nat list" where
  "md5_s =
    [7, 12, 17, 22, 7, 12, 17, 22, 7, 12, 17, 22, 7, 12, 17, 22,
     5, 9, 14, 20, 5, 9, 14, 20, 5, 9, 14, 20, 5, 9, 14, 20,
     4, 11, 16, 23, 4, 11, 16, 23, 4, 11, 16, 23, 4, 11, 16, 23,
     6, 10, 15, 21, 6, 10, 15, 21, 6, 10, 15, 21, 6, 10, 15, 21]"

definition md5_fg :: "nat \<Rightarrow> 32 word \<Rightarrow> 32 word \<Rightarrow> 32 word \<Rightarrow> 32 word \<times> nat" where
  "md5_fg i b c d =
     (if i < 16 then ((b AND c) OR (NOT b AND d), i)
      else if i < 32 then ((d AND b) OR (NOT d AND c), (5 * i + 1) mod 16)
      else if i < 48 then (b XOR c XOR d, (3 * i + 5) mod 16)
      else (c XOR (b OR NOT d), 7 * i mod 16))"

fun md5_round :: "32 word list \<Rightarrow> hash4 \<Rightarrow> nat \<Rightarrow> hash4" where
  "md5_round ms (a, b, c, d) i =
     (case md5_fg i b c d of (f, g) \<Rightarrow>
        (d, b + rotl (md5_s ! i) (f + a + md5_k ! i + ms ! g), b, c))"

fun md5_block :: "hash4 \<Rightarrow> bytes \<Rightarrow> hash4" where
  "md5_block (a, b, c, d) m =
     (case foldl (md5_round (map word_le (chunks_of 4 m))) (a, b, c, d) [0..<64] of
        (a', b', c', d') \<Rightarrow> (a + a', b + b', c + c', d + d'))"

definition md5 :: "bytes \<Rightarrow> bytes" where
  "md5 msg =
     (case foldl md5_block (0x67452301, 0xEFCDAB89, 0x98BADCFE, 0x10325476)
             (chunks_of 64 (md_pad (\<lambda>n. rev (put64 n)) msg)) of
        (a, b, c, d) \<Rightarrow> put_le32 a @ put_le32 b @ put_le32 c @ put_le32 d)"

lemma length_md5 [simp]: "length (md5 b) = 16"
  by (simp add: md5_def put_le32_def split: prod.split)

section \<open>Cipher block chaining\<close>

record cipher =
  encBlock :: "bytes \<Rightarrow> bytes"
  decBlock :: "bytes \<Rightarrow> bytes"

definition xor_bytes :: "bytes \<Rightarrow> bytes \<Rightarrow> bytes" where
  "xor_bytes a b = map2 (XOR) a b"

primrec cbc_enc :: "cipher \<Rightarrow> bytes \<Rightarrow> bytes list \<Rightarrow> bytes" where
  "cbc_enc c iv [] = []"
| "cbc_enc c iv (b # bs) = (let x = encBlock c (xor_bytes iv b) in x @ cbc_enc c x bs)"

primrec cbc_dec :: "cipher \<Rightarrow> bytes \<Rightarrow> bytes list \<Rightarrow> bytes" where
  "cbc_dec c iv [] = []"
| "cbc_dec c iv (b # bs) = xor_bytes iv (decBlock c b) @ cbc_dec c b bs"

text \<open>\<^verbatim>\<open>CryptBlocks\<close> panics when the input is not full blocks; CAST5 has blocks of eight bytes.\<close>

definition crypt_blocks :: "(bytes list \<Rightarrow> bytes) \<Rightarrow> bytes \<Rightarrow> bytes res" where
  "crypt_blocks f b = (if length b mod 8 \<noteq> 0 then Panic else Ok (f (chunks_of 8 b)))"

text \<open>What a block cipher promises: it maps blocks to blocks and decryption undoes encryption.\<close>

definition block_cipher :: "cipher \<Rightarrow> bool" where
  "block_cipher c \<longleftrightarrow>
     (\<forall>b. length b = 8 \<longrightarrow> length (encBlock c b) = 8 \<and> length (decBlock c b) = 8
                         \<and> decBlock c (encBlock c b) = b)"

lemma block_cipherD:
  assumes "block_cipher c" and "length b = 8"
  shows "length (encBlock c b) = 8" "length (decBlock c b) = 8" "decBlock c (encBlock c b) = b"
  using assms by (auto simp: block_cipher_def)

lemma length_xor_bytes [simp]: "length (xor_bytes a b) = min (length a) (length b)"
  by (simp add: xor_bytes_def)

lemma xor_bytes_cancel [simp]: "length a = length b \<Longrightarrow> xor_bytes a (xor_bytes a b) = b"
  by (simp add: list_eq_iff_nth_eq xor_bytes_def bit.xor_left_self)

lemma chunks_of_Nil [simp]: "chunks_of n [] = []"
  by (subst chunks_of.simps) simp

lemma chunks_of_append: "length a = n \<Longrightarrow> 0 < n \<Longrightarrow> chunks_of n (a @ xs) = a # chunks_of n xs"
  by (subst chunks_of.simps) auto

text \<open>Induction over the blocks of a message.\<close>

lemma blocks_induct [consumes 1, case_names Nil Block]:
  assumes "length b mod 8 = 0" and "P []"
    and "\<And>a b. length a = 8 \<Longrightarrow> length b mod 8 = 0 \<Longrightarrow> P b \<Longrightarrow> P (a @ b)"
  shows "P (b :: bytes)"
  using assms(1)
proof (induction "length b" arbitrary: b rule: less_induct)
  case less
  show ?case
  proof (cases "b = []")
    case True
    then show ?thesis using assms(2) by simp
  next
    case False
    with less.prems have l: "8 \<le> length b" by (cases "length b < 8") auto
    with less.prems have "length (drop 8 b) mod 8 = 0" by (simp add: le_mod_geq)
    moreover have "length (drop 8 b) < length b" using l by simp
    ultimately have "P (take 8 b @ drop 8 b)" using less.hyps l by (intro assms(3)) auto
    then show ?thesis by simp
  qed
qed

lemma length_cbc:
  assumes "block_cipher c" and "length b mod 8 = 0"
  shows "length iv = 8 \<Longrightarrow> length (cbc_enc c iv (chunks_of 8 b)) = length b"
    and "length iv = 8 \<Longrightarrow> length (cbc_dec c iv (chunks_of 8 b)) = length b"
  using assms(2)
  by (induction b arbitrary: iv rule: blocks_induct)
     (simp_all add: chunks_of_append Let_def block_cipherD [OF assms(1)])

lemma cbc_roundtrip:
  assumes "block_cipher c" and "length b mod 8 = 0" and "length iv = 8"
  shows "cbc_dec c iv (chunks_of 8 (cbc_enc c iv (chunks_of 8 b))) = b"
  using assms(2,3)
  by (induction b arbitrary: iv rule: blocks_induct)
     (simp_all add: chunks_of_append Let_def block_cipherD [OF assms(1)])

end
