(* ===== verification/Uam.thy ===== *)
theory Uam
  imports Session Go_Crypto
begin

text \<open>
  \<^verbatim>\<open>internal/afp/uam.go\<close>: the guest, cleartext and DHX2 login methods. CAST5 of
  \<^verbatim>\<open>golang.org/x/crypto\<close> and the random bytes are parameters.
\<close>

section \<open>Definitions\<close>

text \<open>\<open>rand_Read k n\<close> is the outcome of the \<open>k\<close>-th read of \<open>n\<close> random bytes of a login.\<close>

record crypto =
  cast5_NewCipher :: "bytes \<Rightarrow> cipher res"
  rand_Read :: "nat \<Rightarrow> nat \<Rightarrow> bytes res"

definition uamNoAuth :: string where "uamNoAuth = ''No User Authent''"
definition uamCleartext :: string where "uamCleartext = ''Cleartxt Passwrd''"
definition uamDHX2 :: string where "uamDHX2 = ''DHX2''"
definition uamSRP :: string where "uamSRP = ''SRP''"

lemmas uam_defs = uamNoAuth_def uamCleartext_def uamDHX2_def uamSRP_def

definition loginGuest :: "'s env \<Rightarrow> ('s session, unit) io" where
  "loginGuest E =
     io_bind (login E uamNoAuth []) (\<lambda>(_, code). io_res (of_err (resultErr ''guest login'' code)))"

text \<open>\<^verbatim>\<open>copy(dst[:], src)\<close> into \<open>n\<close> zero bytes.\<close>

definition copy_into :: "nat \<Rightarrow> bytes \<Rightarrow> bytes" where
  "copy_into n b = take n b @ replicate (n - length b) 0"

definition cleartext_auth :: "string \<Rightarrow> string \<Rightarrow> string \<Rightarrow> bytes" where
  "cleartext_auth version username password =
     (let w = builder_pascal [] username;
          prefix = 1 + (1 + length version) + (1 + length uamCleartext);
          w = (if (prefix + length w) mod 2 = 1 then builder_u8 w 0 else w)
      in builder_bytes w (copy_into 8 (bytes_of_string password)))"

definition loginCleartext :: "'s env \<Rightarrow> string \<Rightarrow> string \<Rightarrow> ('s session, unit) io" where
  "loginCleartext E username password = (\<lambda>s.
     io_bind (login E uamCleartext (cleartext_auth (Version s) username password)) (\<lambda>(_, code).
       io_res (of_err (resultErr ''cleartext login'' code))) s)"

definition dhxClientIV :: bytes where "dhxClientIV = bytes_of_string ''LWallace''"
definition dhxServerIV :: bytes where "dhxServerIV = bytes_of_string ''CJalbert''"
definition dhx2MaxKeyLen :: nat where "dhx2MaxKeyLen = 1024"
definition dhx2NonceLen :: nat where "dhx2NonceLen = 16"

definition leftPad :: "nat \<Rightarrow> nat \<Rightarrow> bytes res" where
  "leftPad v n = fillBytes v n"

definition incNonce :: "bytes \<Rightarrow> bytes" where
  "incNonce nonce =
     (let b = nat_bytes (be_val nonce + 1);
          n = length nonce;
          b = (if length b > n then drop (length b - n) b else b)
      in replicate (n - length b) 0 @ b)"

definition cbcEncrypt :: "cipher \<Rightarrow> bytes \<Rightarrow> bytes \<Rightarrow> bytes res" where
  "cbcEncrypt block iv plain = crypt_blocks (cbc_enc block iv) plain"

definition cbcDecrypt :: "cipher \<Rightarrow> bytes \<Rightarrow> bytes \<Rightarrow> bytes res" where
  "cbcDecrypt block iv ct = crypt_blocks (cbc_dec block iv) ct"

text \<open>The first reply: transaction ID, \<open>g\<close>, the key length, \<open>p\<close> and the server's public value.\<close>

definition dhx2_params :: "bytes \<Rightarrow> (16 word \<times> nat \<times> nat \<times> nat \<times> nat) res" where
  "dhx2_params payload =
     (let r = new_reader payload;
          (tid, r) = reader_u16 ''transaction id'' r;
          (gb, r) = reader_take 4 ''g'' r;
          g = be_val (or_nil gb);
          (kl, r) = reader_u16 ''key length'' r;
          keyLen = unat kl in
      if rerr r = None \<and> (keyLen = 0 \<or> keyLen > dhx2MaxKeyLen)
      then Err (Errorf ''afp: DHX2: unreasonable key length %d'' [AInt (int keyLen)])
      else
        let (pb, r) = reader_take keyLen ''p'' r;
            p = be_val (or_nil pb);
            (mb, r) = reader_take keyLen ''Mb'' r in
        case rerr r of
          Some e \<Rightarrow> Err e
        | None \<Rightarrow>
            if g = 0 \<or> bitLen p < 64
            then Err (Errorf ''afp: DHX2: degenerate DH parameters from server'' [])
            else Ok (tid, g, keyLen, p, be_val (or_nil mb)))"

text \<open>What the client computes between the first two messages: its cipher, its nonce, its message.\<close>

definition dhx2_step2 :: "crypto \<Rightarrow> nat \<Rightarrow> nat \<Rightarrow> nat \<Rightarrow> nat \<Rightarrow> (cipher \<times> bytes \<times> bytes) res" where
  "dhx2_step2 C g keyLen p mb =
     res_bind (rand_Read C 0 keyLen) (\<lambda>raBytes.
     let ra = be_val raBytes;
         ma = big_Exp g ra p;
         k = big_Exp mb ra p in
     res_bind (leftPad k keyLen) (\<lambda>kb.
     res_bind (cast5_NewCipher C (md5 kb)) (\<lambda>block.
     res_bind (rand_Read C 1 dhx2NonceLen) (\<lambda>clientNonce.
     res_bind (leftPad ma keyLen) (\<lambda>mab.
     res_bind (cbcEncrypt block dhxClientIV clientNonce) (\<lambda>enc.
       Ok (block, clientNonce, mab @ enc)))))))"

text \<open>The second reply: the new transaction ID and the last message, once the nonce is checked.\<close>

definition dhx2_step3 :: "cipher \<Rightarrow> bytes \<Rightarrow> string \<Rightarrow> bytes \<Rightarrow> (16 word \<times> bytes) res" where
  "dhx2_step3 block clientNonce password payload =
     (let r = new_reader payload;
          (tid, r) = reader_u16 ''transaction id'' r;
          (ct, r) = reader_take (dhx2NonceLen * 2) ''nonce block'' r in
      case rerr r of
        Some e \<Rightarrow> Err e
      | None \<Rightarrow>
          res_bind (cbcDecrypt block dhxServerIV (or_nil ct)) (\<lambda>plain.
          if take dhx2NonceLen plain \<noteq> incNonce clientNonce
          then Err (Errorf ''afp: DHX2: server failed nonce check (wrong DH result?)'' [])
          else
            let serverNonce = drop dhx2NonceLen plain;
                final = copy_into dhx2NonceLen (incNonce serverNonce)
                        @ copy_into 256 (bytes_of_string password) in
            res_bind (cbcEncrypt block dhxClientIV final) (\<lambda>enc. Ok (tid, enc))))"

definition loginDHX2 :: "'s env \<Rightarrow> crypto \<Rightarrow> string \<Rightarrow> string \<Rightarrow> ('s session, unit) io" where
  "loginDHX2 E C username password =
     io_bind (login E uamDHX2 (builder_pascal [] username)) (\<lambda>(payload, code).
     if code \<noteq> ResAuthContinue then io_res (of_err (resultErr ''DHX2 login'' code))
     else
       io_bind (io_res (dhx2_params payload)) (\<lambda>(tid, g, keyLen, p, mb).
       io_bind (io_res (dhx2_step2 C g keyLen p mb)) (\<lambda>(block, clientNonce, step2).
       io_bind (loginCont E tid step2) (\<lambda>(payload, code).
       if code \<noteq> ResAuthContinue then io_res (of_err (resultErr ''DHX2 exchange'' code))
       else
         io_bind (io_res (dhx2_step3 block clientNonce password payload)) (\<lambda>(tid, final).
         io_bind (loginCont E tid final) (\<lambda>(_, code).
           io_res (of_err (resultErr ''DHX2 login'' code))))))))"

section \<open>Nonces\<close>

lemma nat_bytes_0: "nat_bytes 0 = []"
  by (subst nat_bytes.simps) simp

lemma drop_nat_bytes: "n \<le> length (nat_bytes v) \<Longrightarrow> drop (length (nat_bytes v) - n) (nat_bytes v) = be_bytes n v"
proof (induction n arbitrary: v)
  case (Suc n)
  then have "v \<noteq> 0" using nat_bytes_0 by (cases "v = 0") simp_all
  then have v: "nat_bytes v = nat_bytes (v div 256) @ [word_of_nat v]" by (subst nat_bytes.simps) simp
  with Suc.prems have "n \<le> length (nat_bytes (v div 256))" by simp
  from Suc.IH [OF this] show ?case unfolding v by simp
qed simp

lemma pad_nat_bytes: "length (nat_bytes v) \<le> n \<Longrightarrow> replicate (n - length (nat_bytes v)) 0 @ nat_bytes v = be_bytes n v"
proof (induction n arbitrary: v)
  case 0
  then show ?case by simp
next
  case (Suc n)
  show ?case
  proof (cases "v = 0")
    case True
    have "be_bytes n 0 = replicate n 0" using Suc.IH [of 0] by (simp add: nat_bytes_0)
    then show ?thesis using True by (simp add: nat_bytes_0 replicate_append_same)
  next
    case False
    then have v: "nat_bytes v = nat_bytes (v div 256) @ [word_of_nat v]" by (subst nat_bytes.simps) simp
    with Suc.prems Suc.IH [of "v div 256"] show ?thesis unfolding v by simp
  qed
qed

text \<open>Addition of one modulo \<open>256 ^ len\<close>: the all-ones nonce wraps to zero.\<close>

lemma incNonce_eq: "incNonce nonce = be_bytes (length nonce) (be_val nonce + 1)"
proof (cases "length (nat_bytes (be_val nonce + 1)) > length nonce")
  case True
  then show ?thesis using drop_nat_bytes [of "length nonce" "be_val nonce + 1"]
    by (simp add: incNonce_def Let_def)
next
  case False
  then show ?thesis using pad_nat_bytes [of "be_val nonce + 1" "length nonce"]
    by (simp add: incNonce_def Let_def)
qed

lemma length_incNonce [simp]: "length (incNonce n) = length n"
  by (simp add: incNonce_eq)

section \<open>What the cryptographic parameters promise\<close>

text \<open>
  The documented behaviour of \<^verbatim>\<open>cast5.NewCipher\<close> on 16-byte keys and of \<^verbatim>\<open>rand.Read\<close>, which fills
  the buffer or reports an error.
\<close>

definition crypto_ok :: "crypto \<Rightarrow> bool" where
  "crypto_ok C \<longleftrightarrow>
     (\<forall>key. length key = 16 \<longrightarrow> (\<exists>c. cast5_NewCipher C key = Ok c \<and> block_cipher c)) \<and>
     (\<forall>k n. (\<exists>e. rand_Read C k n = Err e) \<or> (\<exists>b. rand_Read C k n = Ok b \<and> length b = n))"

lemma crypto_ok_cipher:
  assumes "crypto_ok C" and "length key = 16"
  obtains c where "cast5_NewCipher C key = Ok c" and "block_cipher c"
  using assms by (auto simp: crypto_ok_def)

lemma crypto_ok_rand:
  assumes "crypto_ok C"
  obtains e where "rand_Read C k n = Err e" | b where "rand_Read C k n = Ok b" and "length b = n"
  using assms unfolding crypto_ok_def by blast

lemma length_copy_into [simp]: "length (copy_into n b) = n"
  by (simp add: copy_into_def)

lemma length_iv [simp]: "length dhxClientIV = 8" "length dhxServerIV = 8"
  by (simp_all add: dhxClientIV_def dhxServerIV_def)

lemma cbcEncrypt_Ok: "length b mod 8 = 0 \<Longrightarrow> cbcEncrypt c iv b = Ok (cbc_enc c iv (chunks_of 8 b))"
  by (simp add: cbcEncrypt_def crypt_blocks_def)

lemma cbcDecrypt_Ok: "length b mod 8 = 0 \<Longrightarrow> cbcDecrypt c iv b = Ok (cbc_dec c iv (chunks_of 8 b))"
  by (simp add: cbcDecrypt_def crypt_blocks_def)

lemma leftPad_Ok: "v < 256 ^ n \<Longrightarrow> leftPad v n = Ok (be_bytes n v)"
  by (simp add: leftPad_def fillBytes_Ok)

lemma big_Exp_eq: "big_Exp x y m = x ^ y mod m"
  by (simp add: big_Exp_def mod_exp_eq)

lemma bitLen_ge: "64 \<le> bitLen p \<longleftrightarrow> 2 ^ 63 \<le> p"
  using bitLen_less [of p 63] by auto

section \<open>No panic in DHX2\<close>

lemma dhx2_params_not_Panic: "dhx2_params payload \<noteq> Panic"
  by (simp add: dhx2_params_def case_prod_beta Let_def split: option.split)

lemma dhx2_params_bounds:
  assumes "dhx2_params payload = Ok (tid, g, keyLen, p, mb)"
  shows "0 < p \<and> p < 256 ^ keyLen"
proof -
  have "\<exists>r. p = be_val (or_nil (fst (reader_take keyLen ''p'' r))) \<and> 64 \<le> bitLen p"
    using assms by (auto simp: dhx2_params_def case_prod_beta Let_def split: if_splits option.splits)
  then obtain r where r: "p = be_val (or_nil (fst (reader_take keyLen ''p'' r)))" and "2 ^ 63 \<le> p"
    by (auto simp: bitLen_ge)
  then have "0 < p" by (auto intro: gr0I)
  then obtain v where "fst (reader_take keyLen ''p'' r) = Some v" "p = be_val v"
    using r by (auto simp: or_nil_def split: option.splits)
  with \<open>0 < p\<close> show ?thesis
    using reader_take_fst [of keyLen "''p''" r v] be_val_less [of v] by (metis prod.collapse)
qed

lemma mod_fits: "0 < p \<Longrightarrow> p < 256 ^ n \<Longrightarrow> x mod p < (256 :: nat) ^ n"
  using mod_less_divisor [of p x] by linarith

lemma dhx2_step2_Ok:
  assumes "0 < p" and "p < 256 ^ keyLen"
    and "rand_Read C 0 keyLen = Ok ra" and "rand_Read C 1 16 = Ok cn" and "length cn = 16"
    and "cast5_NewCipher C (md5 (be_bytes keyLen (mb ^ be_val ra mod p))) = Ok c"
  shows "dhx2_step2 C g keyLen p mb =
    Ok (c, cn, be_bytes keyLen (g ^ be_val ra mod p) @ cbc_enc c dhxClientIV (chunks_of 8 cn))"
  using assms
  by (simp add: dhx2_step2_def big_Exp_eq leftPad_Ok mod_fits cbcEncrypt_Ok dhx2NonceLen_def)

lemma dhx2_step2_outcome:
  assumes "crypto_ok C" and p: "0 < p" "p < 256 ^ keyLen"
  obtains e where "dhx2_step2 C g keyLen p mb = Err e"
    | c n m where "dhx2_step2 C g keyLen p mb = Ok (c, n, m)" and "block_cipher c" and "length n = 16"
proof (cases rule: crypto_ok_rand [OF assms(1), of 0 keyLen])
  case (1 e)
  then show thesis by (intro that(1) [of e]) (simp add: dhx2_step2_def)
next
  case (2 ra)
  obtain c where c: "cast5_NewCipher C (md5 (be_bytes keyLen (mb ^ be_val ra mod p))) = Ok c" "block_cipher c"
    using crypto_ok_cipher [OF assms(1)] by (metis length_md5)
  show thesis
  proof (cases rule: crypto_ok_rand [OF assms(1), of 1 16])
    case (1 e)
    then show thesis using 2 c p
      by (intro that(1) [of e]) (simp add: dhx2_step2_def big_Exp_eq leftPad_Ok mod_fits dhx2NonceLen_def)
  next
    case (2 cn)
    with \<open>rand_Read C 0 keyLen = Ok ra\<close> c show thesis
      using dhx2_step2_Ok [OF p] that(2) by blast
  qed
qed

lemma dhx2_step3_not_Panic: "dhx2_step3 block cn password payload \<noteq> Panic"
proof -
  have "length v = 32" if "reader_take (dhx2NonceLen * 2) ''nonce block'' r = (Some v, r')" for r r' v
    using reader_take_fst [OF that] by (simp add: dhx2NonceLen_def)
  then show ?thesis
    by (auto simp: dhx2_step3_def case_prod_beta Let_def res_bind_Panic_iff cbcDecrypt_Ok cbcEncrypt_Ok
        dhx2NonceLen_def or_nil_def prod_eq_iff split: option.splits if_splits)
qed

context afp_layer
begin

lemma loginGuest_safe: "io_safe sound (loginGuest E)"
  unfolding loginGuest_def by (intro io_safe_bind io_safe_prod login_safe io_safe_res) simp

lemma loginCleartext_safe: "io_safe sound (loginCleartext E username password)"
proof -
  have "io_safe sound (io_bind (login E uamCleartext a) (\<lambda>(_, code). io_res (of_err (resultErr ''cleartext login'' code))))"
    for a by (intro io_safe_bind io_safe_prod login_safe io_safe_res) simp
  then show ?thesis unfolding loginCleartext_def io_safe_def by blast
qed

lemma dhx2_exchange_safe:
  "io_safe sound (io_bind (loginCont E tid step2) (\<lambda>(payload, code).
     if code \<noteq> ResAuthContinue then io_res (of_err (resultErr ''DHX2 exchange'' code))
     else io_bind (io_res (dhx2_step3 block cn password payload)) (\<lambda>(tid, final).
          io_bind (loginCont E tid final) (\<lambda>(_, code). io_res (of_err (resultErr ''DHX2 login'' code))))))"
  by (intro io_safe_bind io_safe_prod io_safe_if loginCont_safe io_safe_res dhx2_step3_not_Panic) simp_all

lemma loginDHX2_safe:
  assumes "crypto_ok C"
  shows "io_safe sound (loginDHX2 E C username password)"
proof -
  have step2: "dhx2_step2 C g keyLen p mb \<noteq> Panic" if "dhx2_params payload = Ok (tid, g, keyLen, p, mb)"
    for payload tid g keyLen p mb
    using dhx2_params_bounds [OF that] by (auto elim: dhx2_step2_outcome [OF assms, where g = g and mb = mb])
  show ?thesis
    unfolding loginDHX2_def
    by (intro io_safe_bind [OF login_safe] io_safe_prod io_safe_if)
       (auto intro!: io_safe_bind_res dhx2_exchange_safe simp: step2 dhx2_params_not_Panic split: prod.split)
qed

end

section \<open>DHX2 with a server that follows the protocol\<close>

text \<open>
  The server's side of the exchange as the AFP reference describes it: it picks the group, its
  secret and its nonce, and accepts what \<open>dcheck\<close> accepts.
\<close>

record dhx2_cfg =
  dg :: nat
  dp :: nat
  dlen :: nat
  dsecret :: nat
  dnonce :: bytes
  dtid :: "16 word"
  dcipher :: "bytes \<Rightarrow> cipher res"
  dcheck :: "string \<Rightarrow> bytes \<Rightarrow> bool"

datatype dhx2_state =
    DhIdle
  | DhKey string
  | DhNonce string cipher
  | DhAccepted string bytes
  | DhRejected

definition dhx2_reject :: "(bytes \<times> 32 word) \<times> dhx2_state" where
  "dhx2_reject = (([], word_of_int ResUserNotAuth), DhRejected)"

fun dhx2_server :: "dhx2_cfg \<Rightarrow> bytes \<Rightarrow> dhx2_state \<Rightarrow> (bytes \<times> 32 word) \<times> dhx2_state" where
  "dhx2_server D m DhIdle =
     (let r = new_reader m;
          (cmd, r) = reader_u8 [] r;
          (_, r) = reader_pascal [] r;
          (uam, r) = reader_pascal [] r;
          (user, r) = reader_pascal [] r in
      if rerr r \<noteq> None \<or> cmd \<noteq> cmdLogin \<or> uam \<noteq> ''DHX2'' then dhx2_reject
      else ((put16 (dtid D) @ be_bytes 4 (dg D) @ put16 (word_of_nat (dlen D)) @ be_bytes (dlen D) (dp D)
               @ be_bytes (dlen D) (dg D ^ dsecret D mod dp D), word_of_int ResAuthContinue), DhKey user))"
| "dhx2_server D m (DhKey user) =
     (let r = new_reader m;
          (cmd, r) = reader_u8 [] r;
          (_, r) = reader_u8 [] r;
          (tid, r) = reader_u16 [] r;
          (ma, r) = reader_take (dlen D) [] r;
          (ct, r) = reader_take 16 [] r in
      if rerr r \<noteq> None \<or> cmd \<noteq> cmdLoginCont \<or> tid \<noteq> dtid D then dhx2_reject
      else case dcipher D (md5 (be_bytes (dlen D) (be_val (or_nil ma) ^ dsecret D mod dp D))) of
        Ok c \<Rightarrow>
          let cn = cbc_dec c dhxClientIV (chunks_of 8 (or_nil ct)) in
          ((put16 (dtid D + 1) @ cbc_enc c dhxServerIV (chunks_of 8 (be_bytes 16 (be_val cn + 1) @ dnonce D)),
            word_of_int ResAuthContinue), DhNonce user c)
      | _ \<Rightarrow> dhx2_reject)"
| "dhx2_server D m (DhNonce user c) =
     (let r = new_reader m;
          (cmd, r) = reader_u8 [] r;
          (_, r) = reader_u8 [] r;
          (tid, r) = reader_u16 [] r;
          (ct, r) = reader_take 272 [] r;
          plain = cbc_dec c dhxClientIV (chunks_of 8 (or_nil ct)) in
      if rerr r \<noteq> None \<or> cmd \<noteq> cmdLoginCont \<or> tid \<noteq> dtid D + 1
         \<or> take 16 plain \<noteq> be_bytes 16 (be_val (dnonce D) + 1) \<or> \<not> dcheck D user (drop 16 plain)
      then dhx2_reject
      else (([], 0), DhAccepted user (drop 16 plain)))"
| "dhx2_server D m (DhAccepted user pw) = dhx2_reject"
| "dhx2_server D m DhRejected = dhx2_reject"

definition dhx2_cfg_ok :: "dhx2_cfg \<Rightarrow> bool" where
  "dhx2_cfg_ok D \<longleftrightarrow> 0 < dg D \<and> dg D < 2 ^ 32 \<and> 2 ^ 63 \<le> dp D \<and> dp D < 256 ^ dlen D
     \<and> dlen D \<le> 1024 \<and> length (dnonce D) = 16"

lemma dhx2_cfg_okD:
  assumes "dhx2_cfg_ok D"
  shows "0 < dp D" "dp D < 256 ^ dlen D" "0 < dlen D" "dlen D \<le> 1024" "length (dnonce D) = 16"
  using assms by (auto simp: dhx2_cfg_ok_def intro!: gr0I)

lemma login_request:
  "login E uam a s = command E (cmdLogin # put_pascal (take 255 (Version s)) @ put_pascal (take 255 uam) @ a) s"
  by (simp add: login_def builder_pascal_eq builder_defs Let_def)

lemma loginCont_request: "loginCont E tid a = command E (cmdLoginCont # 0 # put16 tid @ a)"
  by (simp add: loginCont_def builder_defs Let_def)

lemma reader_take_last [simp]: "length v = n \<Longrightarrow> reader_take n what (rd pre v) = (Some v, rd (pre @ v) [])"
  using reader_take_rd [of v n what pre "[]"] by simp

lemma dhx2_params_put:
  assumes "dhx2_cfg_ok D"
  shows "dhx2_params (put16 tid @ be_bytes 4 (dg D) @ put16 (word_of_nat (dlen D)) @ be_bytes (dlen D) (dp D)
           @ be_bytes (dlen D) (x mod dp D)) = Ok (tid, dg D, dlen D, dp D, x mod dp D)"
proof -
  note D = dhx2_cfg_okD [OF assms]
  have "unat (word_of_nat (dlen D) :: 16 word) = dlen D" using D(4) by (simp add: unat_of_nat)
  moreover have "be_val (be_bytes 4 (dg D)) = dg D" "be_val (be_bytes (dlen D) (dp D)) = dp D"
      "be_val (be_bytes (dlen D) (x mod dp D)) = x mod dp D"
    using assms D by (simp_all add: be_val_be_bytes dhx2_cfg_ok_def mod_fits)
  moreover have "\<not> bitLen (dp D) < 64" using assms by (simp add: dhx2_cfg_ok_def not_less bitLen_ge)
  ultimately show ?thesis using D assms
    by (simp add: dhx2_params_def new_reader_rd or_nil_def dhx2MaxKeyLen_def dhx2_cfg_ok_def Let_def)
qed

lemma dh_agree: "((g :: nat) ^ a mod p) ^ b mod p = (g ^ b mod p) ^ a mod p"
  by (simp add: power_mod flip: power_mult) (simp add: mult.commute)

lemma dhx2_server_idle:
  "dhx2_server D (cmdLogin # put_pascal (take 255 v) @ put_pascal (take 255 uamDHX2) @ put_pascal (take 255 u)) DhIdle =
    ((put16 (dtid D) @ be_bytes 4 (dg D) @ put16 (word_of_nat (dlen D)) @ be_bytes (dlen D) (dp D)
               @ be_bytes (dlen D) (dg D ^ dsecret D mod dp D), word_of_int ResAuthContinue), DhKey (take 255 u))"
  by (simp add: new_reader_rd uamDHX2_def)

lemma dhx2_server_key:
  assumes "dhx2_cfg_ok D" and "block_cipher c" and "length cn = 16"
    and c: "dcipher D (md5 (be_bytes (dlen D) ((x mod dp D) ^ dsecret D mod dp D))) = Ok c"
  shows "dhx2_server D (cmdLoginCont # 0 # put16 (dtid D) @ be_bytes (dlen D) (x mod dp D)
            @ cbc_enc c dhxClientIV (chunks_of 8 cn)) (DhKey u) =
    ((put16 (dtid D + 1) @ cbc_enc c dhxServerIV (chunks_of 8 (incNonce cn @ dnonce D)),
      word_of_int ResAuthContinue), DhNonce u c)"
proof -
  note D = dhx2_cfg_okD [OF assms(1)]
  have "length (cbc_enc c dhxClientIV (chunks_of 8 cn)) = 16"
    using assms(2,3) by (simp add: length_cbc)
  moreover have "be_val (be_bytes (dlen D) (x mod dp D)) = x mod dp D"
    using D by (simp add: be_val_be_bytes mod_fits)
  ultimately show ?thesis using assms
    by (simp add: new_reader_rd or_nil_def cbc_roundtrip incNonce_eq Let_def)
qed

lemma dhx2_step3_honest:
  assumes "block_cipher c" and "length cn = 16" and "length ns = 16"
  shows "dhx2_step3 c cn pw (put16 tid @ cbc_enc c dhxServerIV (chunks_of 8 (incNonce cn @ ns))) =
    Ok (tid, cbc_enc c dhxClientIV (chunks_of 8 (incNonce ns @ copy_into 256 (bytes_of_string pw))))"
proof -
  have l: "length (cbc_enc c dhxServerIV (chunks_of 8 (incNonce cn @ ns))) = 32"
    using assms by (simp add: length_cbc)
  have "copy_into 16 (incNonce ns) = incNonce ns" using assms by (simp add: copy_into_def)
  with l assms show ?thesis
    by (simp add: dhx2_step3_def new_reader_rd or_nil_def dhx2NonceLen_def cbcDecrypt_Ok cbc_roundtrip cbcEncrypt_Ok)
qed

lemma dhx2_server_nonce:
  assumes "block_cipher c" and "length (dnonce D) = 16" and "length pw = 256"
  shows "dhx2_server D (cmdLoginCont # 0 # put16 (dtid D + 1)
            @ cbc_enc c dhxClientIV (chunks_of 8 (incNonce (dnonce D) @ pw))) (DhNonce u c) =
    (if dcheck D u pw then (([], 0), DhAccepted u pw) else dhx2_reject)"
proof -
  have "length (cbc_enc c dhxClientIV (chunks_of 8 (incNonce (dnonce D) @ pw))) = 272"
    using assms by (simp add: length_cbc)
  with assms show ?thesis
    by (simp add: new_reader_rd or_nil_def cbc_roundtrip incNonce_eq Let_def)
qed

text \<open>
  (C9) A DHX2 login with a server that follows the protocol: for all group parameters the client
  accepts and all random choices on both sides the two compute the same session key, both nonce
  checks pass, and the server receives exactly the user name and the password padded with zeros to
  256 bytes. The login then succeeds when the server accepts them and fails with the server's code when
  it does not.
\<close>
theorem loginDHX2_honest:
  assumes "crypto_ok C" and "dhx2_cfg_ok D" and "dcipher D = cast5_NewCipher C"
    and "rand_Read C 0 (dlen D) = Ok ra" and "rand_Read C 1 16 = Ok cn" and "sconn s = DhIdle"
  shows "loginDHX2 (serve_env q (\<lambda>_ _. dhx2_server D)) C user pw s =
    Some (if dcheck D (take 255 user) (copy_into 256 (bytes_of_string pw))
          then (Ok (), s\<lparr>sconn := DhAccepted (take 255 user) (copy_into 256 (bytes_of_string pw))\<rparr>)
          else (Err (AfpError ''DHX2 login'' ResUserNotAuth), s\<lparr>sconn := DhRejected\<rparr>))"
proof -
  note D = dhx2_cfg_okD [OF assms(2)]
  let ?Mb = "dg D ^ dsecret D mod dp D" and ?Ma = "dg D ^ be_val ra mod dp D"
  have cn: "length cn = 16"
    by (rule crypto_ok_rand [OF assms(1), of 1 16]) (use assms(5) in auto)
  obtain c where c: "cast5_NewCipher C (md5 (be_bytes (dlen D) (?Mb ^ be_val ra mod dp D))) = Ok c" "block_cipher c"
    using crypto_ok_cipher [OF assms(1)] by (metis length_md5)
  have c': "dcipher D (md5 (be_bytes (dlen D) (?Ma ^ dsecret D mod dp D))) = Ok c"
    using c assms(3) dh_agree [of "dg D" "be_val ra" "dp D" "dsecret D"] by simp
  have cont: "result_of_code (word_of_int ResAuthContinue) = ResAuthContinue"
    "result_of_code (word_of_int ResUserNotAuth) = ResUserNotAuth" "ResUserNotAuth \<noteq> 0" "result_of_code 0 = 0"
    by (simp_all add: result_of_code_def res_defs)
  have step2: "dhx2_step2 C (dg D) (dlen D) (dp D) ?Mb =
      Ok (c, cn, be_bytes (dlen D) ?Ma @ cbc_enc c dhxClientIV (chunks_of 8 cn))"
    using assms(4,5) D cn c by (intro dhx2_step2_Ok) auto
  show ?thesis
    using assms(6) D cn c
    by (simp add: loginDHX2_def login_request loginCont_request builder_pascal_eq io_bind_def io_res_def
        dhx2_server_idle cont dhx2_params_put [OF assms(2)] step2
        dhx2_server_key [OF assms(2) c(2) cn c'] dhx2_step3_honest dhx2_server_nonce of_err_resultErr
        dhx2_reject_def del: dhx2_server.simps)
qed

definition sample_cipher :: cipher where
  "sample_cipher = \<lparr>encBlock = rev, decBlock = rev\<rparr>"

definition sample_crypto :: crypto where
  "sample_crypto = \<lparr>cast5_NewCipher = (\<lambda>key. if length key = 16 then Ok sample_cipher else Err (Opaque ''key size'')),
     rand_Read = (\<lambda>k n. Ok (replicate n (word_of_nat (k + 7))))\<rparr>"

lemma sample_crypto_ok: "crypto_ok sample_crypto"
  by (simp add: crypto_ok_def sample_crypto_def block_cipher_def sample_cipher_def)

definition sample_dhx2 :: dhx2_cfg where
  "sample_dhx2 = \<lparr>dg = 5, dp = 2 ^ 63 + 29, dlen = 8, dsecret = 3, dnonce = replicate 16 255, dtid = 7,
     dcipher = cast5_NewCipher sample_crypto, dcheck = (\<lambda>u pw. u = ''ann'' \<and> take 3 pw = bytes_of_string ''pw'' @ [0])\<rparr>"

theorem loginDHX2_honest_witness:
  "loginDHX2 (serve_env 0 (\<lambda>_ _. dhx2_server sample_dhx2)) sample_crypto ''ann'' ''pw'' (NewSession DhIdle) =
     Some (Ok (), (NewSession DhIdle)\<lparr>sconn := DhAccepted ''ann'' (bytes_of_string ''pw'' @ replicate 254 0)\<rparr>)"
  using loginDHX2_honest [OF sample_crypto_ok, of sample_dhx2 "replicate 8 7" "replicate 16 8" "NewSession DhIdle" 0
      "''ann''" "''pw''"]
  by (simp add: dhx2_cfg_ok_def sample_dhx2_def sample_crypto_def NewSession_def copy_into_def)

end
