(* ===== verification/Srp.thy ===== *)
theory Srp
  imports Uam
begin

text \<open>
  \<^verbatim>\<open>internal/afp/srp.go\<close>: the SRP-6a login method, its hash and mask-generation functions, and a
  server that follows the protocol.
\<close>

section \<open>Definitions\<close>

definition srpClientProof :: "16 word" where "srpClientProof = 0x0003"
definition srpServerProof :: "16 word" where "srpServerProof = 0x0004"
definition srpHashLen :: nat where "srpHashLen = 20"

definition sha1Sum :: "bytes list \<Rightarrow> bytes" where
  "sha1Sum parts = sha1 (concat parts)"

lemma length_sha1Sum [simp]: "length (sha1Sum parts) = 20"
  by (simp add: sha1Sum_def)

function mgf1_loop :: "bytes \<Rightarrow> nat \<Rightarrow> 32 word \<Rightarrow> bytes \<Rightarrow> bytes" where
  "mgf1_loop seed outLen c out =
     (if length out < outLen then
        let counter = [ucast (drop_bit 24 c), ucast (drop_bit 16 c), ucast (drop_bit 8 c), ucast c];
            block = sha1Sum [seed, counter]
        in mgf1_loop seed outLen (c + 1) (out @ block)
      else out)"
  by auto
termination
  by (relation "measure (\<lambda>(seed, outLen, c, out). outLen - length out)") auto

declare mgf1_loop.simps [simp del]

definition mgf1SHA1 :: "bytes \<Rightarrow> nat \<Rightarrow> bytes" where
  "mgf1SHA1 seed outLen = take outLen (mgf1_loop seed outLen 0 [])"

definition reader_block :: "string \<Rightarrow> string \<Rightarrow> reader \<Rightarrow> bytes \<times> reader" where
  "reader_block lwhat what r =
     (let (n, r) = reader_u16 lwhat r;
          (v, r) = reader_take (unat n) what r
      in (or_nil v, r))"

text \<open>The first reply: the context, \<open>N\<close>, \<open>g\<close>, the salt and \<open>B\<close>, as byte strings.\<close>

definition srp_params :: "bytes \<Rightarrow> (16 word \<times> bytes \<times> bytes \<times> bytes \<times> bytes) res" where
  "srp_params payload =
     (let r = new_reader payload;
          (context16, r) = reader_u16 ''srp context'' r;
          (_, r) = reader_u16 ''srp group index'' r;
          (nBytes, r) = reader_block ''N length'' ''N'' r;
          (gBytes, r) = reader_block ''g length'' ''g'' r;
          (salt, r) = reader_block ''salt length'' ''salt'' r;
          (bBytes, r) = reader_block ''B length'' ''B'' r in
      case rerr r of
        Some e \<Rightarrow> Err e
      | None \<Rightarrow>
          if be_val nBytes = 0 \<or> be_val bBytes = 0
          then Err (Errorf ''afp: SRP: degenerate parameters from server'' [])
          else Ok (context16, nBytes, gBytes, salt, bBytes))"

text \<open>\<open>x = H(salt | H(username | ":" | password))\<close>.\<close>

definition srp_x :: "bytes \<Rightarrow> string \<Rightarrow> string \<Rightarrow> nat" where
  "srp_x salt username password =
     (let inner = sha1Sum [bytes_of_string username, bytes_of_string '':'', bytes_of_string password]
      in be_val (sha1Sum [salt, inner]))"

text \<open>\<open>S = (B - k * g ^ x) ^ (a + u * x) mod N\<close>, with the difference taken over the integers.\<close>

definition srp_secret :: "nat \<Rightarrow> nat \<Rightarrow> nat \<Rightarrow> nat \<Rightarrow> nat \<Rightarrow> nat \<Rightarrow> nat \<Rightarrow> nat" where
  "srp_secret N g B k x a u =
     (let gx = big_Exp g x N;
          kgx = k * gx;
          base = nat ((int B - int kgx) mod int N);
          ex = a + u * x
      in big_Exp base ex N)"

text \<open>\<open>M1 = H((H(N) xor H(g)) | H(username) | salt | A | B | K)\<close>.\<close>

definition srp_m1 :: "nat \<Rightarrow> nat \<Rightarrow> string \<Rightarrow> bytes \<Rightarrow> nat \<Rightarrow> nat \<Rightarrow> bytes \<Rightarrow> bytes" where
  "srp_m1 N g username salt A B K =
     (let hN = sha1Sum [nat_bytes N];
          hg = sha1Sum [nat_bytes g];
          xorNg = map (\<lambda>i. hN ! i XOR hg ! i) [0..<srpHashLen];
          hUser = sha1Sum [bytes_of_string username]
      in sha1Sum [xorNg, hUser, salt, nat_bytes A, nat_bytes B, K])"

text \<open>The client's computation: its public value, its proof, the session key.\<close>

definition srp_step2 :: "crypto \<Rightarrow> string \<Rightarrow> string \<Rightarrow> bytes \<Rightarrow> bytes \<Rightarrow> bytes \<Rightarrow> bytes \<Rightarrow>
    (nat \<times> bytes \<times> bytes) res" where
  "srp_step2 C username password nBytes gBytes salt bBytes =
     (let N = be_val nBytes;
          g = be_val gBytes;
          B = be_val bBytes;
          width = length nBytes in
      res_bind (rand_Read C 0 width) (\<lambda>aBytes.
      let a = be_val aBytes mod N;
          A = big_Exp g a N;
          x = srp_x salt username password in
      res_bind (leftPad g width) (\<lambda>gp.
      let k = be_val (sha1Sum [nBytes, gp]) in
      res_bind (leftPad A width) (\<lambda>Ap.
      res_bind (leftPad B width) (\<lambda>Bp.
      let u = be_val (sha1Sum [Ap, Bp]) in
      if u = 0 then Err (Errorf ''afp: SRP: u == 0'' [])
      else
        let S = srp_secret N g B k x a u;
            K = mgf1SHA1 (nat_bytes S) 40;
            m1 = srp_m1 N g username salt A B K
        in Ok (A, m1, K))))))"

definition srp_proof_message :: "nat \<Rightarrow> bytes \<Rightarrow> bytes" where
  "srp_proof_message A m1 =
     (let w2 = builder_u16 [] srpClientProof;
          w2 = builder_u16 w2 (word_of_nat (length (nat_bytes A)));
          w2 = builder_bytes w2 (nat_bytes A);
          w2 = builder_u16 w2 (word_of_nat srpHashLen)
      in builder_bytes w2 m1)"

text \<open>The check of the server's proof \<open>M2 = H(A | M1 | K)\<close>.\<close>

definition srp_verify :: "nat \<Rightarrow> bytes \<Rightarrow> bytes \<Rightarrow> bytes \<Rightarrow> unit res" where
  "srp_verify A m1 K payload =
     (let r = new_reader payload;
          (step, r) = reader_u16 ''srp step'' r in
      if step \<noteq> srpServerProof
      then Err (Errorf ''afp: SRP: unexpected final step marker %#04x'' [AInt (uint step)])
      else
        let (m2, r) = reader_block ''M2 length'' ''M2'' r in
        case rerr r of
          Some e \<Rightarrow> Err e
        | None \<Rightarrow>
            let expected = sha1Sum [nat_bytes A, m1, K] in
            if m2 \<noteq> expected then Err (Errorf ''afp: SRP: server proof (M2) mismatch'' [])
            else Ok ())"

definition loginSRP :: "'s env \<Rightarrow> crypto \<Rightarrow> string \<Rightarrow> string \<Rightarrow> ('s session, unit) io" where
  "loginSRP E C username password =
     io_bind (login E uamSRP (builder_pascal [] username)) (\<lambda>(payload, code).
     if code \<noteq> ResAuthContinue then io_res (of_err (resultErr ''SRP login'' code))
     else
       io_bind (io_res (srp_params payload)) (\<lambda>(context16, nBytes, gBytes, salt, bBytes).
       io_bind (io_res (srp_step2 C username password nBytes gBytes salt bBytes)) (\<lambda>(A, m1, K).
       io_bind (loginCont E context16 (srp_proof_message A m1)) (\<lambda>(payload, code).
       io_bind (io_res (of_err (resultErr ''SRP login'' code))) (\<lambda>_.
         io_res (srp_verify A m1 K payload))))))"

section \<open>The mask-generation function\<close>

text \<open>MGF1 as PKCS #1 defines it: the hashes of the seed with the counters 0, 1, \<open>\<dots>\<close>, cut to size.\<close>

definition mgf1_ref :: "bytes \<Rightarrow> nat \<Rightarrow> bytes" where
  "mgf1_ref seed n =
     take n (concat (map (\<lambda>i. sha1 (seed @ put32 (word_of_nat i))) [0..<(n + 19) div 20]))"

lemma four: "(4 :: nat) = Suc (Suc (Suc (Suc 0)))"
  by simp

lemma counter_bytes:
  "[ucast (drop_bit 24 c), ucast (drop_bit 16 c), ucast (drop_bit 8 c), ucast c] = put32 (c :: 32 word)"
proof -
  have shift: "ucast (drop_bit n w) = (word_of_nat (unat w div 2 ^ n) :: byte)" for n and w :: "32 word"
  proof -
    have "ucast (drop_bit n w) = (word_of_nat (unat (drop_bit n w)) :: byte)" by (rule of_nat_unat [symmetric])
    then show ?thesis by (simp only: unat_drop_bit_eq) (simp only: drop_bit_eq_div)
  qed
  show ?thesis
    unfolding shift put32_def four be_bytes.simps by (simp add: div_mult2_eq [symmetric])
qed

lemma mgf1_loop_blocks:
  assumes "length out = 20 * unat c" and "n \<le> 20 * (unat c + k)" and "unat c + k < 2 ^ 32"
  shows "take n (mgf1_loop seed n c out) =
    take n (out @ concat (map (\<lambda>i. sha1 (seed @ put32 (word_of_nat i))) [unat c..<unat c + k]))"
  using assms
proof (induction k arbitrary: c out)
  case 0
  then show ?case by (subst mgf1_loop.simps) simp
next
  case (Suc k)
  show ?case
  proof (cases "length out < n")
    case True
    have c: "unat (c + 1) = Suc (unat c)"
      using Suc.prems(3) by (simp add: unat_word_ariths)
    have "mgf1_loop seed n c out = mgf1_loop seed n (c + 1) (out @ sha1 (seed @ put32 c))"
      using True by (subst mgf1_loop.simps) (simp add: counter_bytes sha1Sum_def Let_def)
    moreover have "[unat c..<unat c + Suc k] = unat c # [unat (c + 1)..<unat (c + 1) + k]"
      using c by (simp add: upt_conv_Cons del: upt_Suc)
    ultimately show ?thesis
      using Suc.IH [of "out @ sha1 (seed @ put32 c)" "c + 1"] Suc.prems c by (simp del: upt_Suc)
  next
    case False
    then show ?thesis by (subst mgf1_loop.simps) simp
  qed
qed

lemma mgf1SHA1_eq:
  assumes "n < 2 ^ 32"
  shows "mgf1SHA1 seed n = mgf1_ref seed n"
  using mgf1_loop_blocks [of "[]" 0 n "(n + 19) div 20" seed] assms
  by (simp add: mgf1SHA1_def mgf1_ref_def)

text \<open>
  (C23) The key derivation is MGF1 with SHA-1: the loop with its wrapping 32-bit counter ends and its
  result is the prefix of the concatenated hashes \<open>H(seed | 0), H(seed | 1), \<dots>\<close> that PKCS #1 defines, of
  exactly the requested length.
\<close>
theorem mgf1SHA1_correct:
  assumes "n < 2 ^ 32"
  shows "mgf1SHA1 seed n =
      take n (concat (map (\<lambda>i. sha1 (seed @ be_bytes 4 i)) [0..<(n + 19) div 20]))
    \<and> length (mgf1SHA1 seed n) = n"
proof -
  let ?k = "(n + 19) div 20"
  have put: "put32 (word_of_nat i) = be_bytes 4 i" if "i < 2 ^ 32" for i
    using that by (simp add: put32_def unat_of_nat)
  have "map (\<lambda>i. sha1 (seed @ put32 (word_of_nat i))) [0..<?k] = map (\<lambda>i. sha1 (seed @ be_bytes 4 i)) [0..<?k]"
    using assms by (intro map_cong refl) (simp add: put)
  moreover have "length (concat (map (\<lambda>i. sha1 (seed @ be_bytes 4 i)) [0..<?k])) = ?k * 20"
    by (simp add: length_concat comp_def sum_list_triv)
  moreover have "n \<le> ?k * 20" by simp
  ultimately show ?thesis using mgf1SHA1_eq [OF assms, of seed]
    by (simp add: mgf1_ref_def del: map_eq_conv)
qed

theorem mgf1SHA1_correct_witness:
  "mgf1SHA1 [1] 40 = sha1 [1, 0, 0, 0, 0] @ sha1 [1, 0, 0, 0, 1]"
proof -
  have "map (\<lambda>i. sha1 ([1] @ be_bytes 4 i)) [0..<2] = [sha1 [1, 0, 0, 0, 0], sha1 [1, 0, 0, 0, 1]]"
    unfolding four by (simp add: upt_rec)
  then show ?thesis using mgf1SHA1_correct [of 40 "[1]"] by simp
qed

section \<open>Length-prefixed blocks\<close>

definition put_block :: "bytes \<Rightarrow> bytes" where
  "put_block b = put16 (word_of_nat (length b)) @ b"

lemma reader_block_snd:
  "snd (reader_block lw what r) =
     snd (reader_take (unat (fst (reader_u16 lw r))) what (snd (reader_u16 lw r)))"
  by (simp add: reader_block_def case_prod_beta)

interpretation fblock: wire_field "reader_block lw what" put_block "\<lambda>b. length b < 65536" for lw what
proof
  fix b :: bytes and pre rest
  assume "length b < 65536"
  then show "reader_block lw what (rd pre (put_block b @ rest)) = (b, rd (pre @ put_block b) rest)"
    by (simp add: reader_block_def put_block_def or_nil_def unat_of_nat)
next
  fix b :: bytes and pre rest
  assume len: "length b < 65536" and pre: "strict_prefix rest (put_block b)"
  show "reader_failed (snd (reader_block lw what (rd pre rest)))"
  proof (cases "length rest < 2")
    case True
    then have "reader_failed (snd (reader_u16 lw (rd pre rest)))" by (simp add: reader_take_short)
    then show ?thesis by (simp add: reader_block_snd del: reader_num_snd)
  next
    case False
    obtain z where "put_block b = rest @ z" using pre by (auto simp: strict_prefix_def prefix_def)
    then have "take 2 (put_block b) = take 2 rest" using False by simp
    then obtain t where "rest = put16 (word_of_nat (length b)) @ t"
      by (metis append_take_drop_id put_block_def append_eq_conv_conj put_len(1))
    moreover from this pre have "length t < length b"
      by (auto simp: put_block_def dest: strict_prefix_length_less)
    ultimately show ?thesis using len
      by (simp add: reader_block_snd unat_of_nat reader_take_short del: reader_num_snd)
  qed
next
  fix r :: reader
  assume "reader_failed r"
  then show "snd (reader_block lw what r) = r" by (simp add: reader_block_snd)
next
  fix r :: reader
  assume "reader_ok r"
  then show "reader_ok (snd (reader_block lw what r)) \<and> rb (snd (reader_block lw what r)) = rb r
      \<and> rpos r \<le> rpos (snd (reader_block lw what r))"
    using reader_take_ok [of r 2 lw]
      reader_take_ok [of "snd (reader_u16 lw r)" "unat (fst (reader_u16 lw r))" what]
    by (auto simp: reader_block_snd)
qed

lemmas block_get [simp] = fblock.get_put fblock.get_put_Nil

section \<open>Panics\<close>

lemma srp_params_not_Panic: "srp_params payload \<noteq> Panic"
  by (simp add: srp_params_def case_prod_beta Let_def split: option.split)

lemma srp_params_nonzero:
  assumes "srp_params payload = Ok (ctx, nb, gb, salt, bb)"
  shows "0 < be_val nb \<and> 0 < be_val bb"
  using assms by (auto simp: srp_params_def case_prod_beta Let_def split: if_splits option.splits)

lemma srp_verify_not_Panic: "srp_verify A m1 K payload \<noteq> Panic"
  by (simp add: srp_verify_def case_prod_beta Let_def split: option.split)

text \<open>
  (C37) A server can crash the client: once the random bytes are drawn the computation of the proof
  panics exactly when the server's \<open>g\<close> or \<open>B\<close> does not fit in as many bytes as its \<open>N\<close>, which nothing checks
  before \<^verbatim>\<open>FillBytes\<close>. The client's own public value always fits.
\<close>
theorem srp_step2_panic:
  assumes "crypto_ok C" and "0 < be_val nb"
  shows "srp_step2 C user pw nb gb salt bb = Panic \<longleftrightarrow>
    (\<exists>a. rand_Read C 0 (length nb) = Ok a) \<and> (256 ^ length nb \<le> be_val gb \<or> 256 ^ length nb \<le> be_val bb)"
proof -
  have fits: "leftPad (x mod be_val nb) (length nb) = Ok (be_bytes (length nb) (x mod be_val nb))" for x
    using assms(2) be_val_less [of nb] by (simp add: leftPad_Ok mod_fits)
  have pad: "leftPad v n = Panic \<longleftrightarrow> 256 ^ n \<le> v" for v n
    by (simp add: leftPad_def fillBytes_Panic)
  have ok: "(\<exists>b. leftPad v n = Ok b) \<longleftrightarrow> \<not> 256 ^ n \<le> v" for v n
    unfolding pad [symmetric] by (simp add: leftPad_def fillBytes_def)
  show ?thesis
  proof (cases rule: crypto_ok_rand [OF assms(1), of 0 "length nb"])
    case (2 a)
    then show ?thesis
      using ok [of "be_val gb" "length nb"]
      by (auto simp: srp_step2_def Let_def res_bind_Panic_iff big_Exp_eq fits pad)
  qed (simp add: srp_step2_def Let_def)
qed

theorem srp_step2_panic_witness:
  "srp_step2 sample_crypto ''u'' ''p'' [7] [1, 0] [] [5] = Panic
   \<and> loginSRP (serve_env 0 (\<lambda>_ _ _ st. ((put16 1 @ put16 0 @ put_block [7] @ put_block [1, 0] @ put_block []
        @ put_block [5], word_of_int ResAuthContinue), st))) sample_crypto ''u'' ''p'' (NewSession ())
     = Some (Panic, NewSession ())"
proof -
  have p: "srp_step2 sample_crypto ''u'' ''p'' [7] [1, 0] [] [5] = Panic"
    using srp_step2_panic [OF sample_crypto_ok, of "[7]" "''u''" "''p''" "[1, 0]" "[]" "[5]"]
    by (simp add: sample_crypto_def be_val_def)
  have "srp_params (put16 1 @ put16 0 @ put_block [7] @ put_block [1, 0] @ put_block [] @ put_block [5]) =
      Ok (1, [7], [1, 0], [], [5])"
    by (simp add: srp_params_def new_reader_rd be_val_def)
  with p show ?thesis
    by (simp add: loginSRP_def login_request builder_pascal_eq io_bind_def io_res_def result_of_code_def
        ResAuthContinue_def NewSession_def)
qed

section \<open>A server that follows the protocol\<close>

record srp_cfg =
  sN :: bytes
  sg :: bytes
  ssalt :: bytes
  ssecret :: nat
  sctx :: "16 word"
  sverifier :: "string \<Rightarrow> nat"

datatype srp_state = SrpIdle | SrpSent string | SrpAccepted string | SrpRejected

definition srp_k :: "srp_cfg \<Rightarrow> nat" where
  "srp_k D = be_val (sha1 (sN D @ be_bytes (length (sN D)) (be_val (sg D))))"

text \<open>The server's public value \<open>B = k * v + g ^ b mod N\<close>.\<close>

definition srp_B :: "srp_cfg \<Rightarrow> string \<Rightarrow> nat" where
  "srp_B D user = (srp_k D * sverifier D user + be_val (sg D) ^ ssecret D) mod be_val (sN D)"

definition srp_u :: "srp_cfg \<Rightarrow> string \<Rightarrow> nat \<Rightarrow> nat" where
  "srp_u D user A = be_val (sha1 (be_bytes (length (sN D)) A @ be_bytes (length (sN D)) (srp_B D user)))"

text \<open>The server's session key, from \<open>S = (A * v ^ u) ^ b mod N\<close>.\<close>

definition srp_server_key :: "srp_cfg \<Rightarrow> string \<Rightarrow> nat \<Rightarrow> bytes" where
  "srp_server_key D user A =
     mgf1_ref (nat_bytes ((A * sverifier D user ^ srp_u D user A) ^ ssecret D mod be_val (sN D))) 40"

definition srp_server_m1 :: "srp_cfg \<Rightarrow> string \<Rightarrow> nat \<Rightarrow> bytes" where
  "srp_server_m1 D user A =
     sha1 (xor_bytes (sha1 (nat_bytes (be_val (sN D)))) (sha1 (nat_bytes (be_val (sg D))))
           @ sha1 (bytes_of_string user) @ ssalt D @ nat_bytes A @ nat_bytes (srp_B D user)
           @ srp_server_key D user A)"

definition srp_reject :: "(bytes \<times> 32 word) \<times> srp_state" where
  "srp_reject = (([], word_of_int ResUserNotAuth), SrpRejected)"

fun srp_server :: "srp_cfg \<Rightarrow> bytes \<Rightarrow> srp_state \<Rightarrow> (bytes \<times> 32 word) \<times> srp_state" where
  "srp_server D m SrpIdle =
     (let r = new_reader m;
          (cmd, r) = reader_u8 [] r;
          (_, r) = reader_pascal [] r;
          (uam, r) = reader_pascal [] r;
          (user, r) = reader_pascal [] r in
      if rerr r \<noteq> None \<or> cmd \<noteq> cmdLogin \<or> uam \<noteq> ''SRP'' then srp_reject
      else ((put16 (sctx D) @ put16 0 @ put_block (sN D) @ put_block (sg D) @ put_block (ssalt D)
               @ put_block (nat_bytes (srp_B D user)), word_of_int ResAuthContinue), SrpSent user))"
| "srp_server D m (SrpSent user) =
     (let r = new_reader m;
          (cmd, r) = reader_u8 [] r;
          (_, r) = reader_u8 [] r;
          (ctx, r) = reader_u16 [] r;
          (step, r) = reader_u16 [] r;
          (A, r) = reader_block [] [] r;
          (m1, r) = reader_block [] [] r in
      if rerr r \<noteq> None \<or> cmd \<noteq> cmdLoginCont \<or> ctx \<noteq> sctx D \<or> step \<noteq> 3
         \<or> m1 \<noteq> srp_server_m1 D user (be_val A) then srp_reject
      else ((put16 4 @ put_block (sha1 (A @ m1 @ srp_server_key D user (be_val A))), 0), SrpAccepted user))"
| "srp_server D m (SrpAccepted user) = srp_reject"
| "srp_server D m SrpRejected = srp_reject"

text \<open>
  Well-formed server parameters, and the user registered with the password: the server stores the
  verifier \<open>v = g ^ x mod N\<close>.
\<close>

definition srp_cfg_ok :: "srp_cfg \<Rightarrow> bool" where
  "srp_cfg_ok D \<longleftrightarrow> 0 < be_val (sN D) \<and> length (sN D) < 65536 \<and> length (sg D) \<le> length (sN D)
     \<and> length (ssalt D) < 65536"

definition srp_registered :: "srp_cfg \<Rightarrow> string \<Rightarrow> string \<Rightarrow> bool" where
  "srp_registered D user pw \<longleftrightarrow>
     sverifier D user = be_val (sg D) ^ srp_x (ssalt D) user pw mod be_val (sN D)"

subsection \<open>The two sides compute the same secret\<close>

lemma srp_base:
  assumes "0 < N"
  shows "nat ((int ((k * (v mod N) + h) mod N) - int (k * (v mod N))) mod int N) = h mod N"
proof -
  have "(int ((k * (v mod N) + h) mod N) - int (k * (v mod N))) mod int N = int h mod int N"
    by (simp add: zmod_int mod_diff_left_eq)
  then show ?thesis by (simp add: nat_mod_distrib)
qed

lemma srp_agree:
  assumes "0 < N"
  shows "srp_secret N g ((k * (g ^ x mod N) + g ^ b) mod N) k x a u =
    ((g ^ a mod N) * (g ^ x mod N) ^ u) ^ b mod N"
proof -
  have e: "(g ^ b) ^ (a + u * x) = (g ^ a * (g ^ x) ^ u) ^ b"
  proof -
    have "g ^ a * (g ^ x) ^ u = g ^ (a + x * u)" by (simp only: power_add power_mult)
    moreover have "b * (a + u * x) = (a + x * u) * b" by (simp add: algebra_simps)
    ultimately show ?thesis by (simp only: power_mult [symmetric])
  qed
  have cong: "y mod N = z mod N \<Longrightarrow> y ^ n mod N = z ^ n mod N" for y z n by (metis power_mod)
  have "(g ^ x mod N) ^ u mod N = (g ^ x) ^ u mod N" by (rule power_mod)
  then have m: "(g ^ a mod N) * (g ^ x mod N) ^ u mod N = g ^ a * (g ^ x) ^ u mod N"
    by (metis mod_mult_eq mod_mod_trivial)
  have "srp_secret N g ((k * (g ^ x mod N) + g ^ b) mod N) k x a u = (g ^ b mod N) ^ (a + u * x) mod N"
    by (simp only: srp_secret_def Let_def big_Exp_eq srp_base [OF assms])
  also have "\<dots> = (g ^ a * (g ^ x) ^ u) ^ b mod N" by (simp only: power_mod e)
  also have "\<dots> = ((g ^ a mod N) * (g ^ x mod N) ^ u) ^ b mod N" using cong [OF m] by (rule sym)
  finally show ?thesis .
qed

lemma srp_m1_eq:
  "srp_m1 N g user salt A B K =
     sha1 (xor_bytes (sha1 (nat_bytes N)) (sha1 (nat_bytes g)) @ sha1 (bytes_of_string user) @ salt
           @ nat_bytes A @ nat_bytes B @ K)"
proof -
  have "map (\<lambda>i. h ! i XOR h' ! i) [0..<20] = xor_bytes h h'" if "length h = 20" "length h' = 20" for h h'
    using that by (intro nth_equalityI) (simp_all add: xor_bytes_def)
  then show ?thesis by (simp add: srp_m1_def sha1Sum_def srpHashLen_def Let_def)
qed

text \<open>What the client computes from an honest server's parameters.\<close>

lemma srp_step2_honest:
  assumes ok: "srp_cfg_ok D" and reg: "srp_registered D user pw"
    and rand: "rand_Read C 0 (length (sN D)) = Ok ab"
    and A: "A = be_val (sg D) ^ (be_val ab mod be_val (sN D)) mod be_val (sN D)"
  shows "srp_step2 C user pw (sN D) (sg D) (ssalt D) (nat_bytes (srp_B D user)) =
    (if srp_u D user A = 0 then Err (Errorf ''afp: SRP: u == 0'' [])
     else Ok (A, srp_server_m1 D user A, srp_server_key D user A))"
proof -
  let ?N = "be_val (sN D)" and ?g = "be_val (sg D)" and ?w = "length (sN D)"
  have N: "0 < ?N" using ok by (simp add: srp_cfg_ok_def)
  have "(256 :: nat) ^ length (sg D) \<le> 256 ^ ?w"
    using ok by (intro power_increasing) (simp_all add: srp_cfg_ok_def)
  then have "?g < 256 ^ ?w" using be_val_less [of "sg D"] by (rule order_less_le_trans [rotated])
  moreover have "A < 256 ^ ?w" "srp_B D user < 256 ^ ?w"
    using N be_val_less [of "sN D"] by (simp_all add: A srp_B_def mod_fits)
  ultimately have pad: "leftPad ?g ?w = Ok (be_bytes ?w ?g)" "leftPad A ?w = Ok (be_bytes ?w A)"
      "leftPad (srp_B D user) ?w = Ok (be_bytes ?w (srp_B D user))"
    by (simp_all add: leftPad_Ok)
  have S: "srp_secret ?N ?g (srp_B D user) (srp_k D) (srp_x (ssalt D) user pw) (be_val ab mod ?N) (srp_u D user A) =
      (A * sverifier D user ^ srp_u D user A) ^ ssecret D mod ?N"
    using srp_agree [OF N] reg by (simp add: srp_B_def srp_registered_def A)
  have k: "be_val (sha1Sum [sN D, be_bytes ?w ?g]) = srp_k D"
    by (simp add: sha1Sum_def srp_k_def)
  have u': "be_val (sha1Sum [be_bytes ?w A, be_bytes ?w (srp_B D user)]) = srp_u D user A"
    by (simp add: sha1Sum_def srp_u_def)
  have "mgf1SHA1 (nat_bytes ((A * sverifier D user ^ srp_u D user A) ^ ssecret D mod ?N)) 40 =
      srp_server_key D user A"
    by (simp add: srp_server_key_def mgf1SHA1_eq)
  then show ?thesis
    by (simp add: srp_step2_def rand big_Exp_eq A [symmetric] pad k u' S srp_m1_eq srp_server_m1_def Let_def)
qed

lemma srp_params_put:
  assumes "srp_cfg_ok D" and "length (nat_bytes B) < 65536"
  shows "srp_params (put16 ctx @ put16 0 @ put_block (sN D) @ put_block (sg D) @ put_block (ssalt D)
      @ put_block (nat_bytes B)) =
    (if B = 0 then Err (Errorf ''afp: SRP: degenerate parameters from server'' [])
     else Ok (ctx, sN D, sg D, ssalt D, nat_bytes B))"
  using assms by (simp add: srp_params_def srp_cfg_ok_def new_reader_rd)

lemma srp_server_idle:
  "srp_server D (cmdLogin # put_pascal (take 255 v) @ put_pascal (take 255 uamSRP) @ put_pascal (take 255 user)) SrpIdle =
    ((put16 (sctx D) @ put16 0 @ put_block (sN D) @ put_block (sg D) @ put_block (ssalt D)
      @ put_block (nat_bytes (srp_B D (take 255 user))), word_of_int ResAuthContinue), SrpSent (take 255 user))"
  by (simp add: new_reader_rd uamSRP_def)

lemma srp_proof_message_eq: "length m1 = 20 \<Longrightarrow> srp_proof_message A m1 = put16 3 @ put_block (nat_bytes A) @ put_block m1"
  by (simp add: srp_proof_message_def builder_defs put_block_def srpClientProof_def srpHashLen_def Let_def)

lemma srp_server_sent:
  assumes "length (nat_bytes A) < 65536"
  shows "srp_server D (cmdLoginCont # 0 # put16 (sctx D) @ srp_proof_message A (srp_server_m1 D user A)) (SrpSent user) =
    ((put16 4 @ put_block (sha1 (nat_bytes A @ srp_server_m1 D user A @ srp_server_key D user A)), 0), SrpAccepted user)"
proof -
  have l: "length (srp_server_m1 D user A) = 20" by (simp add: srp_server_m1_def)
  then show ?thesis using assms unfolding srp_proof_message_eq [OF l] by (simp add: new_reader_rd)
qed

lemma srp_verify_put:
  "srp_verify A m1 K (put16 4 @ put_block (sha1 (nat_bytes A @ m1 @ K))) = Ok ()"
  by (simp add: srp_verify_def new_reader_rd srpServerProof_def sha1Sum_def)

text \<open>
  (C8) An SRP login with a server that follows SRP-6a and knows only the verifier of the password: the
  two sides compute the same secret from \<open>B - k g ^ x\<close> and \<open>A v ^ u\<close>, the server accepts the client's proof and
  the client the server's, so the login succeeds. The two degenerate values \<open>B = 0\<close> and \<open>u = 0\<close> are the
  only ones the client refuses, before it has sent its proof.
\<close>
theorem loginSRP_honest:
  assumes "srp_cfg_ok D" and "srp_registered D user pw" and "length user \<le> 255"
    and "rand_Read C 0 (length (sN D)) = Ok ab" and "sconn s = SrpIdle"
  shows "loginSRP (serve_env q (\<lambda>_ _. srp_server D)) C user pw s = Some (
    if srp_B D user = 0
    then (Err (Errorf ''afp: SRP: degenerate parameters from server'' []), s\<lparr>sconn := SrpSent user\<rparr>)
    else if srp_u D user (be_val (sg D) ^ (be_val ab mod be_val (sN D)) mod be_val (sN D)) = 0
    then (Err (Errorf ''afp: SRP: u == 0'' []), s\<lparr>sconn := SrpSent user\<rparr>)
    else (Ok (), s\<lparr>sconn := SrpAccepted user\<rparr>))"
proof -
  let ?A = "be_val (sg D) ^ (be_val ab mod be_val (sN D)) mod be_val (sN D)"
  have N: "0 < be_val (sN D)" "be_val (sN D) < 256 ^ length (sN D)" "length (sN D) < 65536"
    using assms(1) be_val_less by (auto simp: srp_cfg_ok_def)
  have short: "length (nat_bytes (v mod be_val (sN D))) < 65536" for v
    using length_nat_bytes [of "v mod be_val (sN D)" "length (sN D)"] mod_fits [OF N(1,2), of v] N(3) by simp
  have B: "length (nat_bytes (srp_B D user)) < 65536" unfolding srp_B_def by (rule short)
  note step2 = srp_step2_honest [OF assms(1,2,4) refl]
  note idle = srp_server_idle [of D "Version s" user, unfolded take_all [OF assms(3)]]
  show ?thesis
    using assms(3,5)
    by (simp add: loginSRP_def login_request loginCont_request builder_pascal_eq io_bind_def io_res_def
        idle srp_params_put [OF assms(1) B] step2 srp_server_sent [OF short] srp_verify_put
        result_of_code_def ResAuthContinue_def of_err_resultErr del: srp_server.simps)
qed

definition sample_srp :: srp_cfg where
  "sample_srp = \<lparr>sN = [0, 23], sg = [5], ssalt = [1, 2], ssecret = 6, sctx = 9,
     sverifier = (\<lambda>u. 5 ^ srp_x [1, 2] u ''pw'' mod 23)\<rparr>"

theorem loginSRP_honest_witness:
  "loginSRP (serve_env 0 (\<lambda>_ _. srp_server sample_srp)) sample_crypto ''ann'' ''pw'' (NewSession SrpIdle) = Some (
    if srp_B sample_srp ''ann'' = 0
    then (Err (Errorf ''afp: SRP: degenerate parameters from server'' []), NewSession (SrpSent ''ann''))
    else if srp_u sample_srp ''ann'' (5 ^ 5 mod 23) = 0
    then (Err (Errorf ''afp: SRP: u == 0'' []), NewSession (SrpSent ''ann''))
    else (Ok (), NewSession (SrpAccepted ''ann'')))"
proof -
  have "srp_cfg_ok sample_srp" "srp_registered sample_srp ''ann'' ''pw''"
    by (simp_all add: srp_cfg_ok_def srp_registered_def sample_srp_def be_val_def)
  moreover have "rand_Read sample_crypto 0 (length (sN sample_srp)) = Ok [7, 7]"
    by (simp add: sample_crypto_def sample_srp_def)
  ultimately show ?thesis
    using loginSRP_honest [of sample_srp "''ann''" "''pw''" sample_crypto "[7, 7]" "NewSession SrpIdle" 0]
    by (simp add: NewSession_def be_val_def sample_srp_def cong: if_cong split del: if_split)
qed

subsection \<open>What a successful read says about the reply\<close>

lemma reader_take_inv:
  assumes "reader_take n what (rd pre b) = (Some v, r)"
  shows "\<exists>t. b = v @ t \<and> r = rd (pre @ v) t \<and> length v = n"
  using assms by (intro exI [of _ "drop n b"]) (auto simp: reader_take_def rd_def split: if_splits)

lemma reader_u16_inv:
  assumes "reader_u16 what (rd pre b) = (x, r)" and "rerr r = None"
  shows "\<exists>t. b = put16 x @ t \<and> r = rd (pre @ put16 x) t"
proof (cases "reader_take 2 what (rd pre b)")
  case (Pair v r')
  then have "r' = r" using assms(1) by (auto simp: reader_u16_def split: option.splits)
  with Pair assms(2) obtain w where "v = Some w"
    by (cases v) (auto dest!: reader_take_fst_None simp: reader_failed_def)
  with Pair assms(1) show ?thesis
    using reader_take_inv [of 2 what pre b w r'] by (auto simp: reader_u16_def c16.enc_dec)
qed

lemma reader_block_inv:
  assumes "reader_block lw what (rd pre b) = (x, r)" and "rerr r = None"
  shows "\<exists>t. b = put_block x @ t \<and> r = rd (pre @ put_block x) t"
proof -
  obtain n r1 where n: "reader_u16 lw (rd pre b) = (n, r1)" by fastforce
  obtain v where v: "reader_take (unat n) what r1 = (v, r)" "x = or_nil v"
    using assms(1) n by (auto simp: reader_block_def split: prod.splits)
  have "rerr r1 = None" using v(1) assms(2) by (auto simp: reader_take_def split: if_splits)
  then obtain t where t: "b = put16 n @ t" "r1 = rd (pre @ put16 n) t" using reader_u16_inv [OF n] by blast
  from v assms(2) obtain w where "v = Some w"
    by (cases v) (auto dest!: reader_take_fst_None simp: reader_failed_def)
  with v t show ?thesis
    using reader_take_inv [of "unat n" what "pre @ put16 n" t w r]
    by (auto simp: put_block_def or_nil_def)
qed

lemma srp_verify_inv:
  assumes "srp_verify A m1 K reply = Ok ()"
  shows "\<exists>rest. reply = put16 srpServerProof @ put_block (sha1 (nat_bytes A @ m1 @ K)) @ rest"
proof -
  obtain st r where st: "reader_u16 ''srp step'' (rd [] reply) = (st, r)" by fastforce
  obtain m2 r' where m2: "reader_block ''M2 length'' ''M2'' r = (m2, r')" by fastforce
  from assms st m2 have ok: "st = srpServerProof" "rerr r' = None" "m2 = sha1 (nat_bytes A @ m1 @ K)"
    by (auto simp: srp_verify_def new_reader_rd sha1Sum_def Let_def split: if_splits option.splits)
  have "rerr r = None"
    using fblock.get_sticky [of r "''M2 length''" "''M2''"] m2 ok(2) by (cases "reader_failed r") (auto simp: reader_failed_def)
  then obtain t where "reply = put16 st @ t" "r = rd (put16 st) t" using reader_u16_inv [OF st] by auto
  with reader_block_inv [of "''M2 length''" "''M2''" "put16 st" t m2 r'] m2 ok show ?thesis by auto
qed

text \<open>
  (C17) What a successful SRP login proves about the server: if \<^verbatim>\<open>loginSRP\<close> succeeds, then either the
  server answered the very first request with \<^verbatim>\<open>NoErr\<close>, and nothing was checked at all, or it sent the
  proof \<open>M2 = H(A | M1 | K)\<close> over the key derived from the password in its last reply.
\<close>
theorem loginSRP_proof:
  assumes "loginSRP E C user pw s = Some (Ok (), s')"
  shows "\<exists>payload code s1. login E uamSRP (builder_pascal [] user) s = Some (Ok (payload, code), s1) \<and>
    (code = ResNoErr \<or>
     (code = ResAuthContinue \<and> (\<exists>ctx nb gb salt bb A m1 K reply rest.
        srp_params payload = Ok (ctx, nb, gb, salt, bb) \<and>
        srp_step2 C user pw nb gb salt bb = Ok (A, m1, K) \<and>
        loginCont E ctx (srp_proof_message A m1) s1 = Some (Ok (reply, ResNoErr), s') \<and>
        reply = put16 srpServerProof @ put_block (sha1 (nat_bytes A @ m1 @ K)) @ rest)))"
  using assms srp_verify_inv
  by (fastforce simp: loginSRP_def io_bind_Some_Ok io_res_def of_err_resultErr ResNoErr_def split: if_splits)

text \<open>A server that answers the first request with \<^verbatim>\<open>NoErr\<close> is believed.\<close>

theorem loginSRP_proof_witness:
  "\<exists>payload code s1. login (serve_env 0 (\<lambda>_ _ _ st. (([], 0), st))) uamSRP (builder_pascal [] ''u'') (NewSession ()) =
       Some (Ok (payload, code), s1) \<and> (code = ResNoErr \<or> code = ResAuthContinue)"
proof -
  have "loginSRP (serve_env 0 (\<lambda>_ _ _ st. (([], 0), st))) sample_crypto ''u'' ''p'' (NewSession ()) =
      Some (Ok (), NewSession ())"
    by (simp add: loginSRP_def login_request io_bind_def io_res_def result_of_code_def ResAuthContinue_def NewSession_def)
  from loginSRP_proof [OF this] show ?thesis by blast
qed

end
