(* ===== verification/Server_Info.thy ===== *)
theory Server_Info
  imports Wire
begin

text \<open>
  \<^verbatim>\<open>internal/afp/serverinfo.go\<close>: the FPGetSrvrInfo block a server gives before login. The
  code indexes the raw block; a read outside it would panic, and the model says so.
\<close>

section \<open>Definitions\<close>

record ServerInfo =
  ServerName :: string
  MachineType :: string
  AFPVersions :: "string list"
  UAMs :: "string list"
  SrvFlags :: "16 word"

text \<open>\<^verbatim>\<open>fmt.Errorf(f, err)\<close> with \<^verbatim>\<open>%w\<close>, applied to the error of a call.\<close>

fun wrapErr :: "string \<Rightarrow> fmtarg list \<Rightarrow> 'a res \<Rightarrow> 'a res" where
  "wrapErr f as (Err e) = Err (Errorf f (as @ [AErr e]))"
| "wrapErr f as r = r"

definition pascalString :: "bytes \<Rightarrow> int \<Rightarrow> (string \<times> int) res" where
  "pascalString b off =
     (if off < 0 \<or> off \<ge> int (length b)
      then Err (Errorf ''offset %d outside %d-byte block'' [AInt off, AInt (int (length b))])
      else res_bind (go_index b off) (\<lambda>nb.
        let n = int (unat nb); endp = off + 1 + n in
        if endp > int (length b)
        then Err (Errorf ''string at %d overruns block (%d+%d > %d)''
                    [AInt off, AInt (off + 1), AInt n, AInt (int (length b))])
        else res_bind (go_slice b (off + 1) endp) (\<lambda>v. Ok (string_of_bytes v, endp))))"

text \<open>The loop of \<^verbatim>\<open>pascalList\<close>: \<open>k\<close> items to go from item \<open>i\<close>, at \<open>pos\<close>.\<close>

fun pascal_items :: "bytes \<Rightarrow> nat \<Rightarrow> nat \<Rightarrow> int \<Rightarrow> string list \<Rightarrow> string list res" where
  "pascal_items b i 0 pos items = Ok items"
| "pascal_items b i (Suc k) pos items =
     res_bind (wrapErr ''list item %d: %w'' [AInt (int i)] (pascalString b pos)) (\<lambda>(s, next).
       pascal_items b (Suc i) k next (items @ [s]))"

definition pascalList :: "bytes \<Rightarrow> int \<Rightarrow> string list res" where
  "pascalList b off =
     (if off \<le> 0 then Ok []
      else if off \<ge> int (length b)
      then Err (Errorf ''list offset %d outside %d-byte block'' [AInt off, AInt (int (length b))])
      else res_bind (go_index b off) (\<lambda>c. pascal_items b 0 (unat c) (off + 1) []))"

definition offset16 :: "bytes \<Rightarrow> int \<Rightarrow> int res" where
  "offset16 b i = res_bind (go_slice b i (i + 2)) (\<lambda>v. Ok (int (unat (get16 v))))"

definition ParseServerInfo :: "bytes \<Rightarrow> ServerInfo res" where
  "ParseServerInfo b =
     (if length b < 11
      then Err (Errorf ''afp: server info block too short (%d bytes)'' [AInt (int (length b))])
      else
        res_bind (go_slice b 8 10) (\<lambda>fl.
        res_bind (wrapErr ''afp: server name: %w'' [] (pascalString b 10)) (\<lambda>(name, _).
        res_bind (offset16 b 0) (\<lambda>mo.
        res_bind (wrapErr ''afp: machine type: %w'' [] (pascalString b mo)) (\<lambda>(machine, _).
        res_bind (offset16 b 2) (\<lambda>vo.
        res_bind (wrapErr ''afp: version list: %w'' [] (pascalList b vo)) (\<lambda>versions.
        res_bind (offset16 b 4) (\<lambda>uo.
        res_bind (wrapErr ''afp: UAM list: %w'' [] (pascalList b uo)) (\<lambda>uams.
          Ok \<lparr>ServerName = name, MachineType = machine, AFPVersions = versions, UAMs = uams,
              SrvFlags = get16 fl\<rparr>)))))))))"

section \<open>No read outside the block\<close>

lemma wrapErr_Panic [simp]: "wrapErr f as r = Panic \<longleftrightarrow> r = Panic"
  by (cases r) auto

lemma wrapErr_Ok [simp]: "wrapErr f as r = Ok x \<longleftrightarrow> r = Ok x"
  by (cases r) auto

lemma pascalString_not_Panic: "pascalString b off \<noteq> Panic"
  by (simp add: pascalString_def Let_def)

lemma pascal_items_not_Panic: "pascal_items b i k pos items \<noteq> Panic"
  by (induction k arbitrary: i pos items)
     (auto simp: pascalString_not_Panic res_bind_Panic_iff)

lemma pascalList_not_Panic: "pascalList b off \<noteq> Panic"
  by (simp add: pascalList_def pascal_items_not_Panic)

text \<open>Every block a server may send, however short or inconsistent, gives a value or an error.\<close>

lemma ParseServerInfo_not_Panic: "ParseServerInfo b \<noteq> Panic"
proof (cases "length b < 11")
  case True
  then show ?thesis by (simp add: ParseServerInfo_def)
next
  case False
  have o: "offset16 b i \<noteq> Panic" if "i \<in> {0, 2, 4}" for i
    using that False by (auto simp: offset16_def)
  from False o show ?thesis
    unfolding ParseServerInfo_def
    by (auto simp: res_bind_Panic_iff pascalString_not_Panic pascalList_not_Panic)
qed

section \<open>Reading back what a server lays out\<close>

text \<open>
  The layout of the block: four offsets (machine type, versions, UAMs, icon), the flags and
  the server name, followed by the parts the offsets point at.
\<close>

definition put_list :: "string list \<Rightarrow> bytes" where
  "put_list xs = word_of_nat (length xs) # concat (map put_pascal xs)"

definition put_info :: "16 word \<Rightarrow> ServerInfo \<Rightarrow> bytes" where
  "put_info icon i =
     (let mo = 10 + length (put_pascal (ServerName i));
          vo = mo + length (put_pascal (MachineType i));
          uo = vo + length (put_list (AFPVersions i))
      in put16 (word_of_nat mo) @ put16 (word_of_nat vo) @ put16 (word_of_nat uo) @ put16 icon
           @ put16 (SrvFlags i) @ put_pascal (ServerName i) @ put_pascal (MachineType i)
           @ put_list (AFPVersions i) @ put_list (UAMs i))"

definition info_ok :: "ServerInfo \<Rightarrow> bool" where
  "info_ok i \<longleftrightarrow> length (ServerName i) < 256 \<and> length (MachineType i) < 256
     \<and> length (AFPVersions i) < 256 \<and> length (UAMs i) < 256
     \<and> list_all (\<lambda>s. length s < 256) (AFPVersions i) \<and> list_all (\<lambda>s. length s < 256) (UAMs i)
     \<and> length (put_info 0 i) < 65536"

lemma pascalString_put:
  assumes "length s < 256" and "off = int (length pre)"
  shows "pascalString (pre @ put_pascal s @ post) off = Ok (s, off + int (length (put_pascal s)))"
  using assms
  by (simp add: pascalString_def put_pascal_def unat_length8 uint_length8 nth_append Let_def
        nat_add_distrib)

lemma pascal_items_put:
  assumes "list_all (\<lambda>s. length s < 256) xs" and "off = int (length pre)"
  shows "pascal_items (pre @ concat (map put_pascal xs) @ post) i (length xs) off items =
    Ok (items @ xs)"
  using assms
proof (induction xs arbitrary: pre i off items)
  case Nil
  then show ?case by simp
next
  case (Cons x xs)
  let ?rest = "concat (map put_pascal xs) @ post"
  have "pascalString (pre @ put_pascal x @ ?rest) off = Ok (x, off + int (length (put_pascal x)))"
    using Cons.prems by (intro pascalString_put) auto
  moreover have "pascal_items ((pre @ put_pascal x) @ ?rest) (Suc i) (length xs)
      (off + int (length (put_pascal x))) (items @ [x]) = Ok ((items @ [x]) @ xs)"
    using Cons.prems by (intro Cons.IH) auto
  ultimately show ?case by simp
qed

lemma pascalList_put:
  assumes "list_all (\<lambda>s. length s < 256) xs" and "length xs < 256" and "off = int (length pre)"
    and "0 < length pre"
  shows "pascalList (pre @ put_list xs @ post) off = Ok xs"
proof -
  have "pascal_items ((pre @ [word_of_nat (length xs)]) @ concat (map put_pascal xs) @ post) 0
      (length xs) (off + 1) [] = Ok xs"
    using pascal_items_put [OF assms(1), of "off + 1" "pre @ [word_of_nat (length xs)]"] assms(3)
    by simp
  then show ?thesis
    using assms by (simp add: pascalList_def put_list_def unat_of_nat nth_append)
qed

lemma pascalString_at:
  "b = pre @ put_pascal s @ post \<Longrightarrow> length s < 256 \<Longrightarrow> off = int (length pre) \<Longrightarrow>
   \<exists>e. pascalString b off = Ok (s, e)"
  using pascalString_put by blast

lemma offset16_at:
  "b = pre @ put16 (word_of_nat n) @ post \<Longrightarrow> i = int (length pre) \<Longrightarrow> n < 65536 \<Longrightarrow>
   offset16 b i = Ok (int n)"
  using uint_length16 [of "replicate n (0 :: byte)"] by (simp add: offset16_def)

lemma ParseServerInfo_layout:
  assumes "info_ok i"
  shows "ParseServerInfo (put_info icon i) = Ok i"
proof -
  let ?n = "put_pascal (ServerName i)" and ?m = "put_pascal (MachineType i)"
  let ?v = "put_list (AFPVersions i)" and ?u = "put_list (UAMs i)"
  let ?f = "put16 (SrvFlags i)" and ?b = "put_info icon i"
  define mo where "mo = 10 + length ?n"
  define vo where "vo = mo + length ?m"
  define uo where "uo = vo + length ?v"
  note offs = mo_def vo_def uo_def
  let ?o1 = "put16 (word_of_nat mo)" and ?o2 = "put16 (word_of_nat vo)"
  let ?o3 = "put16 (word_of_nat uo)"
  have b: "?b = ?o1 @ ?o2 @ ?o3 @ put16 icon @ ?f @ ?n @ ?m @ ?v @ ?u"
    by (simp add: put_info_def Let_def offs)
  have len: "length (put_info 0 i) = length ?b" by (simp add: put_info_def Let_def)
  have small: "uo < 65536" and big: "\<not> length ?b < 11"
    using assms len by (auto simp: info_ok_def b offs put_list_def put_pascal_def)
  have o: "offset16 ?b 0 = Ok (int mo)" "offset16 ?b 2 = Ok (int vo)" "offset16 ?b 4 = Ok (int uo)"
    using offset16_at [of ?b "[]" mo "?o2 @ ?o3 @ put16 icon @ ?f @ ?n @ ?m @ ?v @ ?u"]
      offset16_at [of ?b "?o1" vo "?o3 @ put16 icon @ ?f @ ?n @ ?m @ ?v @ ?u"]
      offset16_at [of ?b "?o1 @ ?o2" uo "put16 icon @ ?f @ ?n @ ?m @ ?v @ ?u"] small b
    by (auto simp: vo_def uo_def)
  obtain e1 where p1: "pascalString ?b 10 = Ok (ServerName i, e1)"
    using pascalString_at [of ?b "?o1 @ ?o2 @ ?o3 @ put16 icon @ ?f" "ServerName i" "?m @ ?v @ ?u" 10]
      assms b by (auto simp: info_ok_def)
  obtain e2 where p2: "pascalString ?b (int mo) = Ok (MachineType i, e2)"
    using pascalString_at [of ?b "?o1 @ ?o2 @ ?o3 @ put16 icon @ ?f @ ?n" "MachineType i" "?v @ ?u"
        "int mo"] assms b by (auto simp: info_ok_def mo_def)
  have p3: "pascalList ?b (int vo) = Ok (AFPVersions i)"
    using pascalList_put [of "AFPVersions i" "int vo" "?o1 @ ?o2 @ ?o3 @ put16 icon @ ?f @ ?n @ ?m" ?u]
      assms b by (simp add: info_ok_def offs)
  have p4: "pascalList ?b (int uo) = Ok (UAMs i)"
    using pascalList_put [of "UAMs i" "int uo" "?o1 @ ?o2 @ ?o3 @ put16 icon @ ?f @ ?n @ ?m @ ?v" "[]"]
      assms b by (simp add: info_ok_def offs)
  have fl: "get16 (take 2 (drop 8 ?b)) = SrvFlags i" by (simp add: b)
  show ?thesis
    unfolding ParseServerInfo_def using big o p1 p2 p3 p4 fl by simp
qed

text \<open>
  (C28) \<^verbatim>\<open>ParseServerInfo\<close> reads back every block laid out by the format: server name,
  machine type, versions, UAMs and flags come out as the server put them, for strings of
  every length, whose parts follow one another in the block, and whatever the icon offset is.
\<close>
theorem ParseServerInfo_put:
  assumes "info_ok i"
  shows "ParseServerInfo (put_info icon i) = Ok i"
  using assms by (rule ParseServerInfo_layout)

theorem ParseServerInfo_put_witness:
  "ParseServerInfo (put_info 0 \<lparr>ServerName = ''nas'', MachineType = ''Netatalk'',
      AFPVersions = [''AFP3.3'', ''AFP3.4''], UAMs = [''DHX2''], SrvFlags = 0x8000\<rparr>) =
   Ok \<lparr>ServerName = ''nas'', MachineType = ''Netatalk'',
      AFPVersions = [''AFP3.3'', ''AFP3.4''], UAMs = [''DHX2''], SrvFlags = 0x8000\<rparr>"
  by (rule ParseServerInfo_put) (simp add: info_ok_def put_info_def put_list_def put_pascal_def Let_def)

end
