(* ===== verification/Login.thy ===== *)
theory Login
  imports Srp Server_Info
begin

text \<open>
  \<^verbatim>\<open>Session.Login\<close> of \<^verbatim>\<open>internal/afp/session.go\<close>: the choice of the protocol version and the login
  method, seen through the requests that reach the server.
\<close>

section \<open>Definitions\<close>

definition Login_auth :: "'s env \<Rightarrow> crypto \<Rightarrow> ServerInfo \<Rightarrow> string \<Rightarrow> string \<Rightarrow> ('s session, unit) io" where
  "Login_auth E C info username password =
     (let uams = set (UAMs info) in
      if username = [] then
        if uamNoAuth \<notin> uams
        then io_res (Err (Errorf ''afp: server does not allow guest login (UAMs: %v)'' [AStrs (UAMs info)]))
        else loginGuest E
      else if uamDHX2 \<in> uams then loginDHX2 E C username password
      else if uamSRP \<in> uams then loginSRP E C username password
      else if uamCleartext \<in> uams then loginCleartext E username password
      else io_res (Err (Errorf ''afp: no mutually supported UAM (server offers %v)'' [AStrs (UAMs info)])))"

definition Login :: "'s env \<Rightarrow> crypto \<Rightarrow> ServerInfo \<Rightarrow> string \<Rightarrow> string \<Rightarrow> ('s session, unit) io" where
  "Login E C info username password =
     io_bind (io_res (pickVersion (AFPVersions info))) (\<lambda>version s.
       Login_auth E C info username password (s\<lparr>Version := version\<rparr>))"

section \<open>A record of the requests\<close>

text \<open>The same connection with the requests sent so far kept beside it.\<close>

definition log_env :: "'s env \<Rightarrow> ('s \<times> bytes list) env" where
  "log_env E =
     \<lparr>conn_request = (\<lambda>cmd off p (c, l). case conn_request E cmd off p c of
          None \<Rightarrow> None | Some (r, c') \<Rightarrow> Some (r, (c', l @ [p]))),
      conn_quantum = (\<lambda>(c, l). conn_quantum E c), norm_nfd = norm_nfd E, norm_nfc = norm_nfc E,
      group_order = (\<lambda>(c, l). group_order E c)\<rparr>"

abbreviation sent :: "('s \<times> bytes list) session \<Rightarrow> bytes list" where
  "sent s \<equiv> snd (sconn s)"

text \<open>\<open>sends P m\<close>: when \<open>m\<close> returns, the requests it has sent satisfy \<open>P\<close>.\<close>

definition sends :: "(bytes list \<Rightarrow> bool) \<Rightarrow> (('s \<times> bytes list) session, 'a) io \<Rightarrow> bool" where
  "sends P m \<longleftrightarrow> (\<forall>s r s'. m s = Some (r, s') \<longrightarrow> (\<exists>new. sent s' = sent s @ new \<and> P new))"

lemma sendsD: "sends P m \<Longrightarrow> m s = Some (r, s') \<Longrightarrow> \<exists>new. sent s' = sent s @ new \<and> P new"
  by (auto simp: sends_def)

lemma sends_res [intro!]: "P [] \<Longrightarrow> sends P (io_res r)"
  by (simp add: sends_def io_res_def)

lemma sends_mono: "sends P m \<Longrightarrow> (\<And>l. P l \<Longrightarrow> Q l) \<Longrightarrow> sends Q m"
  by (fastforce simp: sends_def)

lemma sends_prod [intro]: "(\<And>a b. sends P (f a b)) \<Longrightarrow> sends P (case x of (a, b) \<Rightarrow> f a b)"
  by (cases x) simp

lemma sends_if [intro]: "sends P m \<Longrightarrow> sends P n \<Longrightarrow> sends P (if c then m else n)"
  by simp

lemma sends_bind:
  assumes "sends P m" and "\<And>a. sends Q (f a)" and "\<And>l l'. P l \<Longrightarrow> Q l' \<Longrightarrow> R (l @ l')" and "Q []"
  shows "sends R (io_bind m f)"
  unfolding sends_def
proof (intro allI impI)
  fix s r s'' assume "io_bind m f s = Some (r, s'')"
  then obtain r0 s' where m: "m s = Some (r0, s')"
    and rest: "(\<exists>a. r0 = Ok a \<and> f a s' = Some (r, s'')) \<or> s'' = s'"
    by (auto simp: io_bind_def split: option.splits res.splits)
  obtain l where l: "sent s' = sent s @ l" "P l" using sendsD [OF assms(1) m] by blast
  from rest show "\<exists>new. sent s'' = sent s @ new \<and> R new"
  proof
    assume "\<exists>a. r0 = Ok a \<and> f a s' = Some (r, s'')"
    then obtain l' where "sent s'' = sent s' @ l'" "Q l'" using sendsD [OF assms(2)] by blast
    then show ?thesis using l assms(3) by auto
  next
    assume "s'' = s'"
    then show ?thesis using l assms(3) [OF l(2) assms(4)] by auto
  qed
qed

lemma sends_command: "sends (\<lambda>l. l = [p]) (command (log_env E) p)"
  by (auto simp: sends_def command_def io_bind_def io_ret_def on_sconn_def log_env_def
      split: option.splits res.splits prod.splits)

definition continues :: "bytes list \<Rightarrow> bool" where
  "continues l \<longleftrightarrow> (\<forall>m \<in> set l. m ! 0 = cmdLoginCont)"

lemma continues_simps [simp]: "continues []" "continues (l @ l') \<longleftrightarrow> continues l \<and> continues l'"
  by (auto simp: continues_def)

lemma sends_loginCont: "sends continues (loginCont (log_env E) tid a)"
  unfolding loginCont_request by (rule sends_mono [OF sends_command]) (simp add: continues_def)

lemmas sends_continue = sends_bind [where P = continues and Q = continues and R = continues, simplified]

lemma sends_bind_res: "(\<And>a. sends P (f a)) \<Longrightarrow> P [] \<Longrightarrow> sends P (io_bind (io_res r) f)"
  by (cases r) (auto simp: sends_def io_defs)

section \<open>The choice\<close>

text \<open>The version and login method of an FPLogin request.\<close>

definition read_login :: "bytes \<Rightarrow> (string \<times> string) option" where
  "read_login m =
     (let r = new_reader m;
          (cmd, r) = reader_u8 [] r;
          (version, r) = reader_pascal [] r;
          (uam, r) = reader_pascal [] r
      in if rerr r = None \<and> cmd = cmdLogin then Some (version, uam) else None)"

text \<open>What is to be chosen: the first supported version, and the first offered of the methods in order of strength.\<close>

definition login_plan :: "ServerInfo \<Rightarrow> string \<Rightarrow> (string \<times> string) option" where
  "login_plan info user =
     (case (find (\<lambda>v. v \<in> set (AFPVersions info)) [''AFP3.4'', ''AFP3.3'', ''AFP3.2'', ''AFP3.1''],
            find (\<lambda>u. u \<in> set (UAMs info))
              (if user = [] then [''No User Authent''] else [''DHX2'', ''SRP'', ''Cleartxt Passwrd'']))
      of (Some v, Some u) \<Rightarrow> Some (v, u) | _ \<Rightarrow> None)"

definition opens_with :: "string \<Rightarrow> string \<Rightarrow> bytes list \<Rightarrow> bool" where
  "opens_with version uam l \<longleftrightarrow> (\<exists>m rest. l = m # rest \<and> read_login m = Some (version, uam) \<and> continues rest)"

lemma sends_login:
  assumes "Version s = v" and "length v \<le> 255" and "length uam \<le> 255"
    and "login (log_env E) uam a s = Some (r, s')"
  shows "\<exists>m. sent s' = sent s @ [m] \<and> read_login m = Some (v, uam)"
proof -
  obtain m where m: "login (log_env E) uam a s = command (log_env E) m s"
      "m = cmdLogin # put_pascal v @ put_pascal uam @ a"
    using assms(1-3) by (simp add: login_request)
  have "read_login m = Some (v, uam)" using assms(2,3) by (simp add: m(2) read_login_def new_reader_rd)
  moreover have "sent s' = sent s @ [m]" using sendsD [OF sends_command] assms(4) m(1) by metis
  ultimately show ?thesis by blast
qed

text \<open>A login request followed by continuations only.\<close>

lemma opens_bind:
  assumes "length (Version s) \<le> 255" and "length uam \<le> 255" and "\<And>a. sends continues (f a)"
    and "io_bind (login (log_env E) uam auth) f s = Some (r, s')"
  shows "\<exists>new. sent s' = sent s @ new \<and> opens_with (Version s) uam new"
proof -
  obtain r0 s1 where l: "login (log_env E) uam auth s = Some (r0, s1)"
    and rest: "(\<exists>a. r0 = Ok a \<and> f a s1 = Some (r, s')) \<or> s' = s1"
    using assms(4) by (auto simp: io_bind_def split: option.splits res.splits)
  obtain m where m: "sent s1 = sent s @ [m]" "read_login m = Some (Version s, uam)"
    using sends_login [OF refl assms(1,2) l] by blast
  from rest have "\<exists>l. sent s' = sent s1 @ l \<and> continues l"
    using sendsD [OF assms(3)] by (auto intro: exI [of _ "[]"])
  with m show ?thesis by (auto simp: opens_with_def)
qed

lemma uam_len [simp]:
  "length uamNoAuth \<le> 255" "length uamDHX2 \<le> 255" "length uamSRP \<le> 255" "length uamCleartext \<le> 255"
  by (simp_all add: uam_defs)

lemma dhx2_tail_continues:
  "sends continues (io_bind (loginCont (log_env E) tid m) (\<lambda>(payload, code).
     if code \<noteq> ResAuthContinue then io_res (of_err (resultErr ''DHX2 exchange'' code))
     else io_bind (io_res (dhx2_step3 block cn pw payload)) (\<lambda>(tid, final).
          io_bind (loginCont (log_env E) tid final) (\<lambda>(_, code). io_res (of_err (resultErr ''DHX2 login'' code))))))"
  by (intro sends_continue sends_loginCont sends_prod sends_if sends_bind_res sends_res) simp_all

lemma methods_open:
  assumes "length (Version s) \<le> 255"
  shows "loginGuest (log_env E) s = Some (r, s') \<Longrightarrow>
      \<exists>new. sent s' = sent s @ new \<and> opens_with (Version s) uamNoAuth new"
    and "loginCleartext (log_env E) user pw s = Some (r, s') \<Longrightarrow>
      \<exists>new. sent s' = sent s @ new \<and> opens_with (Version s) uamCleartext new"
    and "loginDHX2 (log_env E) C user pw s = Some (r, s') \<Longrightarrow>
      \<exists>new. sent s' = sent s @ new \<and> opens_with (Version s) uamDHX2 new"
    and "loginSRP (log_env E) C user pw s = Some (r, s') \<Longrightarrow>
      \<exists>new. sent s' = sent s @ new \<and> opens_with (Version s) uamSRP new"
  unfolding loginGuest_def loginCleartext_def loginDHX2_def loginSRP_def
  by (erule opens_bind [OF assms, rotated 2],
      simp, intro sends_prod sends_if sends_bind_res sends_res dhx2_tail_continues sends_continue sends_loginCont,
      simp_all)+

lemma Login_auth_plan:
  assumes "length (Version s) \<le> 255" and "Login_auth (log_env E) C info user pw s = Some (r, s')"
  shows "\<exists>new. sent s' = sent s @ new \<and>
    (case find (\<lambda>u. u \<in> set (UAMs info))
        (if user = [] then [''No User Authent''] else [''DHX2'', ''SRP'', ''Cleartxt Passwrd'']) of
       None \<Rightarrow> new = [] \<and> (\<exists>e. r = Err e)
     | Some uam \<Rightarrow> opens_with (Version s) uam new)"
  using assms(2) methods_open [OF assms(1)]
  by (auto simp: Login_auth_def uam_defs io_res_def Let_def split: if_splits)

text \<open>
  (C12) \<^verbatim>\<open>Login\<close> negotiates as documented, for every connection and every answer of the server: it
  sends nothing when there is no common version or method; otherwise its first request is an FPLogin
  with the most preferred common version and the strongest offered method (guest only without a user
  name; DHX2, then SRP, and the cleartext password only when the server offers neither), and every
  further request only continues that login.
\<close>
theorem Login_choice:
  assumes "Login (log_env E) C info user pw s = Some (r, s')"
  shows "\<exists>new. sent s' = sent s @ new \<and>
    (case login_plan info user of
       None \<Rightarrow> new = [] \<and> (\<exists>e. r = Err e)
     | Some (version, uam) \<Rightarrow> opens_with version uam new)"
proof (cases "find (\<lambda>v. v \<in> set (AFPVersions info)) versionPreference")
  case None
  then show ?thesis using assms
    by (auto simp: Login_def pickVersion_def login_plan_def versionPreference_def io_defs split: if_splits)
next
  case (Some v)
  then have "v \<in> set versionPreference" by (metis find_Some_iff nth_mem)
  then have len: "length v \<le> 255" by (auto simp: versionPreference_def)
  have "Login_auth (log_env E) C info user pw (s\<lparr>Version := v\<rparr>) = Some (r, s')"
    using assms Some by (simp add: Login_def pickVersion_def io_defs)
  from Login_auth_plan [OF _ this] len Some show ?thesis
    unfolding login_plan_def versionPreference_def by (auto simp del: find.simps split del: if_split split: option.splits)
qed

text \<open>A server with an older and a newer version and all methods is asked for DHX2 with the newer version.\<close>

theorem Login_choice_witness:
  "\<exists>new s'. Login (log_env (serve_env 0 (\<lambda>_ _ _ st. (([], 0), st)))) sample_crypto
      \<lparr>ServerName = [], MachineType = [], AFPVersions = [''AFP3.1'', ''AFP3.3''],
        UAMs = [''Cleartxt Passwrd'', ''SRP'', ''DHX2''], SrvFlags = 0\<rparr> ''u'' ''p'' (NewSession ((), [])) = Some (Ok (), s')
    \<and> sent s' = new \<and> opens_with ''AFP3.3'' ''DHX2'' new"
proof -
  let ?E = "serve_env 0 (\<lambda>_ _ _ st. (([], 0), st)) :: unit env"
  let ?i = "\<lparr>ServerName = [], MachineType = [], AFPVersions = [''AFP3.1'', ''AFP3.3''],
        UAMs = [''Cleartxt Passwrd'', ''SRP'', ''DHX2''], SrvFlags = 0\<rparr>"
  have run: "\<exists>s'. Login (log_env ?E) sample_crypto ?i ''u'' ''p'' (NewSession ((), [])) = Some (Ok (), s')"
    by (simp add: Login_def Login_auth_def pickVersion_def versionPreference_def uam_defs loginDHX2_def
        login_request command_def on_sconn_def log_env_def serve_env_def NewSession_def io_defs
        result_of_code_def ResAuthContinue_def)
  moreover have "login_plan ?i ''u'' = Some (''AFP3.3'', ''DHX2'')" by (simp add: login_plan_def)
  ultimately show ?thesis using Login_choice [of ?E sample_crypto ?i "''u''" "''p''" "NewSession ((), [])"]
    by (fastforce simp: NewSession_def)
qed

section \<open>Over any sound transport\<close>

context afp_layer
begin

lemma loginSRP_ends: "io_ends sound (loginSRP E C user pw)"
  unfolding loginSRP_def
  by (intro io_ends_bind io_ends_if io_ends_prod io_ends_res io_safe_ends [OF login_safe] io_safe_ends [OF loginCont_safe])

lemma version_ends: "io_ends sound m \<Longrightarrow> io_ends sound (\<lambda>s. m (s\<lparr>Version := ver\<rparr>))"
  by (simp add: io_ends_def)

lemma version_safe: "io_safe sound m \<Longrightarrow> io_safe sound (\<lambda>s. m (s\<lparr>Version := ver\<rparr>))"
  by (simp add: io_safe_def)

lemma Login_ends:
  assumes "crypto_ok C"
  shows "io_ends sound (Login E C info user pw)"
  unfolding Login_def Login_auth_def Let_def
  by (intro io_ends_bind version_ends io_ends_if io_ends_res loginSRP_ends io_safe_ends [OF loginGuest_safe]
      io_safe_ends [OF loginCleartext_safe] io_safe_ends [OF loginDHX2_safe [OF assms]])

text \<open>Without SRP, a login does not panic.\<close>

lemma Login_safe:
  assumes "crypto_ok C" and "user = [] \<or> uamDHX2 \<in> set (UAMs info) \<or> uamSRP \<notin> set (UAMs info)"
  shows "io_safe sound (Login E C info user pw)"
proof -
  have "io_safe sound (Login_auth E C info user pw)"
    using assms(2) loginGuest_safe loginCleartext_safe loginDHX2_safe [OF assms(1)]
    by (auto simp: Login_auth_def Let_def)
  moreover have "pickVersion vs \<noteq> Panic" for vs by (auto simp: pickVersion_def split: option.split)
  ultimately show ?thesis
    unfolding Login_def by (intro io_safe_bind io_safe_res version_safe)
qed

end

end
