(* ===== verification/Conn_Manager.thy ===== *)
theory Conn_Manager
  imports Login Symlink
begin

text \<open>
  \<^verbatim>\<open>internal/nfsfs/conn.go\<close>: the connection manager of the NFS bridge. First one call of \<^verbatim>\<open>do\<close>, among
  others that act whenever it does not hold the mutex; then all callers as a step relation, of whose
  \<^verbatim>\<open>do\<close> only the sections under the mutex are atomic.
\<close>

section \<open>Definitions\<close>

text \<open>
  One generation: the connection, its session and its volume, which the dialer makes together. Each
  is a fresh object, so the number of the connection stands for the three pointers.
\<close>

record link =
  lconn :: nat
  lver :: string
  lvol :: Volume

text \<open>
  What the manager is given: the requests of each connection, over a state that holds all of them,
  the dialer, \<^verbatim>\<open>IsAlive\<close> and \<^verbatim>\<open>Close\<close>.
\<close>

record 's bridge =
  benv :: "nat \<Rightarrow> 's env"
  bdial :: "('s, link) io"
  balive :: "nat \<Rightarrow> 's \<Rightarrow> bool"
  bclose :: "nat \<Rightarrow> ('s, unit) io"

record manager =
  mgen :: "64 word"
  mlink :: "link option"

definition newConnManager :: "'s bridge \<Rightarrow> ('s, manager) io" where
  "newConnManager B = io_bind (bdial B) (\<lambda>l. io_ret \<lparr>mgen = 1, mlink = Some l\<rparr>)"

text \<open>\<^verbatim>\<open>reconnect\<close> once the outcome of the dial is known: the new generation, or none.\<close>

definition relink :: "link res \<Rightarrow> manager \<Rightarrow> manager" where
  "relink d m = (case d of Ok l \<Rightarrow> m\<lparr>mlink := Some l, mgen := mgen m + 1\<rparr> | _ \<Rightarrow> m\<lparr>mlink := None\<rparr>)"

text \<open>The error of \<^verbatim>\<open>Close\<close> is dropped.\<close>

definition cm_close_old :: "'s bridge \<Rightarrow> manager \<Rightarrow> ('s, unit) io" where
  "cm_close_old B m =
     (case mlink m of
        None \<Rightarrow> io_ret ()
      | Some l \<Rightarrow> io_catch (bclose B (lconn l)) (\<lambda>_. io_ret ()))"

definition reconnect :: "'s bridge \<Rightarrow> 64 word \<Rightarrow> ('s \<times> manager, unit) io" where
  "reconnect B failedGen = (\<lambda>(s, m).
     if mgen m \<noteq> failedGen then Some (Ok (), (s, m))
     else
       case io_bind (cm_close_old B m) (\<lambda>_. io_catch (io_bind (bdial B) (\<lambda>l. io_ret (Ok l))) (\<lambda>e. io_ret (Err e))) s of
         None \<Rightarrow> None
       | Some (Ok (Ok l), s') \<Rightarrow> Some (Ok (), (s', relink (Ok l) m))
       | Some (Ok (Err e), s') \<Rightarrow> Some (Err e, (s', relink (Err e) m))
       | Some (_, s') \<Rightarrow> Some (Panic, (s', m)))"

text \<open>
  \<open>fn\<close> gets the volume pointer, \<open>None\<close> for \<^verbatim>\<open>nil\<close>, and works on the state and on the variables the
  closure captures, which keep their values from the first attempt to the second.
\<close>

type_synonym ('s, 'c) action = "link option \<Rightarrow> ('s \<times> 'c, unit) io"

text \<open>
  \<^verbatim>\<open>do\<close> holds the mutex only while it takes its snapshot, inside \<^verbatim>\<open>reconnect\<close>, and while it reads the
  volume again. \<open>I k\<close> is what the other callers do to the world and to the manager meanwhile: 0 after
  the snapshot, 1 during the first run of \<open>fn\<close> and up to \<^verbatim>\<open>IsAlive\<close>, 2 before \<^verbatim>\<open>reconnect\<close>, 3 between
  \<^verbatim>\<open>reconnect\<close> and the second reading of the volume, 4 before the second run of \<open>fn\<close>.
\<close>

type_synonym 's others = "nat \<Rightarrow> 's \<times> manager \<Rightarrow> 's \<times> manager"

definition retry_among :: "'s bridge \<Rightarrow> 's others \<Rightarrow> ('s, 'c) action \<Rightarrow> 64 word \<Rightarrow> ('s \<times> 'c \<times> manager, unit) io" where
  "retry_among B I fn gen = (\<lambda>(s, c, m).
     case reconnect B gen (I 2 (s, m)) of
       None \<Rightarrow> None
     | Some (Ok _, sm) \<Rightarrow>
         (let sm = I 3 sm;
              vol = mlink (snd sm);
              (s', m') = I 4 sm
          in case fn vol (s', c) of
               None \<Rightarrow> None
             | Some (r, (s'', c')) \<Rightarrow> Some (r, (s'', c', m')))
     | Some (r, (s', m')) \<Rightarrow> Some (r, (s', c, m')))"

definition cm_do_among :: "'s bridge \<Rightarrow> 's others \<Rightarrow> ('s, 'c) action \<Rightarrow> ('s \<times> 'c \<times> manager, unit) io" where
  "cm_do_among B I fn = (\<lambda>(s, c, m).
     let vol = mlink m;
         gen = mgen m;
         (s, m) = I 0 (s, m)
     in case vol of
          Some l \<Rightarrow>
            (case fn (Some l) (s, c) of
               None \<Rightarrow> None
             | Some (r, (s, c)) \<Rightarrow>
                 (let (s, m) = I 1 (s, m)
                  in if r = Panic \<or> r = Ok () \<or> balive B (lconn l) s then Some (r, (s, c, m))
                     else retry_among B I fn gen (s, c, m)))
        | None \<Rightarrow> retry_among B I fn gen (s, c, m))"

text \<open>A call of \<^verbatim>\<open>do\<close> that no other caller interferes with, which the methods of the file system are built on.\<close>

definition cm_do :: "'s bridge \<Rightarrow> ('s, 'c) action \<Rightarrow> ('s \<times> 'c \<times> manager, unit) io" where
  "cm_do B = cm_do_among B (\<lambda>_ sm. sm)"

definition cm_retry :: "'s bridge \<Rightarrow> ('s, 'c) action \<Rightarrow> 64 word \<Rightarrow> ('s \<times> 'c \<times> manager, unit) io" where
  "cm_retry B = retry_among B (\<lambda>_ sm. sm)"

lemma cm_retry_alone:
  "cm_retry B fn gen = (\<lambda>(s, c, m).
     case reconnect B gen (s, m) of
       None \<Rightarrow> None
     | Some (Ok _, (s', m')) \<Rightarrow>
         (case fn (mlink m') (s', c) of
            None \<Rightarrow> None
          | Some (r, (s'', c')) \<Rightarrow> Some (r, (s'', c', m')))
     | Some (r, (s', m')) \<Rightarrow> Some (r, (s', c, m')))"
  by (auto simp: cm_retry_def retry_among_def Let_def fun_eq_iff split: option.split res.split prod.split)

lemma cm_do_alone:
  "cm_do B fn = (\<lambda>(s, c, m).
     case mlink m of
       Some l \<Rightarrow>
         (case fn (Some l) (s, c) of
            None \<Rightarrow> None
          | Some (r, (s', c')) \<Rightarrow>
              if r = Panic \<or> r = Ok () \<or> balive B (lconn l) s' then Some (r, (s', c', m))
              else cm_retry B fn (mgen m) (s', c', m))
     | None \<Rightarrow> cm_retry B fn (mgen m) (s, c, m))"
  by (auto simp: cm_do_def cm_do_among_def cm_retry_def Let_def fun_eq_iff split: option.split prod.split)

definition cm_close :: "'s bridge \<Rightarrow> ('s \<times> manager, unit) io" where
  "cm_close B = (\<lambda>(s, m). case cm_close_old B m s of None \<Rightarrow> None | Some (r, s') \<Rightarrow> Some (r, (s', m)))"

text \<open>A method of the volume, on the session of its connection; on a \<^verbatim>\<open>nil\<close> volume it panics.\<close>

definition on_link :: "'s bridge \<Rightarrow> link option \<Rightarrow> ('s env \<Rightarrow> Volume \<Rightarrow> ('s session, 'a) io) \<Rightarrow> ('s, 'a) io" where
  "on_link B lo op = (\<lambda>s.
     case lo of
       None \<Rightarrow> Some (Panic, s)
     | Some l \<Rightarrow>
         (case op (benv B (lconn l)) (lvol l) \<lparr>sconn = s, Version = lver l\<rparr> of
            None \<Rightarrow> None
          | Some (r, s') \<Rightarrow> Some (r, sconn s')))"

text \<open>A closure that stores the value of a call in a captured variable and returns its error.\<close>

definition store_result :: "('s, 'a) io \<Rightarrow> ('a \<Rightarrow> 'c \<Rightarrow> 'c) \<Rightarrow> ('s \<times> 'c, unit) io" where
  "store_result m upd = (\<lambda>(s, c).
     case m s of
       None \<Rightarrow> None
     | Some (Ok a, s') \<Rightarrow> Some (Ok (), (s', upd a c))
     | Some (Err e, s') \<Rightarrow> Some (Err e, (s', c))
     | Some (Panic, s') \<Rightarrow> Some (Panic, (s', c)))"

text \<open>A call of \<^verbatim>\<open>do\<close> with one captured variable that is the result: the caller drops it on an error.\<close>

definition cm_get :: "'s bridge \<Rightarrow> 'a \<Rightarrow> (link option \<Rightarrow> ('s \<times> 'a, unit) io) \<Rightarrow> ('s \<times> manager, 'a) io" where
  "cm_get B a fn = (\<lambda>(s, m).
     case cm_do B fn (s, a, m) of
       None \<Rightarrow> None
     | Some (Ok _, (s', a', m')) \<Rightarrow> Some (Ok a', (s', m'))
     | Some (Err e, (s', a', m')) \<Rightarrow> Some (Err e, (s', m'))
     | Some (Panic, (s', a', m')) \<Rightarrow> Some (Panic, (s', m')))"

definition cm_fetch :: "'s bridge \<Rightarrow> 'a \<Rightarrow> ('s env \<Rightarrow> Volume \<Rightarrow> ('s session, 'a) io) \<Rightarrow> ('s \<times> manager, 'a) io" where
  "cm_fetch B a op = cm_get B a (\<lambda>vol. store_result (on_link B vol op) (\<lambda>a _. a))"

definition statFS :: "'s bridge \<Rightarrow> ('s \<times> manager, FSInfo) io" where
  "statFS B = cm_fetch B \<lparr>TotalBytes = 0, FreeBytes = 0, BlockSize = 0\<rparr> StatFS"

section \<open>One call among others\<close>

text \<open>\<open>traced fn\<close> is \<open>fn\<close> with one more captured variable that records the volumes it was run on.\<close>

definition traced :: "('s, 'c) action \<Rightarrow> ('s, 'c \<times> link option list) action" where
  "traced fn vol = (\<lambda>(s, c, log).
     case fn vol (s, c) of None \<Rightarrow> None | Some (r, (s', c')) \<Rightarrow> Some (r, (s', c', log @ [vol])))"

text \<open>There is no volume, or the closure fails on it and its connection is dead afterwards.\<close>

definition link_down :: "'s bridge \<Rightarrow> 's others \<Rightarrow> ('s, 'c) action \<Rightarrow> 's \<Rightarrow> 'c \<Rightarrow> manager \<Rightarrow> bool" where
  "link_down B I fn s c m \<longleftrightarrow>
     (case mlink m of
        None \<Rightarrow> True
      | Some l \<Rightarrow> \<exists>e s' c'. fn (Some l) (fst (I 0 (s, m)), c) = Some (Err e, (s', c'))
          \<and> \<not> balive B (lconn l) (fst (I 1 (s', snd (I 0 (s, m))))))"

text \<open>No dial of another caller fails: the manager is left as it was or with a volume.\<close>

definition no_failed_dials :: "'s others \<Rightarrow> bool" where
  "no_failed_dials I \<longleftrightarrow> (\<forall>k s m. snd (I k (s, m)) = m \<or> mlink (snd (I k (s, m))) \<noteq> None)"

definition first_run :: "manager \<Rightarrow> link option list" where
  "first_run m = (case mlink m of None \<Rightarrow> [] | Some l \<Rightarrow> [Some l])"

lemma reconnect_outcome:
  assumes "reconnect B gen (s, m) = Some (r, (s', m'))"
  shows "r = Ok () \<Longrightarrow> mgen m' \<noteq> gen \<and> (m' = m \<or> mlink m' \<noteq> None)"
    and "r = Err e \<Longrightarrow> mgen m' = gen \<and> mlink m' = None"
  using assms by (auto simp: reconnect_def relink_def split: option.splits res.splits if_splits)

lemma others_keep:
  assumes "no_failed_dials I" and "m = m0 \<or> mlink m \<noteq> None"
  shows "snd (I k (s, m)) = m0 \<or> mlink (snd (I k (s, m))) \<noteq> None"
  using assms by (metis no_failed_dials_def)

text \<open>The retry: the dial failed, or the closure runs once more on what the manager holds then.\<close>

lemma retry_among_outcome:
  assumes "retry_among B I (traced fn) gen (s, (c, log), m) = Some (r, (s', (c', log'), m'))"
  shows "\<exists>r3 s3 m3. reconnect B gen (I 2 (s, m)) = Some (r3, (s3, m3)) \<and>
     (r3 \<noteq> Ok () \<and> r = r3 \<and> m' = m3 \<and> log' = log \<or>
      r3 = Ok () \<and> mgen m3 \<noteq> gen \<and> log' = log @ [mlink (snd (I 3 (s3, m3)))])"
proof -
  obtain s2 m2 where I2: "I 2 (s, m) = (s2, m2)" by fastforce
  obtain r3 s3 m3 where rc: "reconnect B gen (s2, m2) = Some (r3, (s3, m3))"
    using assms I2 by (auto simp: retry_among_def split: option.splits)
  then show ?thesis
    using assms I2 reconnect_outcome(1) [OF rc]
    by (cases r3) (auto simp: retry_among_def traced_def Let_def split: option.splits prod.splits)
qed

lemma retry_among_volume:
  assumes "no_failed_dials I" and "reconnect B (mgen m0) (I 2 (s, m)) = Some (Ok (), (s3, m3))"
    and "m = m0 \<or> mlink m \<noteq> None"
  shows "mlink (snd (I 3 (s3, m3))) \<noteq> None"
proof -
  obtain s2 m2 where I2: "I 2 (s, m) = (s2, m2)" by fastforce
  have "m2 = m0 \<or> mlink m2 \<noteq> None" using others_keep [OF assms(1,3), of 2 s] I2 by simp
  moreover have "mgen m3 \<noteq> mgen m0" "m3 = m2 \<or> mlink m3 \<noteq> None"
    using reconnect_outcome(1) [of B "mgen m0" s2 m2 "Ok ()" s3 m3] assms(2) I2 by auto
  ultimately have "mlink m3 \<noteq> None" by auto
  then show ?thesis using others_keep [OF assms(1), of m3 m3 3 s3] by auto
qed

lemma retry_among_attempts:
  assumes "retry_among B I (traced fn) (mgen m) (s1, (c1, first_run m), m1) = Some (r, (s', (c', log), m'))"
    and "no_failed_dials I \<Longrightarrow> m1 = m \<or> mlink m1 \<noteq> None"
  shows "(\<exists>sm2 r3 s3 m3. reconnect B (mgen m) sm2 = Some (r3, (s3, m3)) \<and>
        (r3 \<noteq> Ok () \<and> r = r3 \<and> m' = m3 \<and> log = first_run m
          \<and> (\<forall>e. r = Err e \<longrightarrow> mgen m' = mgen m \<and> mlink m' = None) \<or>
         r3 = Ok () \<and> mgen m3 \<noteq> mgen m \<and> log = first_run m @ [mlink (snd (I 3 (s3, m3)))]))
    \<and> (no_failed_dials I \<longrightarrow> None \<notin> set log)"
proof -
  obtain r3 s3 m3 where rc: "reconnect B (mgen m) (I 2 (s1, m1)) = Some (r3, (s3, m3))"
    and out: "r3 \<noteq> Ok () \<and> r = r3 \<and> m' = m3 \<and> log = first_run m \<or>
      r3 = Ok () \<and> mgen m3 \<noteq> mgen m \<and> log = first_run m @ [mlink (snd (I 3 (s3, m3)))]"
    using retry_among_outcome [OF assms(1)] by blast
  have "None \<notin> set (first_run m)" by (simp add: first_run_def split: option.split)
  then have "None \<notin> set log" if "no_failed_dials I"
    using out retry_among_volume [OF that _ assms(2) [OF that]] rc by fastforce
  moreover have "r3 = Err e \<Longrightarrow> mgen m3 = mgen m \<and> mlink m3 = None" for e
    using reconnect_outcome(2) rc by (metis surj_pair)
  ultimately show ?thesis using rc out by blast
qed

text \<open>
  (C13) One call of \<^verbatim>\<open>do\<close>, whatever other callers do between its critical sections, runs its closure
  at most twice, the first time on the volume of its snapshot and never on \<^verbatim>\<open>nil\<close> there. Either that
  run succeeded, panicked, or failed with the connection still alive, and nothing is retried. Or there was
  no volume, or the run failed and the connection was dead afterwards: then either reconnecting failed
  too, and its error is returned with the generation unchanged and no volume left; or the
  generation of the snapshot is replaced, by this call or by another, and the closure runs once more on
  the volume the manager then holds. That volume can be \<^verbatim>\<open>nil\<close> only if the dial of another caller failed
  meanwhile.
\<close>
theorem cm_do_attempts:
  assumes "cm_do_among B I (traced fn) (s, (c, []), m) = Some (r, (s', (c', log), m'))"
  shows "((\<exists>l. mlink m = Some l \<and> log = [Some l] \<and> (r = Panic \<or> r = Ok () \<or> balive B (lconn l) s')) \<or>
     link_down B I fn s c m \<and>
     (\<exists>sm2 r3 s3 m3. reconnect B (mgen m) sm2 = Some (r3, (s3, m3)) \<and>
        (r3 \<noteq> Ok () \<and> r = r3 \<and> m' = m3 \<and> log = first_run m
          \<and> (\<forall>e. r = Err e \<longrightarrow> mgen m' = mgen m \<and> mlink m' = None) \<or>
         r3 = Ok () \<and> mgen m3 \<noteq> mgen m \<and> log = first_run m @ [mlink (snd (I 3 (s3, m3)))])))
    \<and> (no_failed_dials I \<longrightarrow> None \<notin> set log)"
proof -
  obtain s0 m0 where I0: "I 0 (s, m) = (s0, m0)" by fastforce
  have m0: "m0 = m \<or> mlink m0 \<noteq> None" if "no_failed_dials I"
    using others_keep [OF that, of m m 0 s] I0 by simp
  show ?thesis
  proof (cases "mlink m")
    case None
    then have "retry_among B I (traced fn) (mgen m) (s0, (c, first_run m), m0) = Some (r, (s', (c', log), m'))"
      using assms I0 by (simp add: cm_do_among_def first_run_def)
    from retry_among_attempts [OF this m0] None show ?thesis by (simp add: link_down_def)
  next
    case (Some l)
    obtain r0 s1 c1 where fn: "fn (Some l) (s0, c) = Some (r0, (s1, c1))"
      using assms Some I0 by (auto simp: cm_do_among_def traced_def split: option.splits)
    obtain s2 m2 where I1: "I 1 (s1, m0) = (s2, m2)" by fastforce
    show ?thesis
    proof (cases "r0 = Panic \<or> r0 = Ok () \<or> balive B (lconn l) s2")
      case True
      then show ?thesis using assms Some fn I0 I1 by (auto simp: cm_do_among_def traced_def)
    next
      case False
      have run: "retry_among B I (traced fn) (mgen m) (s2, (c1, first_run m), m2) = Some (r, (s', (c', log), m'))"
        using assms Some fn I0 I1 False by (simp add: cm_do_among_def traced_def first_run_def)
      have m2: "m2 = m \<or> mlink m2 \<noteq> None" if "no_failed_dials I"
        using others_keep [OF that m0 [OF that], of 1 s1] I1 by simp
      have "link_down B I fn s c m"
        using False Some fn I0 I1 by (cases r0) (auto simp: link_down_def)
      with retry_among_attempts [OF run m2] show ?thesis by simp
    qed
  qed
qed

text \<open>A link that is down, and another caller that replaces it first: no dial of its own, and the second run succeeds.\<close>

definition sample_link :: "nat \<Rightarrow> link" where
  "sample_link h = \<lparr>lconn = h, lver = ''AFP3.3'', lvol = \<lparr>vID = 1, vName = ''V'', vAttributes = 0\<rparr>\<rparr>"

definition sample_bridge :: "nat bridge" where
  "sample_bridge = \<lparr>benv = (\<lambda>_. serve_env 0 (\<lambda>_ _ _ st. (([], 0), st))),
     bdial = (\<lambda>s. Some (Ok (sample_link s), Suc s)), balive = (\<lambda>h s. Suc h = s), bclose = (\<lambda>_ s. Some (Ok (), s))\<rparr>"

definition sample_others :: "nat others" where
  "sample_others k sm = (if k = 2 then (8, \<lparr>mgen = 2, mlink = Some (sample_link 7)\<rparr>) else sm)"

theorem cm_do_attempts_witness:
  "\<exists>s' c' log m'. cm_do_among sample_bridge sample_others (traced (\<lambda>vol (s, c).
        Some (if vol = Some (sample_link 7) then Ok () else Err EOF, (s, Suc c)))) (7, (0 :: nat, []), \<lparr>mgen = 1, mlink = Some (sample_link 1)\<rparr>) =
     Some (Ok (), (s', (c', log), m')) \<and> log = [Some (sample_link 1), Some (sample_link 7)]
     \<and> no_failed_dials sample_others \<and> None \<notin> set log"
proof -
  let ?fn = "\<lambda>vol (s :: nat, c). Some (if vol = Some (sample_link 7) then Ok () else Err EOF, (s, Suc c))"
  have run: "cm_do_among sample_bridge sample_others (traced ?fn) (7, (0, []), \<lparr>mgen = 1, mlink = Some (sample_link 1)\<rparr>) =
      Some (Ok (), (8, (2, [Some (sample_link 1), Some (sample_link 7)]), \<lparr>mgen = 2, mlink = Some (sample_link 7)\<rparr>))"
    by (simp add: cm_do_among_def retry_among_def sample_others_def reconnect_def traced_def sample_bridge_def
        sample_link_def Let_def)
  have "no_failed_dials sample_others" by (simp add: no_failed_dials_def sample_others_def)
  with cm_do_attempts [OF run, THEN conjunct2] run show ?thesis by simp
qed

section \<open>Interleaved callers\<close>

text \<open>
  A caller of \<^verbatim>\<open>do\<close>: running \<open>fn\<close> on the volume of its snapshot; about to reconnect, with the generation
  of the snapshot; back from \<^verbatim>\<open>reconnect\<close>; running \<open>fn\<close> again on what it then read.
\<close>

datatype caller = Idle | First link "64 word" | Dead "64 word" | Relinked | Second "link option"

record cmsys =
  cmgr :: manager
  callers :: "nat \<Rightarrow> caller"
  failures :: nat
  history :: "64 word list"

abbreviation set_caller :: "nat \<Rightarrow> caller \<Rightarrow> cmsys \<Rightarrow> cmsys" where
  "set_caller i p s \<equiv> s\<lparr>callers := (callers s)(i := p)\<rparr>"

text \<open>\<open>history\<close> records the generations replaced by successful dials, \<open>failures\<close> counts the others.\<close>

inductive cm_step :: "cmsys \<Rightarrow> cmsys \<Rightarrow> bool" where
  start: "callers s i = Idle \<Longrightarrow> mlink (cmgr s) = Some l \<Longrightarrow>
    cm_step s (set_caller i (First l (mgen (cmgr s))) s)"
| start_nil: "callers s i = Idle \<Longrightarrow> mlink (cmgr s) = None \<Longrightarrow>
    cm_step s (set_caller i (Dead (mgen (cmgr s))) s)"
| first_done: "callers s i = First l g \<Longrightarrow> cm_step s (set_caller i Idle s)"
| first_dead: "callers s i = First l g \<Longrightarrow> cm_step s (set_caller i (Dead g) s)"
| reconnect_skip: "callers s i = Dead g \<Longrightarrow> mgen (cmgr s) \<noteq> g \<Longrightarrow> cm_step s (set_caller i Relinked s)"
| reconnect_ok: "callers s i = Dead g \<Longrightarrow> mgen (cmgr s) = g \<Longrightarrow>
    cm_step s (set_caller i Relinked (s\<lparr>cmgr := relink (Ok l) (cmgr s), history := history s @ [g]\<rparr>))"
| reconnect_fail: "callers s i = Dead g \<Longrightarrow> mgen (cmgr s) = g \<Longrightarrow>
    cm_step s (set_caller i Idle (s\<lparr>cmgr := relink (Err e) (cmgr s), failures := Suc (failures s)\<rparr>))"
| snapshot: "callers s i = Relinked \<Longrightarrow> cm_step s (set_caller i (Second (mlink (cmgr s))) s)"
| second_done: "callers s i = Second v \<Longrightarrow> cm_step s (set_caller i Idle s)"

inductive_cases cm_stepE: "cm_step s t"

definition cm_init :: "cmsys \<Rightarrow> bool" where
  "cm_init s \<longleftrightarrow> (\<exists>l. cmgr s = \<lparr>mgen = 1, mlink = Some l\<rparr>) \<and> callers s = (\<lambda>_. Idle)
     \<and> failures s = 0 \<and> history s = []"

definition cm_inv :: "cmsys \<Rightarrow> bool" where
  "cm_inv s \<longleftrightarrow>
     history s = map word_of_nat [1..<Suc (length (history s))]
     \<and> mgen (cmgr s) = word_of_nat (Suc (length (history s)))
     \<and> (failures s = 0 \<longrightarrow> mlink (cmgr s) \<noteq> None \<and> (\<forall>i. callers s i \<noteq> Second None))"

lemma cm_inv_step:
  assumes "cm_inv s" and "cm_step s t"
  shows "cm_inv t"
  using assms(2,1) by cases (auto simp: cm_inv_def relink_def fun_upd_apply)

lemma cm_inv_init: "cm_init s \<Longrightarrow> cm_inv s"
  by (auto simp: cm_init_def cm_inv_def)

interpretation cm: invariant cm_init cm_step cm_inv
  by unfold_locales (fact cm_inv_init, fact cm_inv_step)

text \<open>
  (C19) Callers that hit the same dead link reconnect once: in every interleaving the generations
  replaced by successful dials are 1, 2, 3, \<open>\<dots>\<close> without repetition, the current generation is the next one,
  and as long as no dial has failed every closure runs on a volume.
\<close>
theorem cm_one_dial_per_generation:
  assumes "cm_init s" and "cm_step\<^sup>*\<^sup>* s t"
  shows "history t = map word_of_nat [1..<Suc (length (history t))]
    \<and> mgen (cmgr t) = word_of_nat (Suc (length (history t)))
    \<and> (failures t = 0 \<longrightarrow> mlink (cmgr t) \<noteq> None \<and> (\<forall>i. callers t i \<noteq> Second None))"
  using cm.inv_reach [OF assms] unfolding cm_inv_def .

definition sample_sys :: cmsys where
  "sample_sys = \<lparr>cmgr = \<lparr>mgen = 1, mlink = Some (sample_link 1)\<rparr>, callers = (\<lambda>_. Idle), failures = 0, history = []\<rparr>"

lemma sample_sys_init: "cm_init sample_sys"
  by (simp add: cm_init_def sample_sys_def)

theorem cm_one_dial_per_generation_witness:
  "\<exists>t. cm_step\<^sup>*\<^sup>* sample_sys t \<and> history t = [1] \<and> mgen (cmgr t) = 2 \<and> mlink (cmgr t) \<noteq> None"
proof -
  let ?t1 = "set_caller 1 (First (sample_link 1) 1) sample_sys"
  let ?t2 = "set_caller 1 (Dead 1) ?t1"
  let ?t3 = "set_caller 1 Relinked (?t2\<lparr>cmgr := relink (Ok (sample_link 2)) (cmgr ?t2), history := history ?t2 @ [1]\<rparr>)"
  have "cm_step sample_sys ?t1" using start [of sample_sys 1] by (simp add: sample_sys_def)
  moreover have "cm_step ?t1 ?t2" using first_dead [of ?t1 1] by simp
  moreover have "cm_step ?t2 ?t3" using reconnect_ok [of ?t2 1 1] by (simp add: sample_sys_def)
  ultimately have run: "cm_step\<^sup>*\<^sup>* sample_sys ?t3"
    by (meson r_into_rtranclp rtranclp_trans)
  have "history ?t3 = [1]" "failures ?t3 = 0" by (simp_all add: sample_sys_def)
  with cm_one_dial_per_generation [OF sample_sys_init run] run show ?thesis by (intro exI [of _ ?t3]) simp
qed

text \<open>
  (C38) From every start of a mount three operations can interleave so that the retry of the first runs
  on a \<^verbatim>\<open>nil\<close> volume: it finds its generation already replaced, then a further operation fails to
  reconnect and clears the volume, and only then does the first read it. Every method of the volume then
  panics, and with it the process.
\<close>
theorem cm_nil_volume:
  assumes "cm_init s"
  shows "\<exists>t. cm_step\<^sup>*\<^sup>* s t \<and> callers t 1 = Second None
    \<and> on_link B (mlink (cmgr t)) StatFS x = Some (Panic, x)"
proof -
  obtain l where l: "cmgr s = \<lparr>mgen = 1, mlink = Some l\<rparr>" "callers s = (\<lambda>_. Idle)"
    using assms by (auto simp: cm_init_def)
  obtain t1 where 1: "cm_step s t1" "cmgr t1 = cmgr s" "callers t1 = (\<lambda>_. Idle)(1 := First l 1)"
    using start [of s 1 l] l by force
  obtain t2 where 2: "cm_step t1 t2" "cmgr t2 = cmgr s" "callers t2 = (\<lambda>_. Idle)(1 := First l 1, 2 := First l 1)"
    using start [of t1 2 l] l 1 by force
  obtain t3 where 3: "cm_step t2 t3" "cmgr t3 = cmgr s" "callers t3 = (\<lambda>_. Idle)(1 := Dead 1, 2 := First l 1)"
    using first_dead [of t2 1 l 1] 2 by (force simp: fun_upd_twist)
  obtain t4 where 4: "cm_step t3 t4" "cmgr t4 = cmgr s" "callers t4 = (\<lambda>_. Idle)(1 := Dead 1, 2 := Dead 1)"
    using first_dead [of t3 2 l 1] 3 by force
  obtain t5 where 5: "cm_step t4 t5" "cmgr t5 = \<lparr>mgen = 2, mlink = Some l\<rparr>"
      "callers t5 = (\<lambda>_. Idle)(1 := Dead 1, 2 := Relinked)"
    using reconnect_ok [of t4 2 1 l] l 4 by (force simp: relink_def)
  obtain t6 where 6: "cm_step t5 t6" "cmgr t6 = cmgr t5" "callers t6 = (\<lambda>_. Idle)(1 := Relinked, 2 := Relinked)"
    using reconnect_skip [of t5 1 1] 5 by (force simp: fun_upd_twist)
  obtain t7 where 7: "cm_step t6 t7" "cmgr t7 = cmgr t5" "callers t7 = (callers t6)(3 := First l 2)"
    using start [of t6 3 l] 5 6 by force
  obtain t8 where 8: "cm_step t7 t8" "cmgr t8 = cmgr t5" "callers t8 = (callers t6)(3 := Dead 2)"
    using first_dead [of t7 3 l 2] 7 by force
  obtain t9 where 9: "cm_step t8 t9" "mlink (cmgr t9) = None" "callers t9 = (callers t6)(3 := Idle)"
    using reconnect_fail [of t8 3 2 EOF] 5 8 by (force simp: relink_def)
  obtain t where t: "cm_step t9 t" "mlink (cmgr t) = None" "callers t 1 = Second None"
    using snapshot [of t9 1] 6 9 by force
  have "cm_step\<^sup>*\<^sup>* s t5" using 1 2 3 4 5 by (meson r_into_rtranclp rtranclp_trans)
  also have "cm_step\<^sup>*\<^sup>* t5 t" using 6 7 8 9 t by (meson r_into_rtranclp rtranclp_trans)
  finally show ?thesis using t by (auto simp: on_link_def)
qed

theorem cm_nil_volume_witness:
  "\<exists>t. cm_step\<^sup>*\<^sup>* sample_sys t \<and> callers t 1 = Second None
    \<and> on_link sample_bridge (mlink (cmgr t)) StatFS 0 = Some (Panic, 0)"
  by (rule cm_nil_volume [OF sample_sys_init])

end
