(* ===== verification/Nfs_File.thy ===== *)
theory Nfs_File
  imports Conn_Manager
begin

text \<open>
  \<^verbatim>\<open>internal/nfsfs/file.go\<close>: open files of the NFS bridge, which reopen their fork after a
  reconnect, and \<^verbatim>\<open>mapErr\<close> of \<^verbatim>\<open>internal/nfsfs/fs.go\<close>. A file's mutex serializes its operations, so
  each is one call of the manager.
\<close>

section \<open>Definitions\<close>

subsection \<open>Errors\<close>

text \<open>\<^verbatim>\<open>errors.As(err, &ae)\<close> for \<^verbatim>\<open>*afp.Error\<close>: the code of the first one in the chain of wrapped errors.\<close>

fun as_afp :: "goerr \<Rightarrow> result option" and as_afp_args :: "fmtarg list \<Rightarrow> result option" where
  "as_afp (AfpError op code) = Some code"
| "as_afp (Errorf f args) = as_afp_args args"
| "as_afp (PathError op path e) = as_afp e"
| "as_afp e = None"
| "as_afp_args [] = None"
| "as_afp_args (AErr e # args) = as_afp e"
| "as_afp_args (a # args) = as_afp_args args"

text \<open>\<^verbatim>\<open>errors.Is(err, target)\<close> for a sentinel.\<close>

fun err_is :: "goerr \<Rightarrow> goerr \<Rightarrow> bool" and err_is_args :: "goerr \<Rightarrow> fmtarg list \<Rightarrow> bool" where
  "err_is t (Errorf f args) \<longleftrightarrow> t = Errorf f args \<or> err_is_args t args"
| "err_is t (PathError op path e) \<longleftrightarrow> t = PathError op path e \<or> err_is t e"
| "err_is t e \<longleftrightarrow> t = e"
| "err_is_args t [] \<longleftrightarrow> False"
| "err_is_args t (AErr e # args) \<longleftrightarrow> err_is t e"
| "err_is_args t (a # args) \<longleftrightarrow> err_is_args t args"

definition mapErr :: "goerr \<Rightarrow> goerr" where
  "mapErr err =
     (case as_afp err of
        Some code \<Rightarrow>
          if code \<in> {ResObjectNotFound, ResDirNotFound, ResItemNotFound} then ErrNotExist
          else if code \<in> {ResAccessDenied, ResUserNotAuth} then ErrPermission
          else if code = ResObjectExists then ErrExist
          else err
      | None \<Rightarrow> err)"

subsection \<open>Files\<close>

text \<open>The fork and the connection its volume belongs to are set and cleared together.\<close>

record File =
  fname :: string
  fpath :: string
  fwritable :: bool
  ffork :: "(Fork \<times> nat) option"
  fcursor :: int
  flength :: int

definition File_reopen :: "'s bridge \<Rightarrow> link option \<Rightarrow> ('s \<times> File, Fork) io" where
  "File_reopen B vol = (\<lambda>(s, f).
     case on_link B vol (\<lambda>E v. (if fwritable f then OpenForkRW else OpenFork) E v RootDirID (fpath f)) s of
       None \<Rightarrow> None
     | Some (Ok fork, s') \<Rightarrow> Some (Ok fork, (s', f\<lparr>ffork := map_option (\<lambda>l. (fork, lconn l)) vol\<rparr>))
     | Some (Err e, s') \<Rightarrow> Some (Err e, (s', f))
     | Some (Panic, s') \<Rightarrow> Some (Panic, (s', f)))"

definition File_open :: "'s bridge \<Rightarrow> link option \<Rightarrow> ('s \<times> File, Fork) io" where
  "File_open B vol = (\<lambda>(s, f).
     case (ffork f, vol) of
       (Some (fork, h), Some l) \<Rightarrow>
         if h = lconn l then Some (Ok fork, (s, f)) else File_reopen B vol (s, f)
     | _ \<Rightarrow> File_reopen B vol (s, f))"

text \<open>The captured variables of the closures below: the file, and \<open>'d\<close> for what the operation returns.\<close>

definition withFork :: "'s bridge \<Rightarrow> (link option \<Rightarrow> Fork \<Rightarrow> ('s \<times> File \<times> 'd, unit) io) \<Rightarrow>
    ('s \<times> (File \<times> 'd) \<times> manager, unit) io" where
  "withFork B fn = cm_do B (\<lambda>vol (s, f, d).
     case File_open B vol (s, f) of
       None \<Rightarrow> None
     | Some (Ok fork, (s', f')) \<Rightarrow> fn vol fork (s', f', d)
     | Some (Err e, (s', f')) \<Rightarrow> Some (Err e, (s', f', d))
     | Some (Panic, (s', f')) \<Rightarrow> Some (Panic, (s', f', d)))"

text \<open>The end of an operation: the error of \<^verbatim>\<open>do\<close> is returned beside the captured values.\<close>

fun err_of :: "unit res \<Rightarrow> goerr option" where
  "err_of (Err e) = Some e"
| "err_of _ = None"

definition file_return :: "((unit res \<times> ('s \<times> (File \<times> 'd) \<times> manager)) option) \<Rightarrow>
    ('d \<Rightarrow> File \<Rightarrow> File) \<Rightarrow> ((goerr option \<times> 'd) res \<times> ('s \<times> File \<times> manager)) option" where
  "file_return out upd =
     (case out of
        None \<Rightarrow> None
      | Some (r, (s, (f, d), m)) \<Rightarrow>
          Some (if r = Panic then (Panic, (s, f, m)) else (Ok (err_of r, d), (s, upd d f, m))))"

text \<open>\<^verbatim>\<open>n, e = fork.ReadAt(ctx, p, off)\<close>, with \<open>n\<close> and the buffer as captured variables.\<close>

definition read_closure :: "'s bridge \<Rightarrow> (File \<Rightarrow> int) \<Rightarrow> link option \<Rightarrow> Fork \<Rightarrow> ('s \<times> File \<times> nat \<times> bytes, unit) io" where
  "read_closure B at vol fork = (\<lambda>(s, f, n, p).
     case on_link B vol (\<lambda>E _. ReadAt E fork p (at f)) s of
       None \<Rightarrow> None
     | Some (Ok (n', e, p'), s') \<Rightarrow> Some (of_err e, (s', f, n', p'))
     | Some (Err e, s') \<Rightarrow> Some (Err e, (s', f, 0, p))
     | Some (Panic, s') \<Rightarrow> Some (Panic, (s', f, n, p)))"

definition File_Read :: "'s bridge \<Rightarrow> bytes \<Rightarrow> ('s \<times> File \<times> manager, goerr option \<times> nat \<times> bytes) io" where
  "File_Read B p = (\<lambda>(s, f, m).
     file_return (withFork B (read_closure B fcursor) (s, (f, 0, p), m))
       (\<lambda>(n, _) f. f\<lparr>fcursor := go_int (fcursor f + int n)\<rparr>))"

definition File_ReadAt :: "'s bridge \<Rightarrow> bytes \<Rightarrow> int \<Rightarrow> ('s \<times> File \<times> manager, goerr option \<times> nat \<times> bytes) io" where
  "File_ReadAt B p off = (\<lambda>(s, f, m).
     file_return (withFork B (read_closure B (\<lambda>_. off)) (s, (f, 0, p), m)) (\<lambda>_ f. f))"

definition write_closure :: "'s bridge \<Rightarrow> bytes \<Rightarrow> link option \<Rightarrow> Fork \<Rightarrow> ('s \<times> File \<times> nat, unit) io" where
  "write_closure B p vol fork = (\<lambda>(s, f, n).
     case on_link B vol (\<lambda>E _. WriteAt E fork p (fcursor f)) s of
       None \<Rightarrow> None
     | Some (Ok (n', e), s') \<Rightarrow> Some (of_err e, (s', f, n'))
     | Some (Err e, s') \<Rightarrow> Some (Err e, (s', f, 0))
     | Some (Panic, s') \<Rightarrow> Some (Panic, (s', f, n)))"

definition File_Write :: "'s bridge \<Rightarrow> bytes \<Rightarrow> ('s \<times> File \<times> manager, goerr option \<times> nat) io" where
  "File_Write B p = (\<lambda>(s, f, m).
     file_return (withFork B (write_closure B p) (s, (f, 0), m))
       (\<lambda>n f. let f = f\<lparr>fcursor := go_int (fcursor f + int n)\<rparr>
               in if fcursor f > flength f then f\<lparr>flength := fcursor f\<rparr> else f))"

definition File_Seek :: "int \<Rightarrow> int \<Rightarrow> File \<Rightarrow> int \<times> File" where
  "File_Seek off whence f =
     (let f = (if whence = 0 then f\<lparr>fcursor := off\<rparr>
               else if whence = 1 then f\<lparr>fcursor := go_int (fcursor f + off)\<rparr>
               else if whence = 2 then f\<lparr>fcursor := go_int (flength f + off)\<rparr>
               else f)
      in (fcursor f, f))"

definition File_Truncate :: "'s bridge \<Rightarrow> int \<Rightarrow> ('s \<times> File \<times> manager, unit) io" where
  "File_Truncate B sz = (\<lambda>(s, f, m).
     case withFork B (\<lambda>vol fork (s, f, d). store_result (on_link B vol (\<lambda>E _. Fork_Truncate E fork sz)) (\<lambda>_ c. c) (s, f, d))
            (s, (f, ()), m) of
       None \<Rightarrow> None
     | Some (Ok _, (s', (f', _), m')) \<Rightarrow> Some (Ok (), (s', f'\<lparr>flength := sz\<rparr>, m'))
     | Some (Err e, (s', (f', _), m')) \<Rightarrow> Some (Err (mapErr e), (s', f', m'))
     | Some (Panic, (s', (f', _), m')) \<Rightarrow> Some (Panic, (s', f', m')))"

text \<open>A fork of a superseded connection is dropped without a request.\<close>

definition File_Close :: "'s bridge \<Rightarrow> ('s \<times> File \<times> manager, unit) io" where
  "File_Close B = (\<lambda>(s, f, m).
     case ffork f of
       None \<Rightarrow> Some (Ok (), (s, f, m))
     | Some (fork, h) \<Rightarrow>
         (let f = f\<lparr>ffork := None\<rparr> in
          case cm_do B (\<lambda>cur (s, c).
                 if map_option lconn cur \<noteq> Some h then Some (Ok (), (s, c))
                 else store_result (on_link B cur (\<lambda>E _. Fork_Close E fork)) (\<lambda>_ c. c) (s, c)) (s, (), m) of
            None \<Rightarrow> None
          | Some (r, (s', _, m')) \<Rightarrow> Some (r, (s', f, m'))))"

definition File_Lock :: "File \<Rightarrow> unit res" where "File_Lock f = Ok ()"
definition File_Unlock :: "File \<Rightarrow> unit res" where "File_Unlock f = Ok ()"
definition File_Name :: "File \<Rightarrow> string" where "File_Name f = fname f"

section \<open>Errors\<close>

text \<open>The mapping looks through every layer of wrapping and is the identity on what it has produced.\<close>

lemma mapErr_PathError: "as_afp e = None \<Longrightarrow> mapErr (PathError op path e) = PathError op path e"
  by (simp add: mapErr_def)

lemma mapErr_idem: "mapErr (mapErr e) = mapErr e"
  by (simp add: mapErr_def split: option.splits)

section \<open>Reading across a reconnect\<close>

lemma cm_do_first:
  assumes "mlink m = Some l" and "fn (Some l) (s, c) = Some (r, (s1, c1))" and "r = Ok () \<or> balive B (lconn l) s1"
  shows "cm_do B fn (s, c, m) = Some (r, (s1, c1, m))"
  using assms by (auto simp: cm_do_alone)

lemma cm_do_second:
  assumes "mlink m = Some l" and "fn (Some l) (s, c) = Some (Err e, (s1, c1))" and "\<not> balive B (lconn l) s1"
    and "cm_close_old B m s1 = Some (Ok (), s2)" and "bdial B s2 = Some (Ok l', s3)"
    and "fn (Some l') (s3, c1) = Some (r, (s4, c4))"
  shows "cm_do B fn (s, c, m) = Some (r, (s4, c4, \<lparr>mgen = mgen m + 1, mlink = Some l'\<rparr>))"
proof -
  have "reconnect B (mgen m) (s1, m) = Some (Ok (), (s3, \<lparr>mgen = mgen m + 1, mlink = Some l'\<rparr>))"
    using assms(4,5) by (cases m) (simp add: reconnect_def relink_def io_bind_def io_catch_def io_ret_def)
  then show ?thesis using assms by (simp add: cm_do_alone cm_retry_alone)
qed

text \<open>What a fresh connection does that serves the file \<open>F\<close> at the path of \<open>f\<close>, from the state \<open>s\<close>.\<close>

definition serves_file :: "'s bridge \<Rightarrow> link \<Rightarrow> File \<Rightarrow> 's \<Rightarrow> Fork \<Rightarrow> bytes \<Rightarrow> bool" where
  "serves_file B l f s fork F \<longleftrightarrow> group_runs_all (benv B (lconn l)) \<and>
     (\<exists>S s'. (if fwritable f then OpenForkRW else OpenFork) (benv B (lconn l)) (lvol l) RootDirID (fpath f)
               \<lparr>sconn = s, Version = lver l\<rparr> = Some (Ok fork, s') \<and> Version s' = lver l
        \<and> reads_file (benv B (lconn l)) fork F S \<and> S s')"

lemma openFork_ok: "openFork E v dirID path mode s = Some (Ok f, s') \<Longrightarrow> fork_ok f"
  by (auto simp: openFork_def io_bind_Some_Ok io_res_def open_fork_reply_ok)

lemma reopened_read:
  assumes "serves_file B l f s fork F" and "off + length p < 2 ^ 63"
    and "ffork f = None \<or> (\<exists>fk h. ffork f = Some (fk, h) \<and> h \<noteq> lconn l)"
  shows "\<exists>s1 s2. File_open B (Some l) (s, f) = Some (Ok fork, (s1, f\<lparr>ffork := Some (fork, lconn l)\<rparr>)) \<and>
    read_closure B (\<lambda>_. int off) (Some l) fork (s1, f\<lparr>ffork := Some (fork, lconn l)\<rparr>, n, p) =
      Some (of_err (if length F < off + length p \<and> p \<noteq> [] then Some EOF else None),
        (s2, f\<lparr>ffork := Some (fork, lconn l)\<rparr>, length (take (length p) (drop off F)),
         take (length p) (drop off F) @ drop (length (take (length p) (drop off F))) p))"
proof -
  obtain S s' where o: "(if fwritable f then OpenForkRW else OpenFork) (benv B (lconn l)) (lvol l) RootDirID (fpath f)
               \<lparr>sconn = s, Version = lver l\<rparr> = Some (Ok fork, s')" "Version s' = lver l"
    and r: "reads_file (benv B (lconn l)) fork F S" "S s'"
    using assms(1) by (auto simp: serves_file_def)
  have s': "\<lparr>sconn = sconn s', Version = lver l\<rparr> = s'" using o(2) by (cases s') simp
  have ok: "fork_ok fork"
    using o(1) openFork_ok by (auto simp: OpenFork_def OpenForkRW_def split: if_splits)
  have "group_runs_all (benv B (lconn l))" using assms(1) by (simp add: serves_file_def)
  from ReadAt_file [OF r(1) this ok r(2) assms(2)] obtain s'' where
    "ReadAt (benv B (lconn l)) fork p (int off) s' = Some (Ok (let D = take (length p) (drop off F) in
        (length D, if length D < length p then Some EOF else None, D @ drop (length D) p)), s'')" by blast
  moreover have "length (take (length p) (drop off F)) < length p \<longleftrightarrow> length F < off + length p \<and> p \<noteq> []"
    by (cases p) auto
  ultimately have "read_closure B (\<lambda>_. int off) (Some l) fork (sconn s', f', n, p) =
      Some (of_err (if length F < off + length p \<and> p \<noteq> [] then Some EOF else None),
        (sconn s'', f', length (take (length p) (drop off F)),
         take (length p) (drop off F) @ drop (length (take (length p) (drop off F))) p))" for f'
    by (simp only: read_closure_def on_link_def prod.case option.case s' Let_def) simp
  moreover have "File_open B (Some l) (s, f) = Some (Ok fork, (sconn s', f\<lparr>ffork := Some (fork, lconn l)\<rparr>))"
    using o(1) assms(3) by (auto simp: File_open_def File_reopen_def on_link_def)
  ultimately show ?thesis by blast
qed

text \<open>
  (C14) A read survives the loss of the link: when the attempt on the old connection fails and that
  connection is dead, \<^verbatim>\<open>ReadAt\<close> closes it, dials, opens the fork again on the new connection (the
  old fork number is not used there) and returns the bytes of the file from the offset, with \<^verbatim>\<open>io.EOF\<close> exactly when
  the file ends first. The file then holds the new fork, and the manager the new generation.
\<close>
theorem File_ReadAt_reconnects:
  assumes "mlink m = Some l" and "ffork f = Some (fork0, lconn l)"
    and "on_link B (Some l) (\<lambda>E _. ReadAt E fork0 p (int off)) s = Some (Ok (n0, Some e, p), s1)"
    and "\<not> balive B (lconn l) s1" and "cm_close_old B m s1 = Some (Ok (), s2)"
    and "bdial B s2 = Some (Ok l', s3)" and "lconn l' \<noteq> lconn l"
    and "serves_file B l' f s3 fork F" and "off + length p < 2 ^ 63"
  shows "\<exists>s'. File_ReadAt B p (int off) (s, f, m) =
    Some (Ok (if length F < off + length p \<and> p \<noteq> [] then Some EOF else None,
              let D = take (length p) (drop off F) in (length D, D @ drop (length D) p)),
          (s', f\<lparr>ffork := Some (fork, lconn l')\<rparr>, \<lparr>mgen = mgen m + 1, mlink = Some l'\<rparr>))"
proof -
  let ?D = "take (length p) (drop off F)" and ?f = "f\<lparr>ffork := Some (fork, lconn l')\<rparr>"
  let ?r = "of_err (if length F < off + length p \<and> p \<noteq> [] then Some EOF else None)"
  have "ffork f = None \<or> (\<exists>fk h. ffork f = Some (fk, h) \<and> h \<noteq> lconn l')" using assms(2,7) by auto
  from reopened_read [OF assms(8,9) this, of n0] obtain s4 s5 where
    o: "File_open B (Some l') (s3, f) = Some (Ok fork, (s4, ?f))" and
    r: "read_closure B (\<lambda>_. int off) (Some l') fork (s4, ?f, n0, p) = Some (?r, (s5, ?f, length ?D, ?D @ drop (length ?D) p))"
    by blast
  have "withFork B (read_closure B (\<lambda>_. int off)) (s, (f, 0, p), m) =
      Some (?r, (s5, (?f, length ?D, ?D @ drop (length ?D) p), \<lparr>mgen = mgen m + 1, mlink = Some l'\<rparr>))"
    unfolding withFork_def
    using assms(2,3) o r
    by (intro cm_do_second [OF assms(1) _ assms(4-6), where e = e and ?c1.0 = "(f, n0, p)"])
       (simp_all add: File_open_def read_closure_def)
  moreover have "?r \<noteq> Panic" "err_of ?r = (if length F < off + length p \<and> p \<noteq> [] then Some EOF else None)" by simp_all
  ultimately show ?thesis by (simp add: File_ReadAt_def file_return_def Let_def)
qed

subsection \<open>A bridge that has lost its first connection\<close>

definition dead_env :: "bytes env" where
  "dead_env = link_env\<lparr>conn_request := (\<lambda>_ _ _ s. Some (Err ErrClosed, s))\<rparr>"

definition lost_bridge :: "bytes bridge" where
  "lost_bridge = \<lparr>benv = (\<lambda>h. if h = 0 then dead_env else link_env), bdial = (\<lambda>s. Some (Ok (sample_link 1), s)),
     balive = (\<lambda>h _. h \<noteq> 0), bclose = (\<lambda>_ s. Some (Ok (), s))\<rparr>"

definition sample_file :: File where
  "sample_file = \<lparr>fname = ''f'', fpath = ''f'', fwritable = False, ffork = Some (sample_fork, 0), fcursor = 0, flength = 3\<rparr>"

lemma lost_bridge_serves:
  "serves_file lost_bridge (sample_link 1) sample_file F
     \<lparr>fID = 5, fSize = word_of_nat (length F), chunkSize = readChunkSize, maxParallel = maxConcurrentReads\<rparr> F"
proof -
  have "group_runs_all link_env" by (simp add: group_runs_all_def link_env_def link_serve_def)
  moreover have "OpenFork link_env (lvol (sample_link 1)) RootDirID ''f'' \<lparr>sconn = F, Version = ''AFP3.3''\<rparr> =
      Some (Ok \<lparr>fID = 5, fSize = word_of_nat (length F), chunkSize = readChunkSize, maxParallel = maxConcurrentReads\<rparr>,
        \<lparr>sconn = F, Version = ''AFP3.3''\<rparr>)"
    by (simp add: OpenFork_def openFork_def link_env_def link_serve_def request_cmd cmd_defs put_fork_def open_fork_reply_def
        new_reader_rd io_bind_def io_res_def result_of_code_def)
  ultimately show ?thesis
    using link_env_reads [of _ F] unfolding serves_file_def
    by (intro conjI exI [of _ "\<lambda>s. sconn s = F"] exI [of _ "\<lparr>sconn = F, Version = ''AFP3.3''\<rparr>"])
       (simp_all add: lost_bridge_def sample_link_def sample_file_def)
qed

lemma dead_env_reads:
  assumes "fork_ok f" and "p \<noteq> []"
  shows "\<exists>s'. ReadAt dead_env f p off s = Some (Ok (0, Some ErrClosed, p), s') \<and> sconn s' = sconn s"
proof -
  have "group_runs_all dead_env" by (simp add: group_runs_all_def dead_env_def link_env_def link_serve_def serve_env_def)
  then show ?thesis
    using assms by (intro ReadAt_error [where S = "\<lambda>s'. sconn s' = sconn s"])
      (simp_all add: command_def on_sconn_def dead_env_def io_bind_def)
qed

theorem File_ReadAt_reconnects_witness:
  "\<exists>s' f' m'. File_ReadAt lost_bridge [9, 9, 9] 1 ([1, 2, 3], sample_file, \<lparr>mgen = 1, mlink = Some (sample_link 0)\<rparr>) =
     Some (Ok (Some EOF, 2, [2, 3, 9]), (s', f', m')) \<and> mgen m' = 2"
proof -
  let ?m = "\<lparr>mgen = 1, mlink = Some (sample_link 0)\<rparr>"
  have "on_link lost_bridge (Some (sample_link 0)) (\<lambda>E _. ReadAt E sample_fork [9, 9, 9] (int 1)) [1, 2, 3] =
      Some (Ok (0, Some ErrClosed, [9, 9, 9]), [1, 2, 3])"
    using dead_env_reads [OF sample_fork_ok, of "[9, 9, 9]" 1 "\<lparr>sconn = [1, 2, 3], Version = ''AFP3.3''\<rparr>"]
    by (auto simp: on_link_def lost_bridge_def sample_link_def)
  then have "\<exists>s'. File_ReadAt lost_bridge [9, 9, 9] (int 1) ([1, 2, 3], sample_file, ?m) =
      Some (Ok (if length [1, 2, 3 :: byte] < 1 + length [9, 9, 9 :: byte] \<and> [9, 9, 9 :: byte] \<noteq> [] then Some EOF else None,
              let D = take (length [9, 9, 9 :: byte]) (drop 1 [1, 2, 3]) in (length D, D @ drop (length D) [9, 9, 9])),
          (s', sample_file\<lparr>ffork := Some (\<lparr>fID = 5, fSize = word_of_nat (length [1, 2, 3 :: byte]),
              chunkSize = readChunkSize, maxParallel = maxConcurrentReads\<rparr>, lconn (sample_link 1))\<rparr>,
           \<lparr>mgen = mgen ?m + 1, mlink = Some (sample_link 1)\<rparr>))"
    by (intro File_ReadAt_reconnects [OF _ _ _ _ _ _ _ lost_bridge_serves])
       (auto simp: sample_file_def sample_link_def lost_bridge_def cm_close_old_def io_catch_def)
  then show ?thesis by (auto simp: Let_def numeral_eq_Suc)
qed

end
