(* ===== verification/Go_Path.thy ===== *)
theory Go_Path
  imports Prelude
begin

text \<open>
  What the file system and the command line use of the standard packages \<^verbatim>\<open>path\<close> and \<^verbatim>\<open>strings\<close>:
  splitting and joining at slashes, \<^verbatim>\<open>path.Clean\<close>, \<^verbatim>\<open>path.Join\<close> and \<^verbatim>\<open>path.Base\<close>.
\<close>

section \<open>Definitions\<close>

text \<open>\<^verbatim>\<open>strings.Split(p, "/")\<close> and \<^verbatim>\<open>strings.Join(parts, "/")\<close>.\<close>

fun split_slash :: "string \<Rightarrow> string list" where
  "split_slash [] = [[]]"
| "split_slash (c # p) =
     (if c = CHR ''/'' then [] # split_slash p
      else case split_slash p of [] \<Rightarrow> [[c]] | q # qs \<Rightarrow> (c # q) # qs)"

fun join_slash :: "string list \<Rightarrow> string" where
  "join_slash [] = []"
| "join_slash [p] = p"
| "join_slash (p # q # ps) = p @ ''/'' @ join_slash (q # ps)"

text \<open>One component of \<^verbatim>\<open>path.Clean\<close>, on the stack of components kept so far, the last one first.\<close>

definition clean_step :: "bool \<Rightarrow> string \<Rightarrow> string list \<Rightarrow> string list" where
  "clean_step rooted part st =
     (if part = [] \<or> part = ''.'' then st
      else if part = ''..'' then
        (case st of
           [] \<Rightarrow> if rooted then [] else [''..'']
         | upper # below \<Rightarrow> if upper = ''..'' then ''..'' # st else below)
      else part # st)"

definition path_Clean :: "string \<Rightarrow> string" where
  "path_Clean p =
     (if p = [] then ''.''
      else
        let rooted = (hd p = CHR ''/'');
            body = join_slash (rev (fold (clean_step rooted) (split_slash p) []));
            out = (if rooted then ''/'' @ body else body)
        in if out = [] then ''.'' else out)"

definition path_Join :: "string list \<Rightarrow> string" where
  "path_Join elems =
     (let ne = filter (\<lambda>e. e \<noteq> []) elems in if ne = [] then [] else path_Clean (join_slash ne))"

definition path_Base :: "string \<Rightarrow> string" where
  "path_Base p =
     (if p = [] then ''.''
      else
        let p = rev (dropWhile (\<lambda>c. c = CHR ''/'') (rev p));
            p = last (split_slash p)
        in if p = [] then ''/'' else p)"

text \<open>\<^verbatim>\<open>strings.TrimPrefix(p, "/")\<close>.\<close>

definition trim_prefix_slash :: "string \<Rightarrow> string" where
  "trim_prefix_slash p = (case p of [] \<Rightarrow> [] | c # q \<Rightarrow> if c = CHR ''/'' then q else p)"

section \<open>Splitting and joining\<close>

lemma split_slash_ne [simp]: "split_slash p \<noteq> []"
  by (induction p) (auto split: list.splits)

lemma split_no_slash: "q \<in> set (split_slash p) \<Longrightarrow> CHR ''/'' \<notin> set q"
  by (induction p arbitrary: q) (auto split: list.splits if_splits)

lemma join_split [simp]: "join_slash (split_slash p) = p"
proof (induction p)
  case (Cons c p)
  then show ?case by (cases "split_slash p" rule: join_slash.cases) auto
qed simp

lemma split_word: "CHR ''/'' \<notin> set p \<Longrightarrow> split_slash p = [p]"
  by (induction p) auto

lemma split_append_slash: "split_slash (p @ CHR ''/'' # q) = split_slash p @ split_slash q"
  by (induction p) (auto split: list.splits)

lemma split_join:
  "ps \<noteq> [] \<Longrightarrow> (\<forall>p \<in> set ps. CHR ''/'' \<notin> set p) \<Longrightarrow> split_slash (join_slash ps) = ps"
  by (induction ps rule: join_slash.induct) (auto simp: split_word split_append_slash)

section \<open>Rooted paths\<close>

text \<open>The components of a path, without the empty ones: the walk from the root they name.\<close>

definition comps :: "string \<Rightarrow> string list" where
  "comps p = filter (\<lambda>c. c \<noteq> []) (split_slash p)"

definition plain :: "string \<Rightarrow> bool" where
  "plain c \<longleftrightarrow> c \<noteq> [] \<and> c \<noteq> ''.'' \<and> c \<noteq> ''..'' \<and> CHR ''/'' \<notin> set c"

text \<open>
  The reference: walking component by component, where \<^verbatim>\<open>..\<close> goes up and stays at the root.
\<close>

fun walk :: "string list \<Rightarrow> string list \<Rightarrow> string list" where
  "walk dir [] = dir"
| "walk dir (c # cs) =
     walk (if c = ''..'' then butlast dir else if c = [] \<or> c = ''.'' then dir else dir @ [c]) cs"

lemma walk_append: "walk dir (a @ b) = walk (walk dir a) b"
  by (induction a arbitrary: dir) simp_all

lemma walk_plain: "\<forall>c \<in> set cs. plain c \<Longrightarrow> walk dir cs = dir @ cs"
  by (induction cs arbitrary: dir) (simp_all add: plain_def)

lemma plain_walk:
  "\<forall>c \<in> set dir. plain c \<Longrightarrow> \<forall>c \<in> set cs. CHR ''/'' \<notin> set c \<Longrightarrow> \<forall>c \<in> set (walk dir cs). plain c"
proof (induction cs arbitrary: dir)
  case (Cons c cs)
  let ?d = "if c = ''..'' then butlast dir else if c = [] \<or> c = ''.'' then dir else dir @ [c]"
  have "\<forall>c \<in> set ?d. plain c" using Cons.prems by (auto simp: plain_def dest: in_set_butlastD)
  then show ?case using Cons by simp
qed simp

lemma set_walk: "set (walk dir cs) \<subseteq> set dir \<union> set cs"
proof (induction cs arbitrary: dir)
  case (Cons c cs)
  let ?d = "if c = ''..'' then butlast dir else if c = [] \<or> c = ''.'' then dir else dir @ [c]"
  have "set ?d \<subseteq> set dir \<union> {c}" by (auto dest: in_set_butlastD)
  with Cons [of ?d] show ?case unfolding walk.simps by auto
qed simp

lemma clean_walk:
  assumes "\<forall>c \<in> set st. plain c" and "\<forall>c \<in> set cs. CHR ''/'' \<notin> set c"
  shows "rev (fold (clean_step True) cs st) = walk (rev st) cs"
  using assms
proof (induction cs arbitrary: st)
  case (Cons c cs)
  have "rev (clean_step True c st) =
      (if c = ''..'' then butlast (rev st) else if c = [] \<or> c = ''.'' then rev st else rev st @ [c])"
    using Cons.prems(1) by (auto simp: clean_step_def plain_def split: list.splits)
  moreover have "\<forall>c' \<in> set (clean_step True c st). plain c'"
    using Cons.prems by (auto simp: clean_step_def plain_def split: list.splits)
  ultimately show ?case using Cons by simp
qed simp

lemma walk_Nil_head: "walk dir ([] # cs) = walk dir cs"
  by simp

lemma path_Clean_rooted: "path_Clean (CHR ''/'' # p) = CHR ''/'' # join_slash (walk [] (split_slash p))"
  using clean_walk [of "[]" "split_slash p"] split_no_slash
  by (simp add: path_Clean_def clean_step_def [of True "[]"])

end
