(* ===== verification/Nfs_Fs.thy ===== *)
theory Nfs_Fs
  imports Nfs_File Go_Path
begin

text \<open>
  \<^verbatim>\<open>internal/nfsfs/fs.go\<close> and \<^verbatim>\<open>internal/nfsfs/serve.go\<close>: the AFP volume as a
  \<^verbatim>\<open>billy\<close> file system, and the server that exports it. The open flags have the values of \<^verbatim>\<open>os\<close> on Linux.
\<close>

section \<open>Definitions\<close>

text \<open>The manager \<^verbatim>\<open>cm\<close> is the state the methods run on.\<close>

record FS =
  fsbase :: string

definition FS_New :: "'s bridge \<Rightarrow> ('s, FS \<times> manager) io" where
  "FS_New B = io_bind (newConnManager B) (\<lambda>m. io_ret (\<lparr>fsbase = []\<rparr>, m))"

definition FS_Close :: "'s bridge \<Rightarrow> ('s \<times> manager, unit) io" where
  "FS_Close B = cm_close B"

definition resolve :: "FS \<Rightarrow> string \<Rightarrow> string" where
  "resolve f name = (let p = path_Join [''/'', fsbase f, name] in trim_prefix_slash p)"

definition supportsUnixPrivs :: "'s bridge \<Rightarrow> ('s \<times> manager, bool) io" where
  "supportsUnixPrivs B = (\<lambda>(s, m).
     case cm_do B (\<lambda>vol (s, su). case vol of
              None \<Rightarrow> Some (Panic, (s, su))
            | Some l \<Rightarrow> Some (Ok (), (s, SupportsUnixPrivs (lvol l)))) (s, False, m) of
       None \<Rightarrow> None
     | Some (r, (s', su, m')) \<Rightarrow> Some (if r = Panic then Panic else Ok su, (s', m')))"

subsection \<open>Opening\<close>

definition O_RDONLY :: "64 word" where "O_RDONLY = 0"
definition O_WRONLY :: "64 word" where "O_WRONLY = 1"
definition O_RDWR :: "64 word" where "O_RDWR = 2"
definition O_CREATE :: "64 word" where "O_CREATE = 0x40"
definition O_EXCL :: "64 word" where "O_EXCL = 0x80"
definition O_TRUNC :: "64 word" where "O_TRUNC = 0x200"
definition O_APPEND :: "64 word" where "O_APPEND = 0x400"

lemmas oflag_defs =
  O_RDONLY_def O_WRONLY_def O_RDWR_def O_CREATE_def O_EXCL_def O_TRUNC_def O_APPEND_def

text \<open>The error of the create step, when it ends the call.\<close>

definition create_error :: "string \<Rightarrow> 64 word \<Rightarrow> goerr \<Rightarrow> goerr option" where
  "create_error filename flag err =
     (let e = mapErr err in
      if err_is ErrExist e then
        if flag AND O_EXCL \<noteq> 0 then Some (PathError ''open'' filename ErrExist) else None
      else Some (PathError ''open'' filename e))"

definition open_create :: "'s bridge \<Rightarrow> string \<Rightarrow> string \<Rightarrow> 64 word \<Rightarrow> link option \<Rightarrow> ('s \<times> File, unit) io" where
  "open_create B filename p flag vol = (\<lambda>(s, fp).
     if flag AND O_CREATE \<noteq> 0 then
       case on_link B vol (\<lambda>E v. CreateFile E v RootDirID p False) s of
         None \<Rightarrow> None
       | Some (Ok _, s') \<Rightarrow> Some (Ok (), (s', fp))
       | Some (Err err, s') \<Rightarrow> Some (of_err (create_error filename flag err), (s', fp))
       | Some (Panic, s') \<Rightarrow> Some (Panic, (s', fp))
     else Some (Ok (), (s, fp)))"

definition open_truncate :: "'s bridge \<Rightarrow> string \<Rightarrow> 64 word \<Rightarrow> bool \<Rightarrow> link option \<Rightarrow> Fork \<Rightarrow> ('s \<times> File, unit) io" where
  "open_truncate B filename flag writable vol fork = (\<lambda>(s, fp).
     let fp = fp\<lparr>flength := sint (fSize fork)\<rparr> in
     if flag AND O_TRUNC \<noteq> 0 \<and> writable then
       case on_link B vol (\<lambda>E _. Fork_Truncate E fork 0) s of
         None \<Rightarrow> None
       | Some (Ok _, s') \<Rightarrow> Some (Ok (), (s', fp\<lparr>flength := 0\<rparr>))
       | Some (Err err, s') \<Rightarrow> Some (Err (PathError ''truncate'' filename (mapErr err)), (s', fp))
       | Some (Panic, s') \<Rightarrow> Some (Panic, (s', fp))
     else Some (Ok (), (s, fp)))"

definition path_error :: "string \<Rightarrow> string \<Rightarrow> goerr \<Rightarrow> ('s, 'a) io" where
  "path_error op filename e = io_res (Err (PathError op filename (mapErr e)))"

definition open_closure :: "'s bridge \<Rightarrow> string \<Rightarrow> string \<Rightarrow> 64 word \<Rightarrow> bool \<Rightarrow> link option \<Rightarrow> ('s \<times> File, unit) io" where
  "open_closure B filename p flag writable vol =
     io_bind (open_create B filename p flag vol) (\<lambda>_.
     io_bind (io_catch (File_open B vol) (path_error ''open'' filename))
       (open_truncate B filename flag writable vol))"

definition OpenFile :: "'s bridge \<Rightarrow> FS \<Rightarrow> string \<Rightarrow> 64 word \<Rightarrow> ('s \<times> manager, File) io" where
  "OpenFile B f filename flag =
     (let p = resolve f filename;
          writable = (flag AND (O_WRONLY OR O_RDWR) \<noteq> 0);
          fp = \<lparr>fname = filename, fpath = p, fwritable = writable, ffork = None, fcursor = 0, flength = 0\<rparr>
      in io_bind (cm_get B fp (open_closure B filename p flag writable)) (\<lambda>fp.
           io_ret (if flag AND O_APPEND \<noteq> 0 then fp\<lparr>fcursor := flength fp\<rparr> else fp)))"

definition FS_Create :: "'s bridge \<Rightarrow> FS \<Rightarrow> string \<Rightarrow> ('s \<times> manager, File) io" where
  "FS_Create B f filename = OpenFile B f filename (O_RDWR OR O_CREATE OR O_TRUNC)"

definition FS_Open :: "'s bridge \<Rightarrow> FS \<Rightarrow> string \<Rightarrow> ('s \<times> manager, File) io" where
  "FS_Open B f filename = OpenFile B f filename O_RDONLY"

subsection \<open>File information\<close>

text \<open>\<^verbatim>\<open>os.FileMode\<close> with its directory and symbolic-link bits.\<close>

definition ModeDir :: "32 word" where "ModeDir = 0x80000000"
definition ModeSymlink :: "32 word" where "ModeSymlink = 0x08000000"

record fileInfo =
  fiName :: string
  fiSize :: int
  fiMode :: "32 word"
  fiMod :: "int option"
  fiIsDir :: bool

definition entryInfo :: "string \<Rightarrow> DirEntry \<Rightarrow> fileInfo" where
  "entryInfo name e =
     (let mode = Permissions (deUnixPrivs e) AND 0x1FF;
          mode = (if mode = 0 then if deIsDir e then 0x1ED else 0x1A4 else mode);
          mode = (if deIsSymlink e then mode OR ModeSymlink
                  else if deIsDir e then mode OR ModeDir else mode)
      in \<lparr>fiName = name, fiSize = sint (deSize e), fiMode = mode, fiMod = deModTime e, fiIsDir = deIsDir e\<rparr>)"

text \<open>The common end of the operations: \<^verbatim>\<open>&os.PathError{Op: op, Path: name, Err: mapErr(err)}\<close>.\<close>

definition with_path :: "string \<Rightarrow> string \<Rightarrow> ('s, 'a) io \<Rightarrow> ('s, 'a) io" where
  "with_path op name m = io_catch m (path_error op name)"

definition FS_Stat :: "'s bridge \<Rightarrow> FS \<Rightarrow> string \<Rightarrow> ('s \<times> manager, fileInfo) io" where
  "FS_Stat B f filename =
     (let p = resolve f filename in
      if p = []
      then io_ret \<lparr>fiName = ''/'', fiSize = 0, fiMode = ModeDir OR 0x1ED, fiMod = None, fiIsDir = True\<rparr>
      else io_bind (with_path ''stat'' filename (cm_fetch B zero_entry (\<lambda>E v. Stat E v RootDirID p)))
             (\<lambda>e. io_ret (entryInfo (path_Base p) e)))"

definition FS_Lstat :: "'s bridge \<Rightarrow> FS \<Rightarrow> string \<Rightarrow> ('s \<times> manager, fileInfo) io" where
  "FS_Lstat B f filename = FS_Stat B f filename"

definition FS_Rename :: "'s bridge \<Rightarrow> FS \<Rightarrow> string \<Rightarrow> string \<Rightarrow> ('s \<times> manager, unit) io" where
  "FS_Rename B f oldpath newpath =
     with_path ''rename'' oldpath
       (cm_fetch B () (\<lambda>E v. Rename E v RootDirID (resolve f oldpath) (resolve f newpath)))"

definition FS_Remove :: "'s bridge \<Rightarrow> FS \<Rightarrow> string \<Rightarrow> ('s \<times> manager, unit) io" where
  "FS_Remove B f filename =
     with_path ''remove'' filename (cm_fetch B () (\<lambda>E v. Delete E v RootDirID (resolve f filename)))"

definition FS_Join :: "string list \<Rightarrow> string" where
  "FS_Join elems = path_Join elems"

definition FS_ReadDir :: "'s bridge \<Rightarrow> FS \<Rightarrow> string \<Rightarrow> ('s \<times> manager, fileInfo list) io" where
  "FS_ReadDir B f dirname =
     io_bind (with_path ''readdir'' dirname (cm_fetch B [] (\<lambda>E v. ReadDir E v RootDirID (resolve f dirname))))
       (\<lambda>entries. io_ret (map (\<lambda>e. entryInfo (deName e) e) entries))"

text \<open>The loop over \<^verbatim>\<open>strings.Join(parts[:i+1], "/")\<close>: a component that exists is passed over.\<close>

primrec mkdir_loop :: "'s bridge \<Rightarrow> string list \<Rightarrow> ('s \<times> manager, unit) io" where
  "mkdir_loop B [] = io_ret ()"
| "mkdir_loop B (sub # subs) =
     io_bind (io_catch (cm_fetch B () (\<lambda>E v. Mkdir E v RootDirID sub)) (\<lambda>err.
                if err_is ErrExist (mapErr err) then io_ret () else path_error ''mkdir'' sub err))
       (\<lambda>_. mkdir_loop B subs)"

definition mkdir_parts :: "string \<Rightarrow> string list" where
  "mkdir_parts p = (let parts = split_slash p in map (\<lambda>i. join_slash (take (i + 1) parts)) [0..<length parts])"

definition MkdirAll :: "'s bridge \<Rightarrow> FS \<Rightarrow> string \<Rightarrow> ('s \<times> manager, unit) io" where
  "MkdirAll B f filename =
     (let p = resolve f filename in
      if p = [] then io_ret () else mkdir_loop B (mkdir_parts p))"

text \<open>\<^verbatim>\<open>hex.EncodeToString\<close>.\<close>

definition hex_digit :: "nat \<Rightarrow> char" where
  "hex_digit n = ''0123456789abcdef'' ! n"

definition hex_encode :: "bytes \<Rightarrow> string" where
  "hex_encode b = concat (map (\<lambda>x. [hex_digit (unat x div 16), hex_digit (unat x mod 16)]) b)"

definition TempFile :: "'s bridge \<Rightarrow> crypto \<Rightarrow> FS \<Rightarrow> string \<Rightarrow> string \<Rightarrow> ('s \<times> manager, File) io" where
  "TempFile B C f dir pre =
     io_bind (io_res (rand_Read C 0 8)) (\<lambda>b.
       OpenFile B f (FS_Join [dir, pre @ hex_encode b]) (O_RDWR OR O_CREATE OR O_EXCL))"

definition FS_Symlink :: "'s bridge \<Rightarrow> FS \<Rightarrow> string \<Rightarrow> string \<Rightarrow> ('s \<times> manager, unit) io" where
  "FS_Symlink B f target link =
     with_path ''symlink'' link (cm_fetch B () (\<lambda>E v. Symlink E v RootDirID (resolve f link) target))"

definition FS_Readlink :: "'s bridge \<Rightarrow> FS \<Rightarrow> string \<Rightarrow> ('s \<times> manager, string) io" where
  "FS_Readlink B f link =
     with_path ''readlink'' link (cm_fetch B [] (\<lambda>E v. ReadLink E v RootDirID (resolve f link)))"

definition Chroot :: "FS \<Rightarrow> string \<Rightarrow> FS" where
  "Chroot f p = \<lparr>fsbase = resolve f p\<rparr>"

definition Root :: "FS \<Rightarrow> string" where
  "Root f = (if fsbase f = [] then ''/'' else ''/'' @ fsbase f)"

subsection \<open>Attributes\<close>

definition sIFMT :: "32 word" where "sIFMT = 0xF000"

definition io_mapErr :: "('s, 'a) io \<Rightarrow> ('s, 'a) io" where
  "io_mapErr m = io_catch m (\<lambda>e. io_res (Err (mapErr e)))"

definition Chmod :: "'s bridge \<Rightarrow> FS \<Rightarrow> string \<Rightarrow> 32 word \<Rightarrow> ('s \<times> manager, unit) io" where
  "Chmod B f name mode =
     io_bind (supportsUnixPrivs B) (\<lambda>su.
       if \<not> su then io_ret ()
       else
         let p = resolve f name in
         cm_fetch B () (\<lambda>E v.
           io_bind (io_mapErr (Stat E v RootDirID p)) (\<lambda>e.
             let perm = (mode AND 0xFFF) OR (Permissions (deUnixPrivs e) AND sIFMT) in
             io_mapErr (SetUnixPrivs E v RootDirID p (UID (deUnixPrivs e)) (GID (deUnixPrivs e)) perm))))"

definition chown :: "'s bridge \<Rightarrow> FS \<Rightarrow> string \<Rightarrow> int \<Rightarrow> int \<Rightarrow> ('s \<times> manager, unit) io" where
  "chown B f name uid gid =
     io_bind (supportsUnixPrivs B) (\<lambda>su.
       if \<not> su then io_ret ()
       else
         let p = resolve f name in
         cm_fetch B () (\<lambda>E v.
           io_bind (io_mapErr (Stat E v RootDirID p)) (\<lambda>e.
             let newUID = (if uid \<ge> 0 then word_of_int uid else UID (deUnixPrivs e));
                 newGID = (if gid \<ge> 0 then word_of_int gid else GID (deUnixPrivs e)) in
             io_mapErr (SetUnixPrivs E v RootDirID p newUID newGID (Permissions (deUnixPrivs e))))))"

definition Lchown :: "'s bridge \<Rightarrow> FS \<Rightarrow> string \<Rightarrow> int \<Rightarrow> int \<Rightarrow> ('s \<times> manager, unit) io" where
  "Lchown B f name uid gid = chown B f name uid gid"

definition Chown :: "'s bridge \<Rightarrow> FS \<Rightarrow> string \<Rightarrow> int \<Rightarrow> int \<Rightarrow> ('s \<times> manager, unit) io" where
  "Chown B f name uid gid = chown B f name uid gid"

definition Chtimes :: "'s bridge \<Rightarrow> FS \<Rightarrow> string \<Rightarrow> int \<Rightarrow> int \<Rightarrow> ('s \<times> manager, unit) io" where
  "Chtimes B f name atime mtime =
     (let p = resolve f name in cm_fetch B () (\<lambda>E v. io_mapErr (SetModTime E v RootDirID p mtime)))"

subsection \<open>Capacity\<close>

record FSStat_reply =
  TotalSize :: "64 word"
  FreeSize :: "64 word"
  AvailableSize :: "64 word"

text \<open>An error leaves the reply as it was and is not reported.\<close>

definition FSStat :: "'s bridge \<Rightarrow> FSStat_reply \<Rightarrow> ('s \<times> manager, FSStat_reply) io" where
  "FSStat B reply =
     io_catch (io_bind (statFS B) (\<lambda>info.
         io_ret (reply\<lparr>TotalSize := TotalBytes info, FreeSize := FreeBytes info, AvailableSize := FreeBytes info\<rparr>)))
       (\<lambda>_. io_ret reply)"

subsection \<open>The server\<close>

text \<open>
  A handler of \<^verbatim>\<open>go-nfs\<close>: its method \<^verbatim>\<open>FSStat\<close>, which fills in a reply, and the other methods \<open>'h\<close>. What the bridge
  uses of that library: a handler for a file system, a handler with a cache of file handles around another, and the
  server loop on a listener \<open>'l\<close>.
\<close>

record ('s, 'h) handler =
  hmethods :: 'h
  hFSStat :: "FSStat_reply \<Rightarrow> ('s \<times> manager, FSStat_reply) io"

record ('s, 'h, 'l) gonfs =
  NewNullAuthHandler :: "'s bridge \<Rightarrow> FS \<Rightarrow> ('s, 'h) handler"
  NewCachingHandler :: "('s, 'h) handler \<Rightarrow> nat \<Rightarrow> ('s, 'h) handler"
  nfs_Serve :: "'l \<Rightarrow> ('s, 'h) handler \<Rightarrow> ('s \<times> manager, unit) io"

text \<open>\<^verbatim>\<open>statfsHandler\<close> embeds a handler and has a method \<^verbatim>\<open>FSStat\<close> of its own.\<close>

definition statfsHandler :: "'s bridge \<Rightarrow> ('s, 'h) handler \<Rightarrow> ('s, 'h) handler" where
  "statfsHandler B base = base\<lparr>hFSStat := FSStat B\<rparr>"

definition Serve :: "('s, 'h, 'l) gonfs \<Rightarrow> 's bridge \<Rightarrow> 'l \<Rightarrow> FS \<Rightarrow> nat \<Rightarrow> ('s \<times> manager, unit) io" where
  "Serve G B l fs cacheEntries =
     (let base = NewNullAuthHandler G B fs;
          handler = statfsHandler B base;
          cached = NewCachingHandler G handler cacheEntries
      in nfs_Serve G l cached)"

section \<open>Paths stay inside the volume\<close>

lemma resolve_eq:
  "resolve f name = join_slash (walk (walk [] (split_slash (fsbase f))) (split_slash name))"
proof -
  have "path_Join [''/'', fsbase f, name] =
      CHR ''/'' # join_slash (walk (walk [] (split_slash (fsbase f))) (split_slash name))"
    by (auto simp: path_Join_def path_Clean_rooted split_append_slash walk_append)
  then show ?thesis by (simp add: resolve_def trim_prefix_slash_def)
qed

lemma comps_join: "\<forall>c \<in> set ds. plain c \<Longrightarrow> comps (join_slash ds) = ds"
  by (cases "ds = []") (auto simp: comps_def split_join plain_def filter_id_conv)

lemma walk_split_plain: "\<forall>c \<in> set (walk [] (split_slash p)). plain c"
  using plain_walk [of "[]" "split_slash p"] split_no_slash by auto

lemma resolve_comps:
  "comps (resolve f name) = walk (walk [] (split_slash (fsbase f))) (split_slash name)"
  unfolding resolve_eq using plain_walk [OF walk_split_plain, of "split_slash name"] split_no_slash
  by (intro comps_join) auto

lemma walk_comps: "walk dir (comps p) = walk dir (split_slash p)"
proof -
  have "walk dir (filter (\<lambda>c. c \<noteq> []) cs) = walk dir cs" for cs
    by (induction cs arbitrary: dir) auto
  then show ?thesis by (simp add: comps_def)
qed

text \<open>
  (C11) \<^verbatim>\<open>resolve\<close> implements walking the tree from the root of the volume: its components are those
  reached by the components of the base and then of the name, where \<^verbatim>\<open>..\<close> goes up and stops at the root. So no
  name leads outside the volume: every component is a proper name that occurs in the base or the name, and
  the result has no slash too many. A \<^verbatim>\<open>Chroot\<close> starts the walk at the directory it names, but does not stop
  it from going up again.
\<close>
theorem resolve_walk:
  "comps (resolve f name) = walk (walk [] (split_slash (fsbase f))) (split_slash name)
   \<and> resolve f name = join_slash (comps (resolve f name))
   \<and> (\<forall>c \<in> set (comps (resolve f name)). plain c \<and> c \<in> set (split_slash (fsbase f)) \<union> set (split_slash name))
   \<and> comps (resolve (Chroot f dir) name) = walk (comps (resolve f dir)) (split_slash name)"
proof -
  have plain: "\<forall>c \<in> set (comps (resolve f x)). plain c" for x
    unfolding resolve_comps using plain_walk [OF walk_split_plain] split_no_slash by blast
  have sub: "set (comps (resolve f name)) \<subseteq> set (split_slash (fsbase f)) \<union> set (split_slash name)"
    unfolding resolve_comps using set_walk [of "walk [] (split_slash (fsbase f))" "split_slash name"]
      set_walk [of "[]" "split_slash (fsbase f)"] by auto
  have "walk [] (split_slash (resolve f dir)) = comps (resolve f dir)"
    using walk_plain [OF plain, of "[]" dir] by (simp add: walk_comps)
  then have chroot: "comps (resolve (Chroot f dir) name) = walk (comps (resolve f dir)) (split_slash name)"
    unfolding resolve_comps [of "Chroot f dir"] by (simp add: Chroot_def)
  have "resolve f name = join_slash (comps (resolve f name))"
    unfolding resolve_comps by (rule resolve_eq)
  with chroot sub plain show ?thesis by (intro conjI ballI resolve_comps) auto
qed

text \<open>A name with \<^verbatim>\<open>..\<close> leaves the directory of a \<^verbatim>\<open>Chroot\<close>.\<close>

theorem resolve_walk_witness:
  "plain ''b'' \<and> comps (resolve (Chroot \<lparr>fsbase = []\<rparr> ''a'') ''../b'') = [''b'']
   \<and> comps (resolve \<lparr>fsbase = []\<rparr> ''x/../../b'') = [''b'']"
  using resolve_walk [of "\<lparr>fsbase = []\<rparr>" "''x/../../b''" "''a''"] resolve_walk [of "\<lparr>fsbase = []\<rparr>" "''../b''" "''a''"]
    resolve_walk [of "\<lparr>fsbase = []\<rparr>" "''a''" "''a''"]
  by (simp add: plain_def)

section \<open>Making all directories of a path\<close>

text \<open>
  A live connection that keeps the set \<open>dirs\<close> of its directories: making one of the paths \<open>P\<close> that
  exists is refused, and making one whose parent exists adds it. \<open>S\<close> are the states between the requests.
\<close>

definition parent_of :: "string \<Rightarrow> string" where
  "parent_of p = join_slash (butlast (split_slash p))"

definition makes_dirs :: "'s bridge \<Rightarrow> link \<Rightarrow> string set \<Rightarrow> ('s \<Rightarrow> string set) \<Rightarrow> ('s \<Rightarrow> bool) \<Rightarrow> bool" where
  "makes_dirs B l P dirs S \<longleftrightarrow>
     (\<forall>s. S s \<longrightarrow> balive B (lconn l) s) \<and>
     (\<forall>p \<in> P. \<forall>s. S s \<longrightarrow> (parent_of p = [] \<or> parent_of p \<in> dirs s) \<longrightarrow>
        (\<exists>s'. S s' \<and> dirs s' = insert p (dirs s) \<and>
           on_link B (Some l) (\<lambda>E v. Mkdir E v RootDirID p) s =
             Some (if p \<in> dirs s then Err (AfpError (''mkdir '' @ p) ResObjectExists) else Ok (), s')))"

lemma cm_fetch_live:
  assumes "mlink m = Some l" and "on_link B (Some l) op s = Some (r, s')" and "r \<noteq> Panic" and "balive B (lconn l) s'"
  shows "cm_fetch B a op (s, m) = Some (r, (s', m))"
proof -
  have "cm_do B (\<lambda>vol. store_result (on_link B vol op) (\<lambda>a _. a)) (s, a, m) =
      Some (case r of Ok x \<Rightarrow> (Ok (), (s', x, m)) | Err e \<Rightarrow> (Err e, (s', a, m)) | Panic \<Rightarrow> (Panic, (s', a, m)))"
    using assms by (cases r) (simp_all add: cm_do_alone store_result_def)
  with assms(3) show ?thesis by (cases r) (simp_all add: cm_fetch_def cm_get_def)
qed

lemma mkdir_loop_makes:
  assumes "makes_dirs B l P dirs S" and "mlink m = Some l"
    and "\<forall>i < length subs. parent_of (subs ! i) = [] \<or> parent_of (subs ! i) \<in> dirs s \<union> set (take i subs)"
    and "S s" and "set subs \<subseteq> P"
  shows "\<exists>s'. mkdir_loop B subs (s, m) = Some (Ok (), (s', m)) \<and> S s' \<and> dirs s' = dirs s \<union> set subs"
  using assms(3-5)
proof (induction subs arbitrary: s)
  case Nil
  then show ?case by (simp add: io_ret_def)
next
  case (Cons p subs)
  have "p \<in> P" and "parent_of p = [] \<or> parent_of p \<in> dirs s" using Cons.prems(1,3) by force+
  then obtain s1 where s1: "S s1" "dirs s1 = insert p (dirs s)"
      "on_link B (Some l) (\<lambda>E v. Mkdir E v RootDirID p) s =
         Some (if p \<in> dirs s then Err (AfpError (''mkdir '' @ p) ResObjectExists) else Ok (), s1)"
    using assms(1) Cons.prems(2) unfolding makes_dirs_def by blast
  have "balive B (lconn l) s1" using assms(1) s1(1) by (simp add: makes_dirs_def)
  then have "cm_fetch B () (\<lambda>E v. Mkdir E v RootDirID p) (s, m) =
      Some (if p \<in> dirs s then Err (AfpError (''mkdir '' @ p) ResObjectExists) else Ok (), (s1, m))"
    using cm_fetch_live [OF assms(2) s1(3)] by (simp split: if_splits)
  then have step: "mkdir_loop B (p # subs) (s, m) = mkdir_loop B subs (s1, m)"
    by (auto simp: io_bind_def io_catch_def mapErr_def res_defs io_ret_def)
  have "parent_of (subs ! i) = [] \<or> parent_of (subs ! i) \<in> dirs s1 \<union> set (take i subs)" if "i < length subs" for i
    using Cons.prems(1) [rule_format, of "Suc i"] that s1(2) by auto
  then obtain s' where "mkdir_loop B subs (s1, m) = Some (Ok (), (s', m))" "S s'" "dirs s' = dirs s1 \<union> set subs"
    using Cons.IH [of s1] s1(1) Cons.prems(3) by auto
  then show ?case using step s1(2) by auto
qed

lemma parent_join:
  "ds \<noteq> [] \<Longrightarrow> \<forall>c \<in> set ds. CHR ''/'' \<notin> set c \<Longrightarrow> parent_of (join_slash ds) = join_slash (butlast ds)"
  by (simp add: parent_of_def split_join)

lemma mkdir_parts_parents:
  assumes "i < length (mkdir_parts p)"
  shows "parent_of (mkdir_parts p ! i) = [] \<or> parent_of (mkdir_parts p ! i) \<in> set (take i (mkdir_parts p))"
proof (cases i)
  case 0
  obtain a r where a: "split_slash p = a # r" by (cases "split_slash p") auto
  then have "split_slash a = [a]" using split_no_slash [of a p] by (simp add: split_word)
  with 0 a show ?thesis by (simp add: mkdir_parts_def parent_of_def Let_def del: upt_Suc)
next
  case (Suc j)
  let ?ds = "split_slash p"
  have j: "Suc j < length ?ds" using assms Suc by (simp add: mkdir_parts_def Let_def)
  have "parent_of (join_slash (take (Suc (Suc j)) ?ds)) = join_slash (butlast (take (Suc (Suc j)) ?ds))"
    using j by (intro parent_join) (auto dest: in_set_takeD split_no_slash)
  also have "butlast (take (Suc (Suc j)) ?ds) = take (Suc j) ?ds" using j by (simp add: butlast_take)
  finally have "parent_of (mkdir_parts p ! i) = mkdir_parts p ! j"
    using j Suc by (simp add: mkdir_parts_def Let_def)
  moreover have "mkdir_parts p ! j \<in> set (take i (mkdir_parts p))"
    using assms Suc by (auto simp: in_set_conv_nth intro!: exI [of _ j])
  ultimately show ?thesis by simp
qed

text \<open>
  (C22) \<^verbatim>\<open>MkdirAll\<close> makes every missing directory on the way and succeeds whether or not some of them
  exist: on a live connection it returns without error, and the directories afterwards are those before
  together with every prefix of the resolved path, each made after its parent.
\<close>
theorem MkdirAll_correct:
  assumes "makes_dirs B l (set (mkdir_parts (resolve f name))) dirs S" and "mlink m = Some l" and "S s"
  shows "\<exists>s'. MkdirAll B f name (s, m) = Some (Ok (), (s', m)) \<and> S s' \<and>
    dirs s' = dirs s \<union> (if resolve f name = [] then {} else set (mkdir_parts (resolve f name)))"
proof (cases "resolve f name = []")
  case False
  have "\<forall>i < length (mkdir_parts (resolve f name)).
      parent_of (mkdir_parts (resolve f name) ! i) = [] \<or>
      parent_of (mkdir_parts (resolve f name) ! i) \<in> dirs s \<union> set (take i (mkdir_parts (resolve f name)))"
    using mkdir_parts_parents by blast
  from mkdir_loop_makes [OF assms(1,2) this assms(3) subset_refl] False show ?thesis by (simp add: MkdirAll_def)
qed (use assms(3) in \<open>simp add: MkdirAll_def io_ret_def\<close>)

definition dirs_env :: "string set env" where
  "dirs_env = serve_env 0 (\<lambda>_ _ p D.
     let q = map (\<lambda>c. if c = CHR 0x00 then CHR ''/'' else c) (string_of_bytes (drop 15 p)) in
     (([], if q \<in> D then word_of_int ResObjectExists else 0), insert q D))"

definition dirs_bridge :: "string set bridge" where
  "dirs_bridge = \<lparr>benv = (\<lambda>_. dirs_env), bdial = (\<lambda>s. Some (Err EOF, s)), balive = (\<lambda>_ _. True),
     bclose = (\<lambda>_ s. Some (Ok (), s))\<rparr>"

lemma sample_parts: "mkdir_parts (resolve \<lparr>fsbase = []\<rparr> ''a/b'') = [''a'', ''a/b'']"
  by (simp add: resolve_eq mkdir_parts_def)

lemma dirs_bridge_mkdir:
  assumes "trim_slash p = p" and "CHR 0x00 \<notin> set p"
  shows "on_link dirs_bridge (Some l) (\<lambda>E v. Mkdir E v RootDirID p) D =
    Some (if p \<in> D then Err (AfpError (''mkdir '' @ p) ResObjectExists) else Ok (), insert p D)"
proof -
  have "map (\<lambda>c. if c = CHR 0x00 then CHR ''/'' else c) (slash_to_nul p) = p"
    using assms(2) by (induction p) (auto simp: slash_to_nul_def)
  then show ?thesis
    by (simp add: on_link_def dirs_bridge_def Mkdir_def simple_command_def dirs_env_def builder_path_def builder_defs
        assms(1) io_bind_def io_res_def of_err_resultErr result_of_code_def res_defs Let_def)
qed

lemma dirs_bridge_makes: "makes_dirs dirs_bridge (sample_link 1) {''a'', ''a/b''} (\<lambda>D. D) (\<lambda>_. True)"
  unfolding makes_dirs_def
proof (intro conjI ballI allI impI)
  fix p :: string and D :: "string set"
  assume "p \<in> {''a'', ''a/b''}"
  then have "trim_slash p = p" "CHR 0x00 \<notin> set p" by (auto simp: trim_slash_def)
  then show "\<exists>D'. True \<and> D' = insert p D \<and> on_link dirs_bridge (Some (sample_link 1)) (\<lambda>E v. Mkdir E v RootDirID p) D =
      Some (if p \<in> D then Err (AfpError (''mkdir '' @ p) ResObjectExists) else Ok (), D')"
    by (simp add: dirs_bridge_mkdir)
qed (simp add: dirs_bridge_def)

theorem MkdirAll_correct_witness:
  "\<exists>s'. MkdirAll dirs_bridge \<lparr>fsbase = []\<rparr> ''a/b'' ({''a''}, \<lparr>mgen = 1, mlink = Some (sample_link 1)\<rparr>) =
     Some (Ok (), (s', \<lparr>mgen = 1, mlink = Some (sample_link 1)\<rparr>)) \<and> s' = {''a'', ''a/b''}"
proof -
  have "makes_dirs dirs_bridge (sample_link 1) (set (mkdir_parts (resolve \<lparr>fsbase = []\<rparr> ''a/b''))) (\<lambda>D. D) (\<lambda>_. True)"
    using dirs_bridge_makes by (simp only: sample_parts list.set)
  from MkdirAll_correct [OF this, of "\<lparr>mgen = 1, mlink = Some (sample_link 1)\<rparr>" "{''a''}"] show ?thesis
    unfolding sample_parts by (auto simp: resolve_eq)
qed

section \<open>Exclusive creation across a reconnect\<close>

lemma open_closure_create_error:
  assumes "flag AND O_CREATE \<noteq> 0" and "on_link B vol (\<lambda>E v. CreateFile E v RootDirID p False) s = Some (Err err, s')"
    and "create_error filename flag err = Some e"
  shows "open_closure B filename p flag writable vol (s, fp) = Some (Err e, (s', fp))"
  using assms by (simp add: open_closure_def open_create_def io_bind_def)

text \<open>
  (C39) An exclusive create is not safe to retry: when the connection is lost after the request and
  before its reply, the manager sends the request again on the new connection, and if the first one had
  taken effect the server now reports that the object exists. \<^verbatim>\<open>OpenFile\<close> with \<^verbatim>\<open>O_CREATE|O_EXCL\<close> then fails with
  \<^verbatim>\<open>os.ErrExist\<close> for a file that this very call created.
\<close>
theorem OpenFile_excl_retry:
  assumes "mlink m = Some l" and "flag AND O_CREATE \<noteq> 0" and "flag AND O_EXCL \<noteq> 0"
    and "on_link B (Some l) (\<lambda>E v. CreateFile E v RootDirID (resolve f name) False) s = Some (Err e, s1)"
    and "as_afp e = None" and "\<not> err_is ErrExist e"
    and "\<not> balive B (lconn l) s1" and "cm_close_old B m s1 = Some (Ok (), s2)" and "bdial B s2 = Some (Ok l', s3)"
    and "on_link B (Some l') (\<lambda>E v. CreateFile E v RootDirID (resolve f name) False) s3 =
      Some (Err (AfpError op ResObjectExists), s4)"
  shows "\<exists>m'. OpenFile B f name flag (s, m) = Some (Err (PathError ''open'' name ErrExist), (s4, m'))"
proof -
  have e1: "create_error name flag e = Some (PathError ''open'' name e)"
    using assms(5,6) by (simp add: create_error_def mapErr_def)
  have e2: "create_error name flag (AfpError op ResObjectExists) = Some (PathError ''open'' name ErrExist)"
    using assms(3) by (simp add: create_error_def mapErr_def res_defs)
  note first = open_closure_create_error [OF assms(2,4) e1]
  note second = open_closure_create_error [OF assms(2,10) e2]
  have "cm_do B (open_closure B name (resolve f name) flag w) (s, fp, m) =
      Some (Err (PathError ''open'' name ErrExist), (s4, fp, \<lparr>mgen = mgen m + 1, mlink = Some l'\<rparr>))" for w fp
    by (rule cm_do_second [OF assms(1) first assms(7-9) second])
  then show ?thesis by (simp add: OpenFile_def cm_get_def io_bind_def Let_def)
qed

text \<open>
  A server whose state is whether the file exists; the reply to the first request is lost after the
  server has acted on it.
\<close>

definition exists_env :: "bool env" where
  "exists_env = serve_env 0 (\<lambda>_ _ p ex. (([], if ex then word_of_int ResObjectExists else 0), True))"

definition excl_bridge :: "bool bridge" where
  "excl_bridge = \<lparr>benv = (\<lambda>h. if h = 0 then exists_env\<lparr>conn_request := (\<lambda>_ _ _ ex. Some (Err ErrClosed, True))\<rparr> else exists_env),
     bdial = (\<lambda>s. Some (Ok (sample_link 1), s)), balive = (\<lambda>h _. h \<noteq> 0), bclose = (\<lambda>_ s. Some (Ok (), s))\<rparr>"

theorem OpenFile_excl_retry_witness:
  "\<exists>m'. OpenFile excl_bridge \<lparr>fsbase = []\<rparr> ''t'' (O_RDWR OR O_CREATE OR O_EXCL)
      (False, \<lparr>mgen = 1, mlink = Some (sample_link 0)\<rparr>) = Some (Err (PathError ''open'' ''t'' ErrExist), (True, m'))"
proof (rule OpenFile_excl_retry)
  show "on_link excl_bridge (Some (sample_link 0)) (\<lambda>E v. CreateFile E v RootDirID (resolve \<lparr>fsbase = []\<rparr> ''t'') False) False =
      Some (Err ErrClosed, True)"
    by (simp add: on_link_def excl_bridge_def CreateFile_def simple_command_def command_def on_sconn_def io_bind_def sample_link_def)
  show "on_link excl_bridge (Some (sample_link 1)) (\<lambda>E v. CreateFile E v RootDirID (resolve \<lparr>fsbase = []\<rparr> ''t'') False) True =
      Some (Err (AfpError (''create '' @ resolve \<lparr>fsbase = []\<rparr> ''t'') ResObjectExists), True)"
    by (simp add: on_link_def excl_bridge_def exists_env_def CreateFile_def simple_command_def io_bind_def io_res_def
        sample_link_def of_err_resultErr result_of_code_def res_defs)
qed (simp_all add: oflag_defs excl_bridge_def sample_link_def cm_close_old_def io_catch_def)

end
