(* ===== verification/Cli.thy ===== *)
theory Cli
  imports Nfs_Fs
begin

text \<open>
  \<^verbatim>\<open>cmd/goafp/main.go\<close>: the commands, from the parsed URL to the last deferred call. The result of
  \<^verbatim>\<open>url.Parse\<close>, the local files and the format of times are parameters; a command that prints returns its
  lines.
\<close>

section \<open>Definitions\<close>

subsection \<open>Targets\<close>

record url =
  Scheme :: string
  Host :: string
  User :: "(string \<times> string) option"
  UPath :: string

record target =
  thost :: string
  tusername :: string
  tpassword :: string
  tvolume :: string
  tpath :: string

text \<open>\<^verbatim>\<open>strings.Contains\<close>, and \<^verbatim>\<open>strings.SplitN(s, "/", 2)\<close>.\<close>

fun contains :: "string \<Rightarrow> string \<Rightarrow> bool" where
  "contains sub [] \<longleftrightarrow> sub = []"
| "contains sub (c # s) \<longleftrightarrow> take (length sub) (c # s) = sub \<or> contains sub s"

definition split2 :: "string \<Rightarrow> string list" where
  "split2 s =
     (let a = takeWhile (\<lambda>c. c \<noteq> CHR ''/'') s; b = dropWhile (\<lambda>c. c \<noteq> CHR ''/'') s
      in if b = [] then [a] else [a, tl b])"

definition parseTarget :: "(string \<Rightarrow> url res) \<Rightarrow> string \<Rightarrow> target res" where
  "parseTarget url_Parse raw =
     (let raw = (if \<not> contains ''://'' raw then ''afp://'' @ raw else raw) in
      res_bind (url_Parse raw) (\<lambda>u.
      if Scheme u \<noteq> ''afp''
      then Err (Errorf ''unsupported scheme %q (want afp://)'' [AStr (Scheme u)])
      else
        let t = \<lparr>thost = Host u, tusername = [], tpassword = [], tvolume = [], tpath = []\<rparr>;
            t = (case User u of
                   None \<Rightarrow> t
                 | Some (name, pw) \<Rightarrow> t\<lparr>tusername := name, tpassword := pw\<rparr>);
            parts = split2 (trim_slash (UPath u));
            t = (if length parts > 0 then t\<lparr>tvolume := parts ! 0\<rparr> else t);
            t = (if length parts > 1 then t\<lparr>tpath := parts ! 1\<rparr> else t)
        in Ok t))"

subsection \<open>Connections\<close>

text \<open>
  What the commands use of \<^verbatim>\<open>dsi\<close>: \<^verbatim>\<open>Dial\<close> gives the number of a connection, on whose requests the
  session runs. The state \<open>'s\<close> holds all connections.
\<close>

record 's client =
  cdial :: "string \<Rightarrow> ('s, nat) io"
  cenv :: "nat \<Rightarrow> 's env"
  cget_status :: "nat \<Rightarrow> ('s, bytes) io"
  copen_session :: "nat \<Rightarrow> ('s, unit) io"
  calive :: "nat \<Rightarrow> 's \<Rightarrow> bool"
  cclose :: "nat \<Rightarrow> ('s, unit) io"

definition in_session :: "'s client \<Rightarrow> nat \<Rightarrow> string \<Rightarrow> ('s env \<Rightarrow> ('s session, 'a) io) \<Rightarrow> ('s, 'a \<times> string) io" where
  "in_session N h ver op = (\<lambda>s.
     case op (cenv N h) \<lparr>sconn = s, Version = ver\<rparr> of
       None \<Rightarrow> None
     | Some (Ok a, s') \<Rightarrow> Some (Ok (a, Version s'), sconn s')
     | Some (Err e, s') \<Rightarrow> Some (Err e, sconn s')
     | Some (Panic, s') \<Rightarrow> Some (Panic, sconn s'))"

definition fetchStatus :: "'s client \<Rightarrow> string \<Rightarrow> ('s, ServerInfo) io" where
  "fetchStatus N host =
     io_bind (cdial N host) (\<lambda>h.
       io_defer (io_bind (cget_status N h) (\<lambda>block. io_res (ParseServerInfo block))) (cclose N h))"

text \<open>The branch \<^verbatim>\<open>conn.Close(); return err\<close>: the error of \<^verbatim>\<open>Close\<close> is dropped.\<close>

definition or_close :: "'s client \<Rightarrow> nat \<Rightarrow> ('s, 'a) io \<Rightarrow> ('s, 'a) io" where
  "or_close N h m = io_catch m (\<lambda>e. io_defer (io_res (Err e)) (cclose N h))"

definition connect :: "'s client \<Rightarrow> crypto \<Rightarrow> target \<Rightarrow> ('s, nat \<times> string) io" where
  "connect N C t =
     io_bind (fetchStatus N (thost t)) (\<lambda>info.
     io_bind (cdial N (thost t)) (\<lambda>h.
     io_bind (or_close N h (copen_session N h)) (\<lambda>_.
     io_bind (or_close N h (in_session N h [] (\<lambda>E. Login E C info (tusername t) (tpassword t)))) (\<lambda>(_, ver).
       io_ret (h, ver)))))"

text \<open>A computation on the connections, beside the state \<open>'o\<close> of the local system.\<close>

definition net :: "('s, 'a) io \<Rightarrow> ('s \<times> 'o, 'a) io" where
  "net m = (\<lambda>(s, w). case m s of None \<Rightarrow> None | Some (r, s') \<Rightarrow> Some (r, (s', w)))"

text \<open>\<^verbatim>\<open>connect\<close> with the deferred \<^verbatim>\<open>Logout\<close> and \<^verbatim>\<open>Close\<close>, run in this order.\<close>

definition with_session :: "'s client \<Rightarrow> crypto \<Rightarrow> target \<Rightarrow> (nat \<Rightarrow> string \<Rightarrow> ('s \<times> 'o, 'a) io) \<Rightarrow> ('s \<times> 'o, 'a) io" where
  "with_session N C t k =
     io_bind (net (connect N C t)) (\<lambda>(h, ver).
       io_defer (io_defer (k h ver) (net (in_session N h ver Logout))) (net (cclose N h)))"

text \<open>\<^verbatim>\<open>OpenVolume\<close> with the deferred \<^verbatim>\<open>vol.Close\<close>.\<close>

definition with_open_volume :: "'s client \<Rightarrow> nat \<Rightarrow> string \<Rightarrow> string \<Rightarrow> (Volume \<Rightarrow> ('s \<times> 'o, 'a) io) \<Rightarrow> ('s \<times> 'o, 'a) io" where
  "with_open_volume N h ver name k =
     io_bind (net (in_session N h ver (\<lambda>E. OpenVolume E name))) (\<lambda>(vol, _).
       io_defer (k vol) (net (in_session N h ver (\<lambda>E. Volume_Close E vol))))"

text \<open>An operation of the open session, its value alone.\<close>

definition session_op :: "'s client \<Rightarrow> nat \<Rightarrow> string \<Rightarrow> ('s env \<Rightarrow> ('s session, 'a) io) \<Rightarrow> ('s \<times> 'o, 'a) io" where
  "session_op N h ver op = io_bind (net (in_session N h ver op)) (\<lambda>(a, _). io_ret a)"

definition cli_error :: "string \<Rightarrow> 'a res" where
  "cli_error msg = Err (Errorf msg [])"

definition withVolume :: "'s client \<Rightarrow> crypto \<Rightarrow> (string \<Rightarrow> url res) \<Rightarrow> string \<Rightarrow>
    (nat \<Rightarrow> string \<Rightarrow> Volume \<Rightarrow> target \<Rightarrow> ('s \<times> 'o, 'a) io) \<Rightarrow> ('s \<times> 'o, 'a) io" where
  "withVolume N C up raw fn =
     io_bind (io_res (parseTarget up raw)) (\<lambda>t.
       if tvolume t = [] then io_res (cli_error ''URL must name a volume'')
       else with_session N C t (\<lambda>h ver.
         with_open_volume N h ver (tvolume t) (\<lambda>vol. fn h ver vol t)))"

definition withFork_cli :: "'s client \<Rightarrow> crypto \<Rightarrow> (string \<Rightarrow> url res) \<Rightarrow> string \<Rightarrow>
    (nat \<Rightarrow> string \<Rightarrow> Fork \<Rightarrow> ('s \<times> 'o, 'a) io) \<Rightarrow> ('s \<times> 'o, 'a) io" where
  "withFork_cli N C up raw fn =
     io_bind (io_res (parseTarget up raw)) (\<lambda>t.
       if tvolume t = [] \<or> tpath t = [] then io_res (cli_error ''URL must name a volume and a file path'')
       else with_session N C t (\<lambda>h ver.
         with_open_volume N h ver (tvolume t) (\<lambda>vol.
           io_bind (session_op N h ver (\<lambda>E. OpenFork E vol RootDirID (tpath t))) (\<lambda>fork.
             io_defer (fn h ver fork) (net (in_session N h ver (\<lambda>E. Fork_Close E fork)))))))"

subsection \<open>Commands\<close>

text \<open>\<^verbatim>\<open>%d\<close>, \<^verbatim>\<open>%o\<close> and the widths of \<^verbatim>\<open>fmt\<close>.\<close>

fun digits :: "nat \<Rightarrow> nat \<Rightarrow> string" where
  "digits base n =
     (if base < 2 \<or> n < base then [hex_digit n] else digits base (n div base) @ [hex_digit (n mod base)])"

declare digits.simps [simp del]

definition pad_left :: "char \<Rightarrow> nat \<Rightarrow> string \<Rightarrow> string" where
  "pad_left c n s = replicate (n - length s) c @ s"

definition pad_right :: "nat \<Rightarrow> string \<Rightarrow> string" where
  "pad_right n s = s @ replicate (n - length s) CHR '' ''"

definition formatEntry :: "(int \<Rightarrow> string) \<Rightarrow> DirEntry \<Rightarrow> string" where
  "formatEntry fmt_time e =
     (let kind = (if deIsDir e then ''d'' else ''-'');
          sz = (if deIsDir e then digits 10 (unat (deOffspring e)) @ '' items'' else digits 10 (unat (deSize e)));
          up = deUnixPrivs e;
          perms = (if deHasUnix e
                   then '' '' @ pad_left CHR ''0'' 4 (digits 8 (unat (Permissions up AND 0xFFF)))
                        @ '' '' @ pad_left CHR '' '' 5 (digits 10 (unat (UID up)))
                        @ '':'' @ pad_right 5 (digits 10 (unat (GID up)))
                   else []);
          when = (case deModTime e of None \<Rightarrow> [] | Some t \<Rightarrow> fmt_time t)
      in kind @ perms @ '' '' @ pad_left CHR '' '' 12 sz @ ''  '' @ when @ ''  '' @ deName e)"

definition runVolumes :: "'s client \<Rightarrow> crypto \<Rightarrow> (string \<Rightarrow> url res) \<Rightarrow> string \<Rightarrow> ('s \<times> 'o, string list) io" where
  "runVolumes N C up raw =
     io_bind (io_res (parseTarget up raw)) (\<lambda>t.
       with_session N C t (\<lambda>h ver.
         io_bind (session_op N h ver ListVolumes) (\<lambda>vols.
           io_ret (map (\<lambda>v. viName v @ (if viHasPassword v then '' (password protected)'' else [])) vols))))"

definition runLs :: "'s client \<Rightarrow> crypto \<Rightarrow> (string \<Rightarrow> url res) \<Rightarrow> (int \<Rightarrow> string) \<Rightarrow> string \<Rightarrow> ('s \<times> 'o, string list) io" where
  "runLs N C up fmt_time raw =
     io_bind (io_res (parseTarget up raw)) (\<lambda>t.
       if tvolume t = [] then io_res (cli_error ''URL must name a volume, e.g. afp://server/Volume'')
       else with_session N C t (\<lambda>h ver.
         with_open_volume N h ver (tvolume t) (\<lambda>vol.
           io_bind (session_op N h ver (\<lambda>E. ReadDir E vol RootDirID (tpath t))) (\<lambda>entries.
             io_ret (map (formatEntry fmt_time) entries)))))"

text \<open>
  The local system: \<^verbatim>\<open>os.Create\<close>, writing and closing the file it opened, \<^verbatim>\<open>os.Open\<close> as the source it
  will yield, and standard output.
\<close>

record 'o local =
  lcreate :: "string \<Rightarrow> 'o \<Rightarrow> goerr option \<times> 'o"
  lwrite :: "string \<Rightarrow> bytes \<Rightarrow> 'o \<Rightarrow> goerr option \<times> 'o"
  lclose :: "string \<Rightarrow> 'o \<Rightarrow> goerr option \<times> 'o"
  lopen :: "string \<Rightarrow> 'o \<Rightarrow> source res"
  lstdout :: "bytes \<Rightarrow> 'o \<Rightarrow> goerr option \<times> 'o"

definition local_op :: "('o \<Rightarrow> goerr option \<times> 'o) \<Rightarrow> ('s \<times> 'o, unit) io" where
  "local_op op = (\<lambda>(s, w). case op w of (e, w') \<Rightarrow> Some (of_err e, (s, w')))"

text \<open>\<^verbatim>\<open>f.WriteToContext(ctx, out)\<close>, its count.\<close>

definition copy_out :: "'s client \<Rightarrow> nat \<Rightarrow> string \<Rightarrow> Fork \<Rightarrow> (bytes \<Rightarrow> 'o \<Rightarrow> goerr option \<times> 'o) \<Rightarrow> ('s \<times> 'o, int) io" where
  "copy_out N h ver fork wr = (\<lambda>(s, w).
     case WriteToContext (cenv N h) fork wr (\<lparr>sconn = s, Version = ver\<rparr>, w) of
       None \<Rightarrow> None
     | Some (Ok (n, e), (s', w')) \<Rightarrow> Some (res_bind (of_err e) (\<lambda>_. Ok n), (sconn s', w'))
     | Some (Err e, (s', w')) \<Rightarrow> Some (Err e, (sconn s', w'))
     | Some (Panic, (s', w')) \<Rightarrow> Some (Panic, (sconn s', w')))"

definition runCat :: "'s client \<Rightarrow> crypto \<Rightarrow> (string \<Rightarrow> url res) \<Rightarrow> 'o local \<Rightarrow> string \<Rightarrow> ('s \<times> 'o, unit) io" where
  "runCat N C up L raw =
     withFork_cli N C up raw (\<lambda>h ver f. io_bind (copy_out N h ver f (lstdout L)) (\<lambda>_. io_ret ()))"

definition get_local :: "string list \<Rightarrow> target \<Rightarrow> string" where
  "get_local args t = (if length args > 1 then args ! 1 else if tpath t \<noteq> [] then path_Base (tpath t) else [])"

text \<open>
  The file is closed on every way out: by \<^verbatim>\<open>return out.Close()\<close> after a copy that succeeded, where the
  deferred \<^verbatim>\<open>out.Close\<close> then has no effect, and by the deferred call alone after an error or a panic.
\<close>

definition close_after :: "('s, 'a) io \<Rightarrow> ('s, unit) io \<Rightarrow> ('s, unit) io" where
  "close_after m d s =
     (case m s of
        None \<Rightarrow> None
      | Some (Ok _, s') \<Rightarrow> d s'
      | Some (Err e, s') \<Rightarrow> io_defer (io_res (Err e)) d s'
      | Some (Panic, s') \<Rightarrow> io_defer (io_res Panic) d s')"

definition runGet :: "'s client \<Rightarrow> crypto \<Rightarrow> (string \<Rightarrow> url res) \<Rightarrow> 'o local \<Rightarrow> string list \<Rightarrow> ('s \<times> 'o, unit) io" where
  "runGet N C up L args =
     (let raw = args ! 0 in
      io_bind (io_res (parseTarget up raw)) (\<lambda>t.
        let loc = get_local args t in
        if loc = [] \<or> loc = ''.'' \<or> loc = ''/''
        then io_res (cli_error ''cannot infer a local filename; pass one explicitly'')
        else withFork_cli N C up raw (\<lambda>h ver f.
          io_bind (local_op (lcreate L loc)) (\<lambda>_.
            close_after (copy_out N h ver f (lwrite L loc)) (local_op (lclose L loc))))))"

text \<open>\<^verbatim>\<open>fork.ReadFromContext(ctx, in)\<close>.\<close>

definition copy_in :: "'s client \<Rightarrow> nat \<Rightarrow> string \<Rightarrow> Fork \<Rightarrow> source \<Rightarrow> ('s \<times> 'o, int) io" where
  "copy_in N h ver fork src = (\<lambda>(s, w).
     case ReadFromContext (cenv N h) fork (\<lparr>sconn = s, Version = ver\<rparr>, src) of
       None \<Rightarrow> None
     | Some (Ok (n, e), (s', _)) \<Rightarrow> Some (res_bind (of_err e) (\<lambda>_. Ok n), (sconn s', w))
     | Some (Err e, (s', _)) \<Rightarrow> Some (Err e, (sconn s', w))
     | Some (Panic, (s', _)) \<Rightarrow> Some (Panic, (sconn s', w)))"

definition runPut :: "'s client \<Rightarrow> crypto \<Rightarrow> (string \<Rightarrow> url res) \<Rightarrow> 'o local \<Rightarrow> string list \<Rightarrow> ('s \<times> 'o, unit) io" where
  "runPut N C up L args =
     (if length args < 2 then io_res (cli_error ''usage: goafp put <localfile> <afp://.../volume/path>'')
      else
        let loc = args ! 0; raw = args ! 1 in
        io_bind (io_res (parseTarget up raw)) (\<lambda>t.
        if tvolume t = [] \<or> tpath t = []
        then io_res (cli_error ''destination URL must name a volume and a file path'')
        else
          io_bind (\<lambda>(s, w). Some (lopen L loc w, (s, w))) (\<lambda>src.
          with_session N C t (\<lambda>h ver.
          with_open_volume N h ver (tvolume t) (\<lambda>vol.
            io_bind (session_op N h ver (\<lambda>E. CreateFile E vol RootDirID (tpath t) True)) (\<lambda>_.
            io_bind (session_op N h ver (\<lambda>E. OpenForkRW E vol RootDirID (tpath t))) (\<lambda>fork.
              io_defer (io_bind (copy_in N h ver fork src) (\<lambda>_. io_ret ()))
                (net (in_session N h ver (\<lambda>E. Fork_Close E fork))))))))))"

definition runMkdir :: "'s client \<Rightarrow> crypto \<Rightarrow> (string \<Rightarrow> url res) \<Rightarrow> string \<Rightarrow> ('s \<times> 'o, unit) io" where
  "runMkdir N C up raw =
     withVolume N C up raw (\<lambda>h ver vol t.
       if tpath t = [] then io_res (cli_error ''URL must name a directory path'')
       else session_op N h ver (\<lambda>E. Mkdir E vol RootDirID (tpath t)))"

definition runRm :: "'s client \<Rightarrow> crypto \<Rightarrow> (string \<Rightarrow> url res) \<Rightarrow> string \<Rightarrow> ('s \<times> 'o, unit) io" where
  "runRm N C up raw =
     withVolume N C up raw (\<lambda>h ver vol t.
       if tpath t = [] then io_res (cli_error ''URL must name a path to delete'')
       else session_op N h ver (\<lambda>E. Delete E vol RootDirID (tpath t)))"

definition runMv :: "'s client \<Rightarrow> crypto \<Rightarrow> (string \<Rightarrow> url res) \<Rightarrow> string list \<Rightarrow> ('s \<times> 'o, unit) io" where
  "runMv N C up args =
     (if length args < 2 then io_res (cli_error ''usage: goafp mv <afp://.../volume/path> <newpath>'')
      else withVolume N C up (args ! 0) (\<lambda>h ver vol t.
        if tpath t = [] then io_res (cli_error ''source URL must name a path'')
        else session_op N h ver (\<lambda>E. Rename E vol RootDirID (tpath t) (trim_slash (args ! 1)))))"

text \<open>The dialer of \<^verbatim>\<open>runMount\<close>: the connection manager's link to the volume.\<close>

definition mount_dial :: "'s client \<Rightarrow> crypto \<Rightarrow> target \<Rightarrow> ('s, link) io" where
  "mount_dial N C t =
     io_bind (connect N C t) (\<lambda>(h, ver).
     io_bind (or_close N h (in_session N h ver (\<lambda>E. OpenVolume E (tvolume t)))) (\<lambda>(vol, ver).
       io_ret \<lparr>lconn = h, lver = ver, lvol = vol\<rparr>))"

definition mount_bridge :: "'s client \<Rightarrow> crypto \<Rightarrow> target \<Rightarrow> 's bridge" where
  "mount_bridge N C t = \<lparr>benv = cenv N, bdial = mount_dial N C t, balive = calive N, bclose = cclose N\<rparr>"

text \<open>\<^verbatim>\<open>net.JoinHostPort\<close>, and a \<^verbatim>\<open>net.TCPAddr\<close> with the text form of its address.\<close>

definition join_host_port :: "string \<Rightarrow> string \<Rightarrow> string" where
  "join_host_port host port =
     (if CHR '':'' \<in> set host then ''['' @ host @ '']:'' @ port else host @ '':'' @ port)"

record tcp_addr =
  aIP :: string
  aPort :: nat
  aZone :: string

definition addr_String :: "tcp_addr \<Rightarrow> string" where
  "addr_String a =
     (if aZone a \<noteq> [] then join_host_port (aIP a @ ''%'' @ aZone a) (digits 10 (aPort a))
      else join_host_port (aIP a) (digits 10 (aPort a)))"

text \<open>What is printed, call by call; \<open>quote\<close> is the verb \<^verbatim>\<open>%q\<close>, and the line feed has the code 10.\<close>

definition printMountHelp :: "(string \<Rightarrow> string) \<Rightarrow> string \<Rightarrow> tcp_addr \<Rightarrow> string \<Rightarrow> string list" where
  "printMountHelp quote GOOS a volume =
     (let nl = [CHR 0x0A]; port = digits 10 (aPort a) in
      [''Serving AFP volume '' @ quote volume @ '' over NFS on '' @ addr_String a @ nl @ nl,
       ''Mount it from another terminal (needs sudo):'' @ nl,
       (if GOOS = ''darwin''
        then ''  sudo mount_nfs -o vers=3,tcp,port='' @ port @ '',mountport='' @ port @ '',noowners,resvport '' @ [CHR 0x5C] @ nl
             @ ''    '' @ aIP a @ '':/ /path/to/mountpoint'' @ nl
        else ''  sudo mount -t nfs -o vers=3,tcp,port='' @ port @ '',mountport='' @ port @ '',nolock '' @ [CHR 0x5C] @ nl
             @ ''    '' @ aIP a @ '':/ /path/to/mountpoint'' @ nl),
       nl @ ''Press Ctrl-C to stop serving.'' @ nl])"

text \<open>Printing ignores the error of the write.\<close>

fun print_all :: "'o local \<Rightarrow> string list \<Rightarrow> ('s \<times> 'o, unit) io" where
  "print_all L [] = io_ret ()"
| "print_all L (x # xs) = (\<lambda>(s, w). print_all L xs (s, snd (lstdout L (bytes_of_string x) w)))"

text \<open>What the mount command uses of the system: \<^verbatim>\<open>net.Listen\<close>, the address of a listener, \<^verbatim>\<open>runtime.GOOS\<close>, \<^verbatim>\<open>go-nfs\<close>.\<close>

record ('s, 'h, 'l) mounter =
  mlisten :: "string \<Rightarrow> 'l res"
  maddr :: "'l \<Rightarrow> tcp_addr"
  mGOOS :: string
  mquote :: "string \<Rightarrow> string"
  mnfs :: "('s, 'h, 'l) gonfs"

definition runMount :: "'s client \<Rightarrow> crypto \<Rightarrow> (string \<Rightarrow> url res) \<Rightarrow> 'o local \<Rightarrow> ('s, 'h, 'l) mounter \<Rightarrow> string list \<Rightarrow>
    ('s \<times> 'o, unit) io" where
  "runMount N C up L X args =
     (if length args < 1 then io_res (cli_error ''usage: goafp mount <afp://.../volume> [listen-addr]'')
      else
        io_bind (io_res (parseTarget up (args ! 0))) (\<lambda>t.
        if tvolume t = [] then io_res (cli_error ''URL must name a volume'')
        else
          let addr = (if length args > 1 then args ! 1 else ''127.0.0.1:2049'');
              B = mount_bridge N C t in
          io_bind (net (FS_New B)) (\<lambda>(fsys, m) (s, w).
            case io_defer
                   (io_bind (io_res (mlisten X addr)) (\<lambda>l.
                    io_bind (print_all L (printMountHelp (mquote X) (mGOOS X) (maddr X l) (tvolume t))) (\<lambda>_.
                      net (Serve (mnfs X) B l fsys 4096))))
                   (net (FS_Close B)) ((s, m), w) of
              None \<Rightarrow> None
            | Some (r, ((s', _), w')) \<Rightarrow> Some (r, (s', w')))))"

fun join_comma :: "string list \<Rightarrow> string" where
  "join_comma [] = []"
| "join_comma [x] = x"
| "join_comma (x # y # r) = x @ '', '' @ join_comma (y # r)"

definition runStatus :: "'s client \<Rightarrow> string \<Rightarrow> ('s, string list) io" where
  "runStatus N addr =
     io_bind (fetchStatus N addr) (\<lambda>info. io_ret
       [''Server name:  '' @ ServerName info,
        ''Machine type: '' @ MachineType info,
        ''AFP versions: '' @ join_comma (AFPVersions info),
        ''UAMs:         '' @ join_comma (UAMs info),
        ''Flags:        0x'' @ pad_left CHR ''0'' 4 (digits 16 (unat (SrvFlags info)))])"

text \<open>
  \<^verbatim>\<open>main\<close>: the exit code. A command that fails exits with 1, wrong usage with 2, and so does a
  program that panics.
\<close>

definition exit_code :: "('s, 'a) io \<Rightarrow> ('s, nat) io" where
  "exit_code m = (\<lambda>s. case m s of
     None \<Rightarrow> None
   | Some (Ok _, s') \<Rightarrow> Some (Ok 0, s')
   | Some (Err _, s') \<Rightarrow> Some (Ok 1, s')
   | Some (Panic, s') \<Rightarrow> Some (Panic, s'))"

definition goafp_main :: "'s client \<Rightarrow> crypto \<Rightarrow> (string \<Rightarrow> url res) \<Rightarrow> 'o local \<Rightarrow> (int \<Rightarrow> string) \<Rightarrow>
    ('s, 'h, 'l) mounter \<Rightarrow> string list \<Rightarrow> ('s \<times> 'o, nat) io" where
  "goafp_main N C up L fmt_time X argv =
     (if length argv < 3 then io_ret 2
      else
        let args = drop 2 argv; cmd = argv ! 1 in
        if cmd = ''status'' then exit_code (net (runStatus N (args ! 0)))
        else if cmd = ''volumes'' then exit_code (runVolumes N C up (args ! 0))
        else if cmd = ''ls'' then exit_code (runLs N C up fmt_time (args ! 0))
        else if cmd = ''cat'' then exit_code (runCat N C up L (args ! 0))
        else if cmd = ''get'' then exit_code (runGet N C up L args)
        else if cmd = ''put'' then exit_code (runPut N C up L args)
        else if cmd = ''mkdir'' then exit_code (runMkdir N C up (args ! 0))
        else if cmd = ''rm'' then exit_code (runRm N C up (args ! 0))
        else if cmd = ''mv'' then exit_code (runMv N C up args)
        else if cmd = ''mount'' then exit_code (runMount N C up L X args)
        else io_ret 2)"

subsection \<open>The connections of the program\<close>

text \<open>\<^verbatim>\<open>net.SplitHostPort\<close> succeeds.\<close>

definition index_of :: "char \<Rightarrow> string \<Rightarrow> nat option" where
  "index_of c s = (if c \<in> set s then Some (length (takeWhile (\<lambda>x. x \<noteq> c) s)) else None)"

definition last_index_of :: "char \<Rightarrow> string \<Rightarrow> nat option" where
  "last_index_of c s = map_option (\<lambda>i. length s - 1 - i) (index_of c (rev s))"

definition has_port :: "string \<Rightarrow> bool" where
  "has_port hp =
     (case last_index_of CHR '':'' hp of
        None \<Rightarrow> False
      | Some i \<Rightarrow>
          if hd hp = CHR ''['' then
            (case index_of CHR '']'' hp of
               None \<Rightarrow> False
             | Some e \<Rightarrow> e + 1 = i \<and> CHR ''['' \<notin> set (drop 1 hp) \<and> CHR '']'' \<notin> set (drop (e + 1) hp))
          else CHR '':'' \<notin> set (take i hp) \<and> CHR ''['' \<notin> set hp \<and> CHR '']'' \<notin> set hp)"

text \<open>
  Every connection the program has dialed, by number, and the world they all share; \<open>W h\<close> is the
  transport of connection \<open>h\<close>, and \<open>tcp addr\<close> the \<^verbatim>\<open>DialContext\<close>, which may fail and changes the world.
\<close>

record 'w hosts =
  hconns :: "nat \<Rightarrow> unit dsi"
  hnext :: nat
  hworld :: 'w

definition Dial :: "(string \<Rightarrow> 'w \<Rightarrow> unit res \<times> 'w) \<Rightarrow> string \<Rightarrow> ('w hosts, nat) io" where
  "Dial tcp addr = (\<lambda>s.
     let addr = (if \<not> has_port addr then join_host_port addr ''548'' else addr) in
     case tcp addr (hworld s) of
       (Ok _, w) \<Rightarrow> Some (Ok (hnext s), s\<lparr>hconns := (hconns s)(hnext s := fresh_dsi ()), hnext := Suc (hnext s), hworld := w\<rparr>)
     | (Err e, w) \<Rightarrow> Some (Err e, s\<lparr>hworld := w\<rparr>)
     | (Panic, w) \<Rightarrow> Some (Panic, s\<lparr>hworld := w\<rparr>))"

definition dsi_of :: "'w hosts \<Rightarrow> nat \<Rightarrow> 'w dsi" where
  "dsi_of s h = \<lparr>dconn = dconn (hconns s h), dchan = dchan (hconns s h), dinp = dinp (hconns s h), dworld = hworld s\<rparr>"

definition at_conn :: "nat \<Rightarrow> ('w dsi, 'a) io \<Rightarrow> ('w hosts, 'a) io" where
  "at_conn h m = (\<lambda>s.
     case m (dsi_of s h) of
       None \<Rightarrow> None
     | Some (r, c) \<Rightarrow> Some (r, s\<lparr>hconns := (hconns s)(h := \<lparr>dconn = dconn c, dchan = dchan c, dinp = dinp c, dworld = ()\<rparr>),
                                 hworld := dworld c\<rparr>))"

definition dsi_client :: "(nat \<Rightarrow> 'w net) \<Rightarrow> (string \<Rightarrow> string) \<Rightarrow> (string \<Rightarrow> string) \<Rightarrow> ('w hosts \<Rightarrow> nat \<Rightarrow> nat list) \<Rightarrow>
    (string \<Rightarrow> 'w \<Rightarrow> unit res \<times> 'w) \<Rightarrow> 'w hosts client" where
  "dsi_client W nfd nfc order tcp =
     \<lparr>cdial = Dial tcp,
      cenv = (\<lambda>h. \<lparr>conn_request = (\<lambda>cmd off p. at_conn h (request (W h) cmd off p)),
                   conn_quantum = (\<lambda>s. ServerQuantum (dconn (hconns s h))), norm_nfd = nfd, norm_nfc = nfc,
                   group_order = order\<rparr>),
      cget_status = (\<lambda>h. at_conn h (GetStatus (W h))),
      copen_session = (\<lambda>h. at_conn h (OpenSession (W h))),
      calive = (\<lambda>h s. IsAlive (dconn (hconns s h))),
      cclose = (\<lambda>h. at_conn h (conn_Close (W h)))\<rparr>"

end
