(* ===== verification/Cli_Transfer.thy ===== *)
theory Cli_Transfer
  imports Dsi_Serve Cli
begin

text \<open>
  Uploading and downloading a file with the command line, from the URL to the bytes on the wire: what
  \<^verbatim>\<open>goafp put\<close> stores is what \<^verbatim>\<open>goafp get\<close> fetches.
\<close>

section \<open>What the commands rely on\<close>

text \<open>
  A status block that lets a guest in, and the requests of a guest's session.
\<close>

definition guest_block :: "bytes \<Rightarrow> bool" where
  "guest_block b \<longleftrightarrow> (\<exists>info ver. ParseServerInfo b = Ok info \<and> pickVersion (AFPVersions info) = Ok ver
     \<and> uamNoAuth \<in> set (UAMs info))"

definition guest_request :: "string \<Rightarrow> bytes" where
  "guest_request ver = builder_bytes (builder_pascal (builder_pascal (builder_u8 [] cmdLogin) ver) uamNoAuth) []"

definition open_volume_request :: "string \<Rightarrow> bytes" where
  "open_volume_request name =
     builder_pascal (builder_u16 (builder_u8 (builder_u8 [] cmdOpenVol) 0) (kFPVolAttributeBit OR kFPVolIDBit)) name"

definition close_volume_request :: "Volume \<Rightarrow> bytes" where
  "close_volume_request v = builder_u16 (builder_u8 (builder_u8 [] cmdCloseVol) 0) (vID v)"

text \<open>
  A guest's session on the environment \<open>E\<close> of one connection, step by step: from \<open>B\<close>, the session opened,
  the login leads to \<open>L\<close>, opening the volume to \<open>M\<close>, opening the file to \<open>T\<close>, and back. Only the
  creation of the file and the writes to it change its content.
\<close>

definition guest_session :: "'s env \<Rightarrow> target \<Rightarrow> Volume \<Rightarrow> 16 word \<Rightarrow> ('s session \<Rightarrow> bytes) \<Rightarrow> ('s session \<Rightarrow> bool) \<Rightarrow>
    ('s session \<Rightarrow> bool) \<Rightarrow> ('s session \<Rightarrow> bool) \<Rightarrow> ('s session \<Rightarrow> bool) \<Rightarrow> bool" where
  "guest_session E t vol fid content B L M T \<longleftrightarrow>
     (\<forall>ver. keeps_file E content B L (guest_request ver)) \<and>
     (\<forall>s. L s \<longrightarrow> (\<exists>b s'. command E (open_volume_request (tvolume t)) s = Some (Ok (b, 0), s') \<and>
        open_volume_reply (tvolume t) b = Ok vol \<and> M s' \<and> content s' = content s)) \<and>
     holds_file E vol RootDirID (tpath t) fid content M T \<and>
     keeps_file E content M L (close_volume_request vol) \<and>
     keeps_file E content L B [cmdLogout, 0]"

definition calm :: "('s \<Rightarrow> bytes) \<Rightarrow> ('s \<Rightarrow> bool) \<Rightarrow> ('a \<Rightarrow> 's \<Rightarrow> bool) \<Rightarrow> ('s, 'a) io \<Rightarrow> bool" where
  "calm content P Q m \<longleftrightarrow> (\<forall>s. P s \<longrightarrow> (\<exists>a s'. m s = Some (Ok a, s') \<and> Q a s' \<and> content s' = content s))"

text \<open>
  A client of a server that is up: \<open>W\<close> says that it can be dialed, \<open>A h\<close> that connection \<open>h\<close> is open.
\<close>

definition guest_host :: "'s client \<Rightarrow> target \<Rightarrow> Volume \<Rightarrow> 16 word \<Rightarrow> ('s \<Rightarrow> bytes) \<Rightarrow> ('s \<Rightarrow> bool) \<Rightarrow> (nat \<Rightarrow> 's \<Rightarrow> bool) \<Rightarrow>
    (nat \<Rightarrow> 's \<Rightarrow> bool) \<Rightarrow> (nat \<Rightarrow> 's \<Rightarrow> bool) \<Rightarrow> (nat \<Rightarrow> 's \<Rightarrow> bool) \<Rightarrow> (nat \<Rightarrow> 's \<Rightarrow> bool) \<Rightarrow> bool" where
  "guest_host N t vol fid content W A B L M T \<longleftrightarrow>
     calm content W (\<lambda>h s. A h s) (cdial N (thost t)) \<and>
     (\<forall>h. calm content (A h) (\<lambda>b s. guest_block b \<and> A h s) (cget_status N h) \<and>
          calm content (A h) (\<lambda>_. B h) (copen_session N h) \<and>
          calm content (A h) (\<lambda>_. W) (cclose N h) \<and> calm content (B h) (\<lambda>_. W) (cclose N h) \<and>
          guest_session (cenv N h) t vol fid (\<lambda>s. content (sconn s)) (\<lambda>s. B h (sconn s)) (\<lambda>s. L h (sconn s))
            (\<lambda>s. M h (sconn s)) (\<lambda>s. T h (sconn s)) \<and>
          group_runs_all (cenv N h))"

lemma calmD: "calm content P Q m \<Longrightarrow> P s \<Longrightarrow> \<exists>a s'. m s = Some (Ok a, s') \<and> Q a s' \<and> content s' = content s"
  by (auto simp: calm_def)

lemma calm_bind:
  assumes "calm content P Q m" and "\<And>a. calm content (Q a) R (f a)"
  shows "calm content P R (io_bind m f)"
  unfolding calm_def
proof (intro allI impI)
  fix s assume "P s"
  from calmD [OF assms(1) this] obtain a s1 where "m s = Some (Ok a, s1)" "Q a s1" "content s1 = content s" by blast
  with calmD [OF assms(2)] show "\<exists>b s'. io_bind m f s = Some (Ok b, s') \<and> R b s' \<and> content s' = content s"
    by fastforce
qed

lemma calm_defer:
  assumes "calm content P Q m" and "\<And>a. calm content (Q a) (\<lambda>_. R a) d"
  shows "calm content P R (io_defer m d)"
  unfolding calm_def
proof (intro allI impI)
  fix s assume "P s"
  from calmD [OF assms(1) this] obtain a s1 where "m s = Some (Ok a, s1)" "Q a s1" "content s1 = content s" by blast
  moreover from calmD [OF assms(2) this(2)] obtain u s2 where "d s1 = Some (Ok u, s2)" "R a s2" "content s2 = content s1" by blast
  ultimately show "\<exists>b s'. io_defer m d s = Some (Ok b, s') \<and> R b s' \<and> content s' = content s"
    by (simp add: io_defer_def)
qed

lemma calm_res: "r = Ok a \<Longrightarrow> calm content (Q a) Q (io_res r)"
  by (simp add: calm_def io_res_def)

lemma calm_or_close: "calm content P Q m \<Longrightarrow> calm content P Q (or_close N h m)"
  by (auto simp: calm_def or_close_def io_catch_def)

section \<open>The stages of a session\<close>

lemma in_session_calm:
  assumes "\<And>s. P (sconn s) \<Longrightarrow> Version s = ver \<Longrightarrow>
    \<exists>a s'. op (cenv N h) s = Some (Ok a, s') \<and> Q a (sconn s') \<and> content (sconn s') = content (sconn s)"
  shows "calm content P (\<lambda>(a, _). Q a) (in_session N h ver op)"
  unfolding calm_def
proof (intro allI impI)
  fix s assume "P s"
  with assms [of "\<lparr>sconn = s, Version = ver\<rparr>"] obtain a s' where
    "op (cenv N h) \<lparr>sconn = s, Version = ver\<rparr> = Some (Ok a, s')" "Q a (sconn s')" "content (sconn s') = content s" by auto
  then show "\<exists>a s'. in_session N h ver op s = Some (Ok a, s') \<and> (case a of (a, _) \<Rightarrow> Q a) s' \<and> content s' = content s"
    by (auto simp: in_session_def)
qed

lemma keeps_simple:
  assumes "keeps_file E content S T req" and "S s"
  shows "\<exists>s'. simple_command E op req s = Some (Ok (), s') \<and> T s' \<and> content s' = content s"
  using assms simple_command_ok unfolding keeps_file_def by metis

lemma login_guest:
  assumes "guest_session E t vol fid content B L M T" and "\<And>s v. content (s\<lparr>Version := v\<rparr>) = content s"
    and "\<And>s v. B (s\<lparr>Version := v\<rparr>) = B s" and "B s"
    and "pickVersion (AFPVersions info) = Ok ver" and "uamNoAuth \<in> set (UAMs info)"
  shows "\<exists>s'. Login E C info [] pw s = Some (Ok (), s') \<and> L s' \<and> content s' = content s"
proof -
  let ?s = "s\<lparr>Version := ver\<rparr>"
  have "keeps_file E content B L (guest_request ver)" using assms(1) by (simp add: guest_session_def)
  then obtain r s' where "command E (guest_request ver) ?s = Some (Ok (r, 0), s')" "L s'" "content s' = content ?s"
    using assms(3,4) unfolding keeps_file_def by blast
  moreover from this have "login E uamNoAuth [] ?s = Some (Ok (r, 0), s')" by (simp add: login_def guest_request_def Let_def)
  ultimately show ?thesis
    using assms(2,5,6) by (simp add: Login_def Login_auth_def loginGuest_def io_res_def)
qed

lemma volume_guest:
  assumes "guest_session E t vol fid content B L M T"
  shows "L s \<Longrightarrow> \<exists>s'. OpenVolume E (tvolume t) s = Some (Ok vol, s') \<and> M s' \<and> content s' = content s"
    and "M s \<Longrightarrow> \<exists>s'. Volume_Close E vol s = Some (Ok (), s') \<and> L s' \<and> content s' = content s"
    and "L s \<Longrightarrow> \<exists>s'. Logout E s = Some (Ok (), s') \<and> B s' \<and> content s' = content s"
proof -
  assume "L s"
  then obtain b s' where "command E (open_volume_request (tvolume t)) s = Some (Ok (b, 0), s')"
      "open_volume_reply (tvolume t) b = Ok vol" "M s'" "content s' = content s"
    using assms unfolding guest_session_def by blast
  then show "\<exists>s'. OpenVolume E (tvolume t) s = Some (Ok vol, s') \<and> M s' \<and> content s' = content s"
    by (simp add: OpenVolume_def open_volume_request_def Let_def io_res_def)
next
  assume "M s"
  then show "\<exists>s'. Volume_Close E vol s = Some (Ok (), s') \<and> L s' \<and> content s' = content s"
    using keeps_simple assms unfolding Volume_Close_def close_volume_request_def guest_session_def Let_def by blast
next
  assume "L s"
  then show "\<exists>s'. Logout E s = Some (Ok (), s') \<and> B s' \<and> content s' = content s"
    using keeps_simple assms unfolding Logout_def guest_session_def by blast
qed

section \<open>Brackets\<close>

text \<open>
  \<open>brings content X P P' R k\<close>: the body \<open>k\<close> succeeds in every state of phase \<open>P\<close> whose content satisfies \<open>X\<close>,
  ends in phase \<open>P'\<close>, and takes the content and the local state where \<open>R\<close> says.
\<close>

definition brings :: "('s \<Rightarrow> bytes) \<Rightarrow> (bytes \<Rightarrow> bool) \<Rightarrow> ('s \<Rightarrow> bool) \<Rightarrow> ('s \<Rightarrow> bool) \<Rightarrow> (bytes \<Rightarrow> 'o \<Rightarrow> bytes \<Rightarrow> 'o \<Rightarrow> bool) \<Rightarrow>
    ('s \<times> 'o, 'a) io \<Rightarrow> bool" where
  "brings content X P P' R k \<longleftrightarrow> (\<forall>s w. P s \<longrightarrow> X (content s) \<longrightarrow>
     (\<exists>a s' w'. k (s, w) = Some (Ok a, (s', w')) \<and> P' s' \<and> R (content s) w (content s') w'))"

lemma bringsD: "brings content X P P' R k \<Longrightarrow> P s \<Longrightarrow> X (content s) \<Longrightarrow>
    \<exists>a s' w'. k (s, w) = Some (Ok a, (s', w')) \<and> P' s' \<and> R (content s) w (content s') w'"
  by (simp add: brings_def)

lemma net_brings:
  assumes "calm content P Q m" and "\<And>a. brings content X (Q a) P' R (k a)"
  shows "brings content X P P' R (io_bind (net m) k)"
  unfolding brings_def
proof (intro allI impI)
  fix s w assume P: "P s" "X (content s)"
  from calmD [OF assms(1) P(1)] obtain a s1 where 1: "m s = Some (Ok a, s1)" "Q a s1" "content s1 = content s" by blast
  from bringsD [OF assms(2) this(2)] P(2) 1 show "\<exists>b s' w'. io_bind (net m) k (s, w) = Some (Ok b, (s', w'))
      \<and> P' s' \<and> R (content s) w (content s') w'"
    by (simp add: net_def)
qed

lemma defer_brings:
  assumes "brings content X P Q R k" and "calm content Q (\<lambda>_. P') d"
  shows "brings content X P P' R (io_defer k (net d))"
  unfolding brings_def
proof (intro allI impI)
  fix s w assume P: "P s" "X (content s)"
  from bringsD [OF assms(1) P] obtain b s2 w2 where
    2: "k (s, w) = Some (Ok b, (s2, w2))" "Q s2" "R (content s) w (content s2) w2" by blast
  from calmD [OF assms(2) this(2)] obtain u s3 where "d s2 = Some (Ok u, s3)" "P' s3" "content s3 = content s2" by blast
  with 2 show "\<exists>b s' w'. io_defer k (net d) (s, w) = Some (Ok b, (s', w')) \<and> P' s' \<and> R (content s) w (content s') w'"
    by (simp add: net_def io_defer_def)
qed

section \<open>Sessions\<close>

lemma guest_hostD:
  assumes "guest_host N t vol fid content W A B L M T"
  shows "calm content W A (cdial N (thost t))"
    and "calm content (A h) (\<lambda>b s. guest_block b \<and> A h s) (cget_status N h)"
    and "calm content (A h) (\<lambda>_. B h) (copen_session N h)"
    and "calm content (A h) (\<lambda>_. W) (cclose N h)" and "calm content (B h) (\<lambda>_. W) (cclose N h)"
    and "guest_session (cenv N h) t vol fid (\<lambda>s. content (sconn s)) (\<lambda>s. B h (sconn s)) (\<lambda>s. L h (sconn s))
            (\<lambda>s. M h (sconn s)) (\<lambda>s. T h (sconn s))"
    and "group_runs_all (cenv N h)"
  using assms unfolding guest_host_def by blast+

definition guest_info :: "ServerInfo \<Rightarrow> bool" where
  "guest_info info \<longleftrightarrow> (\<exists>ver. pickVersion (AFPVersions info) = Ok ver) \<and> uamNoAuth \<in> set (UAMs info)"

lemma fetchStatus_guest:
  assumes "guest_host N t vol fid content W A B L M T"
  shows "calm content W (\<lambda>info s. guest_info info \<and> W s) (fetchStatus N (thost t))"
  unfolding fetchStatus_def
proof (rule calm_bind [OF guest_hostD(1) [OF assms]], rule calm_defer, rule calm_bind [OF guest_hostD(2) [OF assms]])
  fix h block
  show "calm content (\<lambda>s. guest_block block \<and> A h s) (\<lambda>info s. guest_info info \<and> A h s) (io_res (ParseServerInfo block))"
    by (auto simp: calm_def guest_block_def guest_info_def io_res_def)
next
  fix h info
  show "calm content (\<lambda>s. guest_info info \<and> A h s) (\<lambda>_ s. guest_info info \<and> W s) (cclose N h)"
    using guest_hostD(4) [OF assms] by (auto simp: calm_def)
qed

lemma connect_guest:
  assumes N: "guest_host N t vol fid content W A B L M T" and "tusername t = []"
  shows "calm content W (\<lambda>(h, _). L h) (connect N C t)"
  unfolding connect_def
proof (rule calm_bind [OF fetchStatus_guest [OF N]], rule calm_bind)
  fix info
  show "calm content (\<lambda>s. guest_info info \<and> W s) (\<lambda>h s. guest_info info \<and> A h s) (cdial N (thost t))"
    using guest_hostD(1) [OF N] by (auto simp: calm_def)
next
  fix info h
  have op: "calm content (\<lambda>s. guest_info info \<and> A h s) (\<lambda>_ s. guest_info info \<and> B h s) (copen_session N h)"
    using guest_hostD(3) [OF N] by (auto simp: calm_def)
  have lg: "calm content (\<lambda>s. guest_info info \<and> B h s) (\<lambda>(_, _). L h)
      (in_session N h [] (\<lambda>E. Login E C info (tusername t) (tpassword t)))"
    unfolding assms(2)
    by (rule in_session_calm) (use login_guest [OF guest_hostD(6) [OF N]] in \<open>fastforce simp: guest_info_def\<close>)
  show "calm content (\<lambda>s. guest_info info \<and> A h s) (\<lambda>(h, _). L h)
      (io_bind (or_close N h (copen_session N h)) (\<lambda>_.
       io_bind (or_close N h (in_session N h [] (\<lambda>E. Login E C info (tusername t) (tpassword t)))) (\<lambda>(_, ver).
       io_ret (h, ver))))"
    by (rule calm_bind [OF calm_or_close [OF op]], rule calm_bind [OF calm_or_close [OF lg]])
      (auto simp: calm_def io_ret_def split: prod.splits)
qed

lemma with_session_guest:
  assumes N: "guest_host N t vol fid content W A B L M T" and "tusername t = []"
    and "\<And>h ver. brings content X (L h) (L h) R (k h ver)"
  shows "brings content X W W R (with_session N C t k)"
  unfolding with_session_def
proof (rule net_brings [OF connect_guest [OF assms(1,2)]], unfold split_def,
    rule defer_brings [OF defer_brings [OF assms(3)]])
  fix a :: "nat \<times> string"
  have "calm content (L (fst a)) (\<lambda>(_, _). B (fst a)) (in_session N (fst a) (snd a) Logout)"
    by (rule in_session_calm) (use volume_guest(3) [OF guest_hostD(6) [OF N]] in blast)
  then show "calm content (L (fst a)) (\<lambda>_. B (fst a)) (in_session N (fst a) (snd a) Logout)" by (simp add: split_def)
  show "calm content (B (fst a)) (\<lambda>_. W) (cclose N (fst a))" by (rule guest_hostD(5) [OF N])
qed

lemma with_open_volume_guest:
  assumes N: "guest_host N t vol fid content W A B L M T"
    and "brings content X (M h) (M h) R (k vol)"
  shows "brings content X (L h) (L h) R (with_open_volume N h ver (tvolume t) k)"
  unfolding with_open_volume_def
proof (rule net_brings)
  show "calm content (L h) (\<lambda>(v, _) s. v = vol \<and> M h s) (in_session N h ver (\<lambda>E. OpenVolume E (tvolume t)))"
    by (rule in_session_calm) (use volume_guest(1) [OF guest_hostD(6) [OF N]] in blast)
next
  fix a :: "Volume \<times> string"
  have "calm content (M h) (\<lambda>(_, _). L h) (in_session N h ver (\<lambda>E. Volume_Close E vol))"
    by (rule in_session_calm) (use volume_guest(2) [OF guest_hostD(6) [OF N]] in blast)
  then have "brings content X (M h) (L h) R (io_defer (k vol) (net (in_session N h ver (\<lambda>E. Volume_Close E vol))))"
    by (intro defer_brings [OF assms(2)]) (simp add: split_def)
  then show "brings content X ((\<lambda>(v, _) s. v = vol \<and> M h s) a) (L h) R
      (case a of (v, _) \<Rightarrow> io_defer (k v) (net (in_session N h ver (\<lambda>E. Volume_Close E v))))"
    by (cases a) (auto simp: brings_def)
qed

lemma session_op_brings:
  assumes "calm content P (\<lambda>(a, _). Q a) (in_session N h ver op)" and "\<And>a. brings content X (Q a) P' R (k a)"
  shows "brings content X P P' R (io_bind (session_op N h ver op) k)"
proof -
  have "io_bind (session_op N h ver op) k = io_bind (net (in_session N h ver op)) (\<lambda>(a, _). k a)"
    by (rule ext) (auto simp: session_op_def io_defs split: option.splits prod.splits res.splits)
  moreover have "brings content X P P' R (io_bind (net (in_session N h ver op)) (\<lambda>(a, _). k a))"
    by (rule net_brings [OF assms(1)]) (use assms(2) in \<open>simp add: split_def\<close>)
  ultimately show ?thesis by simp
qed

lemma guest_file:
  assumes "guest_host N t vol fid content W A B L M T"
  shows "holds_file (cenv N h) vol RootDirID (tpath t) fid (\<lambda>s. content (sconn s)) (\<lambda>s. M h (sconn s)) (\<lambda>s. T h (sconn s))"
  using guest_hostD(6) [OF assms, of h] by (simp add: guest_session_def)

lemma guest_fork:
  assumes "guest_host N t vol fid content W A B L M T"
  shows "keeps_fork (cenv N h) vol RootDirID (tpath t) fid (\<lambda>s. content (sconn s)) (\<lambda>s. M h (sconn s)) (\<lambda>s. T h (sconn s))"
  using guest_file [OF assms, of h] by (simp add: holds_file_def)

lemma open_fork_guest:
  assumes N: "guest_host N t vol fid content W A B L M T"
    and k: "\<And>f. plain_fork fid f \<Longrightarrow> brings content X (T h) (T h) R (k f)"
  shows "brings content X (M h) (M h) R
     (io_bind (session_op N h ver (\<lambda>E. openFork E vol RootDirID (tpath t) mode)) (\<lambda>fork.
        io_defer (k fork) (net (in_session N h ver (\<lambda>E. Fork_Close E fork)))))"
proof (rule session_op_brings)
  show "calm content (M h) (\<lambda>(f, _) s. plain_fork fid f \<and> T h s)
      (in_session N h ver (\<lambda>E. openFork E vol RootDirID (tpath t) mode))"
    by (rule in_session_calm) (use openFork_holds [OF guest_fork [OF N]] in \<open>fastforce simp: plain_fork_def\<close>)
next
  fix f
  show "brings content X (\<lambda>s. plain_fork fid f \<and> T h s) (M h) R
      (io_defer (k f) (net (in_session N h ver (\<lambda>E. Fork_Close E f))))"
  proof (cases "plain_fork fid f")
    case True
    then have "keeps_file (cenv N h) (\<lambda>s. content (sconn s)) (\<lambda>s. T h (sconn s)) (\<lambda>s. M h (sconn s)) (close_request f)"
      using guest_fork [OF N, of h] by (simp add: keeps_fork_def)
    then have "calm content (T h) (\<lambda>(_, _). M h) (in_session N h ver (\<lambda>E. Fork_Close E f))"
      by (intro in_session_calm) (use keeps_simple in \<open>fastforce simp: Fork_Close_def\<close>)
    with k [OF True] True show ?thesis by (intro defer_brings) (auto simp: split_def brings_def)
  qed (simp add: brings_def)
qed

section \<open>Put and get\<close>

lemma copy_in_guest:
  assumes N: "guest_host N t vol fid content W A B L M T" and f: "plain_fork fid f" and "length b < 2 ^ 63" and "T h s"
  shows "\<exists>n s'. copy_in N h ver f (b, EOF) (s, w) = Some (Ok n, (s', w)) \<and> T h s' \<and> content s' = write_at (content s) 0 b"
proof -
  let ?s = "\<lparr>sconn = s, Version = ver\<rparr>"
  have acc: "accepts_writes (cenv N h) f (\<lambda>s. content (sconn s)) (\<lambda>s. T h (sconn s))"
    using guest_fork [OF N, of h] f by (simp add: keeps_fork_def)
  have "writeChunkSize (cenv N h) f ?s \<le> readChunkSize"
    using f by (simp add: writeChunkSize_def plain_fork_def readChunkSize_def Let_def)
  then have "writeChunkSize (cenv N h) f ?s * maxParallel f < 2 ^ 63"
    using f by (simp add: plain_fork_def readChunkSize_def maxConcurrentReads_def)
  from readFrom_content [OF acc guest_hostD(7) [OF N] default_fork_ok [OF f] _ assms(3) this] assms(4)
  obtain s' where "readFrom (cenv N h) f (?s, (b, EOF)) = Some (Ok (int (length b), None), (s', ([], EOF)))"
    "T h (sconn s')" "content (sconn s') = write_at (content s) 0 b" by auto
  then show ?thesis by (simp add: copy_in_def ReadFromContext_def)
qed

lemma copy_out_guest:
  assumes N: "guest_host N t vol fid content W A B L M T" and f: "plain_fork fid f" and "length (content s) < 2 ^ 62"
    and "T h s" and "writer_accepts wr out"
  shows "\<exists>n s' w'. copy_out N h ver f wr (s, w) = Some (Ok n, (s', w')) \<and> T h s' \<and> content s' = content s
    \<and> out w' = out w @ content s"
proof -
  let ?s = "\<lparr>sconn = s, Version = ver\<rparr>"
  have r: "reads_file (cenv N h) f (content s) (\<lambda>s'. T h (sconn s') \<and> content (sconn s') = content s)"
    using guest_fork [OF N, of h] f by (simp add: keeps_fork_def)
  have "int (length (content s)) + chunkSize f * maxParallel f < 2 ^ 63"
    using f assms(3) by (simp add: plain_fork_def readChunkSize_def maxConcurrentReads_def)
  from writeTo_file [OF r guest_hostD(7) [OF N] _ assms(5) this, of ?s w] default_fork_ok [OF f] assms(4)
  obtain s' w' where "writeTo (cenv N h) f wr (?s, w) = Some (Ok (int (length (content s)), None), (s', w'))"
    "T h (sconn s')" "content (sconn s') = content s" "out w' = out w @ content s" by (auto simp: wfork_ok_def)
  then show ?thesis by (simp add: copy_out_def WriteToContext_def)
qed

lemma copy_in_brings:
  assumes "guest_host N t vol fid content W A B L M T" and "plain_fork fid f" and "length b < 2 ^ 63"
  shows "brings content (\<lambda>_. True) (T h) (T h) (\<lambda>c w c' w'. c' = write_at c 0 b \<and> w' = w)
      (io_bind (copy_in N h ver f (b, EOF)) (\<lambda>_. io_ret ()))"
  unfolding brings_def
proof (intro allI impI)
  fix s w assume "T h s"
  from copy_in_guest [OF assms this, of ver w] obtain n s' where
    "copy_in N h ver f (b, EOF) (s, w) = Some (Ok n, (s', w))" "T h s'" "content s' = write_at (content s) 0 b" by blast
  then show "\<exists>a s' w'. io_bind (copy_in N h ver f (b, EOF)) (\<lambda>_. io_ret ()) (s, w) = Some (Ok a, (s', w'))
      \<and> T h s' \<and> content s' = write_at (content s) 0 b \<and> w' = w"
    by (simp add: io_ret_def)
qed

lemma create_brings:
  fixes k :: "('s \<times> 'o, 'a) io"
  assumes N: "guest_host N t vol fid content W A B L M T" and k: "brings content X (M h) (M h) R k" and "X []"
  shows "brings content (\<lambda>_. True) (M h) (M h) (\<lambda>_. R [])
     (io_bind (session_op N h ver (\<lambda>E. CreateFile E vol RootDirID (tpath t) True)) (\<lambda>_. k))"
  unfolding brings_def
proof (intro allI impI)
  fix s and w :: 'o assume "M h s"
  let ?s = "\<lparr>sconn = s, Version = ver\<rparr>"
  have "M h (sconn ?s)" using \<open>M h s\<close> by simp
  then obtain r s1 where "command (cenv N h) (create_request (cenv N h) vol RootDirID (tpath t) True) ?s = Some (Ok (r, 0), s1)"
    and 1: "M h (sconn s1)" "content (sconn s1) = []"
    using guest_file [OF N, of h] unfolding holds_file_def by blast
  then have "CreateFile (cenv N h) vol RootDirID (tpath t) True ?s = Some (Ok (), s1)"
    unfolding CreateFile_def by (intro simple_command_ok)
  then have "session_op N h ver (\<lambda>E. CreateFile E vol RootDirID (tpath t) True) (s, w) = Some (Ok (), (sconn s1, w))"
    by (simp add: session_op_def in_session_def net_def io_ret_def)
  with bringsD [OF k 1(1), of w] 1(2) assms(3)
  show "\<exists>a s' w'. io_bind (session_op N h ver (\<lambda>E. CreateFile E vol RootDirID (tpath t) True)) (\<lambda>_. k) (s, w) =
      Some (Ok a, (s', w')) \<and> M h s' \<and> R [] w (content s') w'" by simp
qed

lemma put_guest:
  assumes N: "guest_host N t vol fid content W A B L M T" and "parseTarget up raw = Ok t" and "tusername t = []"
    and "tvolume t \<noteq> []" and "tpath t \<noteq> []" and "length b < 2 ^ 63" and "lopen Lo loc w = Ok (b, EOF)" and "W s"
  shows "\<exists>s'. runPut N C up Lo [loc, raw] (s, w) = Some (Ok (), (s', w)) \<and> W s' \<and> content s' = b"
proof -
  note fork = copy_in_brings [OF N _ assms(6)]
  have wr: "write_at [] 0 b = b" by (cases "b = []") (simp_all add: write_at_def)
  have "brings content (\<lambda>_. True) W W (\<lambda>_ w c' w'. c' = write_at [] 0 b \<and> w' = w)
      (with_session N C t (\<lambda>h ver. with_open_volume N h ver (tvolume t) (\<lambda>vol.
            io_bind (session_op N h ver (\<lambda>E. CreateFile E vol RootDirID (tpath t) True)) (\<lambda>_.
            io_bind (session_op N h ver (\<lambda>E. openFork E vol RootDirID (tpath t) (forkRead OR forkWrite))) (\<lambda>fork.
              io_defer (io_bind (copy_in N h ver fork (b, EOF)) (\<lambda>_. io_ret ()))
                (net (in_session N h ver (\<lambda>E. Fork_Close E fork))))))))"
    by (rule with_session_guest [OF N assms(3)], rule with_open_volume_guest [OF N], rule create_brings [OF N _ TrueI],
        rule open_fork_guest [OF N], erule fork)
  from bringsD [OF this assms(8) TrueI, of w] show ?thesis
    using assms(2,4,5,7) by (simp add: runPut_def io_res_def OpenForkRW_def wr)
qed

text \<open>
  The local file of \<^verbatim>\<open>get\<close>: \<open>out\<close> is what it holds. Creating it empties it, a write appends, closing keeps it.
\<close>

definition local_file :: "'o local \<Rightarrow> string \<Rightarrow> ('o \<Rightarrow> bytes) \<Rightarrow> bool" where
  "local_file Lo loc out \<longleftrightarrow>
     (\<forall>w. fst (lcreate Lo loc w) = None \<and> out (snd (lcreate Lo loc w)) = []) \<and>
     writer_accepts (lwrite Lo loc) out \<and>
     (\<forall>w. fst (lclose Lo loc w) = None \<and> out (snd (lclose Lo loc w)) = out w)"

lemma copy_out_brings:
  assumes N: "guest_host N t vol fid content W A B L M T" and f: "plain_fork fid f" and loc: "local_file Lo loc out"
  shows "brings content (\<lambda>c. length c < 2 ^ 62) (T h) (T h) (\<lambda>c w c' w'. c' = c \<and> out w' = c)
     (io_bind (local_op (lcreate Lo loc)) (\<lambda>_.
      close_after (copy_out N h ver f (lwrite Lo loc)) (local_op (lclose Lo loc))))" (is "brings _ _ _ _ _ ?k")
  unfolding brings_def
proof (intro allI impI)
  fix s w assume s: "T h s" "length (content s) < 2 ^ 62"
  define w1 where "w1 = snd (lcreate Lo loc w)"
  then have c: "lcreate Lo loc w = (None, w1)" "out w1 = []" using loc by (simp_all add: local_file_def prod_eq_iff)
  have "writer_accepts (lwrite Lo loc) out" using loc by (simp add: local_file_def)
  from copy_out_guest [OF N f s(2,1) this, of ver w1] c(2) obtain n s' w2 where
    "copy_out N h ver f (lwrite Lo loc) (s, w1) = Some (Ok n, (s', w2))" "T h s'" "content s' = content s"
    "out w2 = content s" by auto
  moreover define w3 where "w3 = snd (lclose Lo loc w2)"
  then have "lclose Lo loc w2 = (None, w3)" "out w3 = out w2" using loc by (simp_all add: local_file_def prod_eq_iff)
  ultimately show "\<exists>a s' w'. ?k (s, w) = Some (Ok a, (s', w')) \<and> T h s' \<and> content s' = content s \<and> out w' = content s"
    using c by (simp add: local_op_def close_after_def)
qed

lemma get_guest:
  assumes N: "guest_host N t vol fid content W A B L M T" and "parseTarget up raw = Ok t" and "tusername t = []"
    and "tvolume t \<noteq> []" and "tpath t \<noteq> []" and "loc \<notin> {[], ''.'', ''/''}" and loc: "local_file Lo loc out"
    and "length (content s) < 2 ^ 62" and "W s"
  shows "\<exists>s' w'. runGet N C up Lo [raw, loc] (s, w) = Some (Ok (), (s', w')) \<and> W s' \<and> content s' = content s
    \<and> out w' = content s"
proof -
  note fork = copy_out_brings [OF N _ loc]
  have "brings content (\<lambda>c. length c < 2 ^ 62) W W (\<lambda>c w c' w'. c' = c \<and> out w' = c)
      (with_session N C t (\<lambda>h ver. with_open_volume N h ver (tvolume t) (\<lambda>vol.
            io_bind (session_op N h ver (\<lambda>E. openFork E vol RootDirID (tpath t) forkRead)) (\<lambda>fork.
              io_defer (io_bind (local_op (lcreate Lo loc)) (\<lambda>_.
                  close_after (copy_out N h ver fork (lwrite Lo loc)) (local_op (lclose Lo loc))))
                (net (in_session N h ver (\<lambda>E. Fork_Close E fork)))))))"
    by (rule with_session_guest [OF N assms(3)], rule with_open_volume_guest [OF N],
        rule open_fork_guest [OF N], erule fork)
  from bringsD [OF this assms(9,8), of w] show ?thesis
    using assms(2,4,5,6) by (simp add: runGet_def withFork_cli_def get_local_def io_res_def OpenFork_def)
qed

end
