(* ===== verification/Cli_Transfer_Dsi.thy ===== *)
theory Cli_Transfer_Dsi
  imports Cli_Transfer
begin

text \<open>
  The commands \<^verbatim>\<open>put\<close> and \<^verbatim>\<open>get\<close> over the client's own DSI connections: the hypotheses are about the server and
  the transport alone.
\<close>

section \<open>One connection of the program\<close>

text \<open>Connection \<open>h\<close> is the last one dialed, alive, and its session has the quantum \<open>q\<close>.\<close>

definition ready :: "(nat \<Rightarrow> 'w \<Rightarrow> bool) \<Rightarrow> 32 word \<Rightarrow> nat \<Rightarrow> 'w hosts \<Rightarrow> bool" where
  "ready S q h s \<longleftrightarrow> hnext s = Suc h \<and> live (S h) (dsi_of s h) \<and> ServerQuantum (dconn (hconns s h)) = q"

lemma dsi_of_simps [simp]:
  "dconn (dsi_of s h) = dconn (hconns s h)" "dchan (dsi_of s h) = dchan (hconns s h)"
  "dinp (dsi_of s h) = dinp (hconns s h)" "dworld (dsi_of s h) = hworld s"
  by (simp_all add: dsi_of_def)

lemma at_conn_run:
  assumes "m (dsi_of s h) = Some (r, c)"
  shows "\<exists>s'. at_conn h m s = Some (r, s') \<and> dsi_of s' h = c \<and> hnext s' = hnext s"
  using assms by (auto simp: at_conn_def dsi_of_def)

lemma ready_run:
  assumes "m (dsi_of s h) = Some (r, c)" and "hnext s = Suc h" and "live (S h) c" and "ServerQuantum (dconn c) = q"
  shows "\<exists>s'. at_conn h m s = Some (r, s') \<and> ready S q h s' \<and> hworld s' = dworld c"
  using at_conn_run [of m s h, OF assms(1)] assms(2-4) unfolding ready_def by (metis dsi_of_simps(1,4))

lemma ready_request:
  assumes "dsi_serves (W h) f st (S h)" and "ready S q h s" and "length p < 2 ^ 32"
    and "f cmd off p (st (hworld s)) = ((b, code), v)" and "length b \<le> maxPayload"
  shows "\<exists>hd s'. at_conn h (request (W h) cmd off p) s = Some (Ok (answer hd b code), s') \<and> ready S q h s' \<and> st (hworld s') = v"
proof -
  obtain hd c where "request (W h) cmd off p (dsi_of s h) = Some (Ok (answer hd b code), c)" "live (S h) c" "st (dworld c) = v"
      "ServerQuantum (dconn c) = q"
    using request_serves [OF assms(1) _ assms(3) _ assms(5), of "dsi_of s h" cmd off code v] assms(2,4)
    unfolding ready_def by auto
  with ready_run [of "request (W h) cmd off p" s h _ _ S q] assms(2) show ?thesis unfolding ready_def by metis
qed

lemma client_env_sim:
  assumes "dsi_serves (W h) f st (S h)"
  shows "env_sim (cenv (dsi_client W nfd nfc order tcp) h) (direct_env q nfd nfc order' f) (ready S q h) (\<lambda>s. st (hworld s))"
  unfolding env_sim_def
proof (intro conjI allI impI)
  fix s cmd off p r v
  assume s: "ready S q h s" and len: "length p < 2 ^ 32"
    and run: "conn_request (direct_env q nfd nfc order' f) cmd off p (st (hworld s)) = Some (Ok r, v)"
  obtain b code where f: "f cmd off p (st (hworld s)) = ((b, code), v)" and r: "r = answer zero_header b code"
      and b: "length b \<le> maxPayload"
    using run by (auto simp: direct_env_def split: prod.splits if_splits)
  from ready_request [where S = S and st = st and W = W and f = f, OF assms s len f b] r
  show "\<exists>r' s'. conn_request (cenv (dsi_client W nfd nfc order tcp) h) cmd off p s = Some (Ok r', s') \<and> Payload r' = Payload r \<and>
      ErrCode (Header r') = ErrCode (Header r) \<and> ready S q h s' \<and> st (hworld s') = v"
    by (fastforce simp: dsi_client_def answer_def)
qed (simp_all add: dsi_client_def direct_env_def ready_def)

section \<open>The session over the wire\<close>

lemma length_guest_requests:
  "length (guest_request ver) < 2 ^ 32" "length (open_volume_request name) < 2 ^ 32" "length (close_volume_request v) < 2 ^ 32"
  by (simp_all add: guest_request_def open_volume_request_def close_volume_request_def builder_defs builder_pascal_def
      uamNoAuth_def Let_def)

lemma guest_session_sim:
  assumes "env_sim E E' R al" and g: "guest_session E' t vol fid content B L M T" and "path_ok (norm_nfd E') (tpath t)"
  shows "guest_session E t vol fid (\<lambda>s. content (abs_session al s)) (lifted R al B) (lifted R al L) (lifted R al M) (lifted R al T)"
  unfolding guest_session_def
proof (intro conjI allI impI)
  note G = g [unfolded guest_session_def]
  note len = length_guest_requests
  show "keeps_file E (\<lambda>s. content (abs_session al s)) (lifted R al B) (lifted R al L) (guest_request ver)" for ver
    by (rule keeps_file_sim [OF assms(1) _ len(1)]) (use G in blast)
  show "keeps_file E (\<lambda>s. content (abs_session al s)) (lifted R al M) (lifted R al L) (close_volume_request vol)"
    by (rule keeps_file_sim [OF assms(1) _ len(3)]) (use G in blast)
  show "keeps_file E (\<lambda>s. content (abs_session al s)) (lifted R al L) (lifted R al B) [cmdLogout, 0]"
    by (rule keeps_file_sim [OF assms(1)]) (use G in simp_all)
  show "holds_file E vol RootDirID (tpath t) fid (\<lambda>s. content (abs_session al s)) (lifted R al M) (lifted R al T)"
    by (rule holds_file_sim [OF assms(1) _ assms(3)]) (use G in blast)
  fix s assume s: "lifted R al L s"
  then obtain b v where "command E' (open_volume_request (tvolume t)) (abs_session al s) = Some (Ok (b, 0), v)"
      "open_volume_reply (tvolume t) b = Ok vol" "M v" "content v = content (abs_session al s)"
    using G unfolding lifted_def by blast
  with command_sim(1) [OF assms(1) _ len(2)] s
  show "\<exists>b s'. command E (open_volume_request (tvolume t)) s = Some (Ok (b, 0), s') \<and> open_volume_reply (tvolume t) b = Ok vol
      \<and> lifted R al M s' \<and> content (abs_session al s') = content (abs_session al s)"
    unfolding lifted_def by metis
qed

section \<open>A server and its transport\<close>

text \<open>
  What the commands rely on of the machine at the other end. \<open>f h\<close> answers the requests of connection \<open>h\<close>,
  \<open>st w\<close> is the state of the server in the world \<open>w\<close>; \<open>up n w\<close> says that \<open>n\<close> connections came and went and the
  next may be dialed, \<open>S h w\<close> that the transport of connection \<open>h\<close> works. The server tells its status and opens
  a session in phase \<open>A\<close>, which the client may end by closing; inside, the session is a guest's.
\<close>

definition server_addr :: "target \<Rightarrow> string" where
  "server_addr t = (if \<not> has_port (thost t) then join_host_port (thost t) ''548'' else thost t)"

definition afp_server :: "(nat \<Rightarrow> 'w net) \<Rightarrow> (string \<Rightarrow> 'w \<Rightarrow> unit res \<times> 'w) \<Rightarrow> (nat \<Rightarrow> 'v server) \<Rightarrow> ('w \<Rightarrow> 'v) \<Rightarrow> (nat \<Rightarrow> 'w \<Rightarrow> bool) \<Rightarrow>
    (nat \<Rightarrow> 'w \<Rightarrow> bool) \<Rightarrow> 32 word \<Rightarrow> (string \<Rightarrow> string) \<Rightarrow> target \<Rightarrow> Volume \<Rightarrow> 16 word \<Rightarrow> ('v \<Rightarrow> bytes) \<Rightarrow>
    ('v \<Rightarrow> bool) \<Rightarrow> ('v \<Rightarrow> bool) \<Rightarrow> ('v \<Rightarrow> bool) \<Rightarrow> ('v \<Rightarrow> bool) \<Rightarrow> ('v \<Rightarrow> bool) \<Rightarrow> bool" where
  "afp_server W tcp f st S up q nfd t vol fid content A B L M T \<longleftrightarrow>
     (\<forall>n w. up n w \<longrightarrow> (\<exists>w'. tcp (server_addr t) w = (Ok (), w') \<and> S n w' \<and> A (st w') \<and> content (st w') = content (st w))) \<and>
     (\<forall>h. dsi_serves (W h) (f h) st (S h)) \<and>
     (\<forall>h v. A v \<longrightarrow> (\<exists>b code v'. f h CmdGetStatus 0 [] v = ((b, code), v') \<and> length b \<le> maxPayload \<and> guest_block b \<and>
        A v' \<and> content v' = content v)) \<and>
     (\<forall>h v. A v \<longrightarrow> (\<exists>b code v'. f h CmdOpenSession 0 open_payload v = ((b, code), v') \<and> length b \<le> maxPayload \<and>
        open_options b 0 = (q, None) \<and> B v' \<and> content v' = content v)) \<and>
     (\<forall>h w i. S h w \<longrightarrow> A (st w) \<or> B (st w) \<longrightarrow> (\<exists>e w'. nc_Write (W h) (packet (control_header CmdCloseSession i) []) w = (e, w')
        \<and> up (Suc h) w' \<and> content (st w') = content (st w))) \<and>
     (\<forall>h nfc order. guest_session (direct_env q nfd nfc order (f h)) t vol fid (\<lambda>s. content (sconn s))
        (\<lambda>s. B (sconn s)) (\<lambda>s. L (sconn s)) (\<lambda>s. M (sconn s)) (\<lambda>s. T (sconn s)))"

text \<open>The phases of the connections, over those of the server.\<close>

definition idle_hosts :: "(nat \<Rightarrow> 'w \<Rightarrow> bool) \<Rightarrow> 'w hosts \<Rightarrow> bool" where
  "idle_hosts up s \<longleftrightarrow> up (hnext s) (hworld s)"

definition in_phase :: "('w \<Rightarrow> 'v) \<Rightarrow> (nat \<Rightarrow> 'w \<Rightarrow> bool) \<Rightarrow> 32 word \<Rightarrow> ('v \<Rightarrow> bool) \<Rightarrow> nat \<Rightarrow> 'w hosts \<Rightarrow> bool" where
  "in_phase st S q P h s \<longleftrightarrow> ready S q h s \<and> P (st (hworld s))"

lemma afp_serverD:
  assumes "afp_server W tcp f st S up q nfd t vol fid content A B L M T"
  shows "up n w \<Longrightarrow> \<exists>w'. tcp (server_addr t) w = (Ok (), w') \<and> S n w' \<and> A (st w') \<and> content (st w') = content (st w)"
    and "dsi_serves (W h) (f h) st (S h)"
    and "A v \<Longrightarrow> \<exists>b code v'. f h CmdGetStatus 0 [] v = ((b, code), v') \<and> length b \<le> maxPayload \<and> guest_block b \<and>
        A v' \<and> content v' = content v"
    and "A v \<Longrightarrow> \<exists>b code v'. f h CmdOpenSession 0 open_payload v = ((b, code), v') \<and> length b \<le> maxPayload \<and>
        open_options b 0 = (q, None) \<and> B v' \<and> content v' = content v"
    and "S h w \<Longrightarrow> A (st w) \<or> B (st w) \<Longrightarrow> \<exists>e w'. nc_Write (W h) (packet (control_header CmdCloseSession i) []) w = (e, w')
        \<and> up (Suc h) w' \<and> content (st w') = content (st w)"
    and "guest_session (direct_env q nfd nfc order (f h)) t vol fid (\<lambda>s. content (sconn s))
        (\<lambda>s. B (sconn s)) (\<lambda>s. L (sconn s)) (\<lambda>s. M (sconn s)) (\<lambda>s. T (sconn s))"
  using assms unfolding afp_server_def by blast+

lemma dial_phase:
  assumes "afp_server W tcp f st S up q nfd t vol fid content A B L M T"
  shows "calm (\<lambda>s. content (st (hworld s))) (idle_hosts up) (in_phase st S 0 A) (Dial tcp (thost t))"
  unfolding calm_def
proof (intro allI impI)
  fix s assume "idle_hosts up s"
  then obtain w' where "tcp (server_addr t) (hworld s) = (Ok (), w')" "S (hnext s) w'" "A (st w')"
      "content (st w') = content (st (hworld s))"
    using afp_serverD(1) [OF assms] unfolding idle_hosts_def by blast
  then show "\<exists>a s'. Dial tcp (thost t) s = Some (Ok a, s') \<and> in_phase st S 0 A a s' \<and>
      content (st (hworld s')) = content (st (hworld s))"
    by (simp add: Dial_def server_addr_def in_phase_def ready_def live_def dsi_ok_def conn_ok_def fresh_dsi_def NewConn_def
        dsi_of_def)
qed

lemma status_phase:
  assumes "afp_server W tcp f st S up q nfd t vol fid content A B L M T"
  shows "calm (\<lambda>s. content (st (hworld s))) (in_phase st S 0 A h) (\<lambda>b s. guest_block b \<and> in_phase st S 0 A h s)
     (at_conn h (GetStatus (W h)))"
  unfolding calm_def
proof (intro allI impI)
  fix s assume s: "in_phase st S 0 A h s"
  then obtain b code v' where f: "f h CmdGetStatus 0 [] (st (hworld s)) = ((b, code), v')" "length b \<le> maxPayload"
      "guest_block b" "A v'" "content v' = content (st (hworld s))"
    using afp_serverD(3) [OF assms] unfolding in_phase_def by blast
  obtain hd s' where "at_conn h (request (W h) CmdGetStatus 0 []) s = Some (Ok (answer hd b code), s')" "ready S 0 h s'"
      "st (hworld s') = v'"
    using ready_request [where S = S and st = st and W = W and f = "f h" and q = 0, OF afp_serverD(2) [OF assms] _ _ f(1,2)] s
    unfolding in_phase_def by auto
  with f(3-5) show "\<exists>a s'. at_conn h (GetStatus (W h)) s = Some (Ok a, s') \<and> (guest_block a \<and> in_phase st S 0 A h s') \<and>
      content (st (hworld s')) = content (st (hworld s))"
    by (auto simp: at_conn_def GetStatus_def Request_def in_phase_def answer_def io_defs split: option.splits res.splits)
qed

lemma open_phase:
  assumes "afp_server W tcp f st S up q nfd t vol fid content A B L M T"
  shows "calm (\<lambda>s. content (st (hworld s))) (in_phase st S 0 A h) (\<lambda>_. in_phase st S q B h) (at_conn h (OpenSession (W h)))"
  unfolding calm_def
proof (intro allI impI)
  fix s assume s: "in_phase st S 0 A h s"
  then obtain b code v' where f: "f h CmdOpenSession 0 open_payload (st (hworld s)) = ((b, code), v')" "length b \<le> maxPayload"
      "open_options b 0 = (q, None)" "B v'" "content v' = content (st (hworld s))"
    using afp_serverD(4) [OF assms] unfolding in_phase_def by blast
  have "length open_payload < 2 ^ 32" by (simp add: open_payload_def)
  then obtain hd c where c: "request (W h) CmdOpenSession 0 open_payload (dsi_of s h) = Some (Ok (answer hd b code), c)"
      "live (S h) c" "st (dworld c) = v'" "ServerQuantum (dconn c) = 0"
    using request_serves [OF afp_serverD(2) [OF assms, of h] _ _ _ f(2), of "dsi_of s h" open_payload CmdOpenSession 0 code v'] s f(1)
    unfolding in_phase_def ready_def by auto
  let ?c = "c\<lparr>dconn := (dconn c)\<lparr>ServerQuantum := q\<rparr>\<rparr>"
  have "OpenSession (W h) (dsi_of s h) = Some (Ok (), ?c)"
    using c(1,4) f(3) by (simp add: OpenSession_def Request_def answer_def)
  moreover have "live (S h) ?c" using c(2) by (simp add: live_def dsi_ok_def conn_ok_def)
  ultimately have "\<exists>s'. at_conn h (OpenSession (W h)) s = Some (Ok (), s') \<and> ready S q h s' \<and> hworld s' = dworld ?c"
    using s by (intro ready_run) (auto simp: in_phase_def ready_def)
  then show "\<exists>a s'. at_conn h (OpenSession (W h)) s = Some (Ok a, s') \<and> in_phase st S q B h s' \<and>
      content (st (hworld s')) = content (st (hworld s))"
    using c(3) f(4,5) by (auto simp: in_phase_def)
qed

lemma close_phase:
  assumes "afp_server W tcp f st S up q nfd t vol fid content A B L M T" and "P = A \<or> P = B"
  shows "calm (\<lambda>s. content (st (hworld s))) (in_phase st S q' P h) (\<lambda>_. idle_hosts up) (at_conn h (conn_Close (W h)))"
  unfolding calm_def
proof (intro allI impI)
  fix s assume s: "in_phase st S q' P h s"
  let ?i = "nextID (dconn (hconns s h)) + 1"
  obtain e w' where w: "nc_Write (W h) (packet (control_header CmdCloseSession ?i) []) (hworld s) = (e, w')"
      "up (Suc h) w'" "content (st w') = content (st (hworld s))"
    using afp_serverD(5) [OF assms(1), of h "hworld s" ?i] s assms(2) by (auto simp: in_phase_def ready_def live_def)
  have "\<exists>c. conn_Close (W h) (dsi_of s h) = Some (Ok (), c) \<and> dworld c = w'"
    using w(1) s by (cases e) (simp_all add: in_phase_def ready_def live_def dsi_ok_def conn_ok_def conn_Close_def conn_newID_def newID_def on_conn_def send_def io_catch_def
        io_ret_def nc_Close_def conn_fail_def split: option.split)
  with at_conn_run [of "conn_Close (W h)" s h] obtain s' where
    "at_conn h (conn_Close (W h)) s = Some (Ok (), s')" "hworld s' = w'" "hnext s' = hnext s" by (metis dsi_of_simps(4))
  then show "\<exists>a s'. at_conn h (conn_Close (W h)) s = Some (Ok a, s') \<and> idle_hosts up s' \<and>
      content (st (hworld s')) = content (st (hworld s))"
    using w(2,3) s by (auto simp: idle_hosts_def in_phase_def ready_def)
qed

lemma dsi_guest_host:
  assumes srv: "afp_server W tcp f st S up q nfd t vol fid content A B L M T" and "path_ok nfd (tpath t)"
    and "\<And>s n. mset (order s n) = mset [0..<n]"
  shows "guest_host (dsi_client W nfd nfc order tcp) t vol fid (\<lambda>s. content (st (hworld s))) (idle_hosts up) (in_phase st S 0 A)
     (in_phase st S q B) (in_phase st S q L) (in_phase st S q M) (in_phase st S q T)"
  unfolding guest_host_def
proof (intro conjI allI)
  let ?N = "dsi_client W nfd nfc order tcp"
  show "calm (\<lambda>s. content (st (hworld s))) (idle_hosts up) (in_phase st S 0 A) (cdial ?N (thost t))"
    using dial_phase [OF srv] by (simp add: dsi_client_def)
  fix h
  show "calm (\<lambda>s. content (st (hworld s))) (in_phase st S 0 A h) (\<lambda>b s. guest_block b \<and> in_phase st S 0 A h s) (cget_status ?N h)"
    using status_phase [OF srv] by (simp add: dsi_client_def)
  show "calm (\<lambda>s. content (st (hworld s))) (in_phase st S 0 A h) (\<lambda>_. in_phase st S q B h) (copen_session ?N h)"
    using open_phase [OF srv] by (simp add: dsi_client_def)
  show "calm (\<lambda>s. content (st (hworld s))) (in_phase st S 0 A h) (\<lambda>_. idle_hosts up) (cclose ?N h)"
    "calm (\<lambda>s. content (st (hworld s))) (in_phase st S q B h) (\<lambda>_. idle_hosts up) (cclose ?N h)"
    using close_phase [OF srv] by (simp_all add: dsi_client_def)
  show "group_runs_all (cenv ?N h)" using assms(3) by (simp add: group_runs_all_def dsi_client_def)
  have "path_ok (norm_nfd (direct_env q nfd nfc (\<lambda>_ _. []) (f h))) (tpath t)" using assms(2) by (simp add: direct_env_def)
  from guest_session_sim [OF client_env_sim [where S = S and W = W, OF afp_serverD(2) [OF srv, of h]] afp_serverD(6) [OF srv] this]
  show "guest_session (cenv ?N h) t vol fid (\<lambda>s. content (st (hworld (sconn s)))) (\<lambda>s. in_phase st S q B h (sconn s))
      (\<lambda>s. in_phase st S q L h (sconn s)) (\<lambda>s. in_phase st S q M h (sconn s)) (\<lambda>s. in_phase st S q T h (sconn s))"
    by (simp add: lifted_def [abs_def] abs_session_def in_phase_def)
qed

section \<open>What is put is what is got\<close>

text \<open>
  (C1) Uploading and downloading a file over DSI: against any server that holds the file and serves a guest,
  over any transport that carries its packets, \<^verbatim>\<open>goafp put\<close> and then \<^verbatim>\<open>goafp get\<close> both exit without
  error, each on connections of its own that end closed, and the local file written by \<^verbatim>\<open>get\<close> has exactly the bytes of
  the one read by \<^verbatim>\<open>put\<close>, whatever their number, the server's quantum and the order of the concurrent chunks.
\<close>
theorem put_get_roundtrip:
  assumes "afp_server W tcp f st S up q nfd t vol fid content A B L M T" and "path_ok nfd (tpath t)"
    and "\<And>s n. mset (order s n) = mset [0..<n]"
    and "parseTarget url_Parse raw = Ok t" and "tusername t = []" and "tvolume t \<noteq> []" and "tpath t \<noteq> []"
    and "lopen Lo src w = Ok (b, EOF)" and "length b < 2 ^ 62"
    and "dst \<notin> {[], ''.'', ''/''}" and "local_file Lo dst out" and "idle_hosts up s"
  shows "\<exists>s1 s2 w2. runPut (dsi_client W nfd nfc order tcp) C url_Parse Lo [src, raw] (s, w) = Some (Ok (), (s1, w)) \<and>
     content (st (hworld s1)) = b \<and>
     runGet (dsi_client W nfd nfc order tcp) C url_Parse Lo [raw, dst] (s1, w) = Some (Ok (), (s2, w2)) \<and>
     out w2 = b \<and> idle_hosts up s2"
proof -
  note N = dsi_guest_host [where order = order and nfc = nfc, OF assms(1-3)]
  have "length b < 2 ^ 63" using assms(9) by simp
  from put_guest [OF N assms(4-7) this assms(8,12)] obtain s1 where
    s1: "runPut (dsi_client W nfd nfc order tcp) C url_Parse Lo [src, raw] (s, w) = Some (Ok (), (s1, w))"
      "idle_hosts up s1" "content (st (hworld s1)) = b" by blast
  from get_guest [OF N assms(4-7,10,11) _ s1(2), of C w] assms(9) s1 show ?thesis by auto
qed

subsection \<open>A server with one file\<close>

definition demo_info :: ServerInfo where
  "demo_info = \<lparr>ServerName = ''nas'', MachineType = ''Netatalk'', AFPVersions = [''AFP3.4''], UAMs = [uamNoAuth], SrvFlags = 0\<rparr>"

definition demo_server :: "bytes server" where
  "demo_server cmd off p F =
     (if cmd = CmdGetStatus then ((put_info 0 demo_info, 0), F)
      else if cmd = CmdOpenSession \<or> cmd = CmdCloseSession then (([], 0), F)
      else if p ! 0 = cmdOpenVol then ((put16 kFPVolIDBit @ put16 7, 0), F)
      else link_serve cmd off p F)"

text \<open>The transport: the request is answered at once, and the answer read in one piece.\<close>

definition demo_net :: "(bytes \<times> bytes) net" where
  "demo_net =
     \<lparr>nc_Write = (\<lambda>pkt (F, out). let h = decodeHeader (take HeaderSize pkt) in
        case demo_server (Command h) (ErrCode h) (drop HeaderSize pkt) F of
          ((b, code), F') \<Rightarrow> (None, (F', packet (Header (answer h b code)) b))),
      nc_arrive = (\<lambda>(F, out). (out, None, ErrClosed, (F, [])))\<rparr>"

lemma demo_serves: "dsi_serves demo_net demo_server fst (\<lambda>_. True)"
  unfolding dsi_serves_def
proof (intro allI impI)
  fix w :: "bytes \<times> bytes" and cmd i off p b code v
  assume "demo_server cmd off p (fst w) = ((b, code), v)"
  then have "nc_Write demo_net (packet (request_header cmd i off p) p) w =
      (None, (v, packet (Header (answer (request_header cmd i off p) b code)) b))"
    by (cases w) (simp add: demo_net_def packet_def request_header_def)
  then show "\<exists>w1 noise ctxe w2. nc_Write demo_net (packet (request_header cmd i off p) p) w = (None, w1) \<and>
           nc_arrive demo_net w1 = (concat (map (\<lambda>(h, q). packet h q) noise) @
               packet (Header (answer (request_header cmd i off p) b code)) b, None, ctxe, w2) \<and>
           (\<forall>(h, q) \<in> set noise. packet_ok (h, q) \<and> Flags h \<noteq> flagReply) \<and> True \<and> fst w2 = v"
    by (auto simp: demo_net_def intro!: exI [of _ "[]"])
qed

lemma direct_env_command:
  "command (direct_env q nfd nfc order f) p s = (case f CmdCommand 0 p (sconn s) of ((b, code), c) \<Rightarrow>
     Some (if length b \<le> maxPayload then Ok (b, result_of_code code) else Err ErrClosed, s\<lparr>sconn := c\<rparr>))"
  "commandWrite (direct_env q nfd nfc order f) off p s = (case f CmdWrite off p (sconn s) of ((b, code), c) \<Rightarrow>
     Some (if length b \<le> maxPayload then Ok (b, result_of_code code) else Err ErrClosed, s\<lparr>sconn := c\<rparr>))"
  by (simp_all add: command_def commandWrite_def direct_env_def on_sconn_def io_defs answer_def split: prod.splits)

abbreviation demo_env :: "(string \<Rightarrow> string) \<Rightarrow> (string \<Rightarrow> string) \<Rightarrow> (bytes \<Rightarrow> nat \<Rightarrow> nat list) \<Rightarrow> bytes env" where
  "demo_env nfd nfc order \<equiv> direct_env 0 nfd nfc order demo_server"

lemma demo_request:
  "cmd \<in> {CmdCommand, CmdWrite} \<Longrightarrow> p ! 0 \<noteq> cmdOpenVol \<Longrightarrow> demo_server cmd off p F = link_serve cmd off p F"
  by (auto simp: demo_server_def dsi_codes)

lemma session_cmd:
  "guest_request ver ! 0 = cmdLogin" "open_volume_request name ! 0 = cmdOpenVol" "close_volume_request v ! 0 = cmdCloseVol"
  by (simp_all add: guest_request_def open_volume_request_def close_volume_request_def builder_defs builder_pascal_def Let_def)

lemma demo_keeps:
  assumes "p ! 0 \<notin> {cmdOpenVol, cmdCreateFile, cmdOpenFork, cmdReadExt, cmdWriteExt}"
  shows "keeps_file (demo_env nfd nfc order) sconn (\<lambda>_. True) (\<lambda>_. True) p"
  using assms by (simp add: keeps_file_def direct_env_command demo_request link_serve_other result_of_code_def)

lemma demo_read:
  assumes "off < 2 ^ 63" and "cnt < 2 ^ 63"
  shows "demo_server CmdCommand 0 (read_request f (int off) cnt) F =
    ((take cnt (drop off F), if length F < off + cnt then word_of_int ResEOF else 0), F)"
proof -
  have "demo_server CmdCommand 0 (read_request f (int off) cnt) F = link_serve CmdCommand 0 (read_request f (int off) cnt) F"
    by (rule demo_request) (simp_all add: request_cmd cmd_defs)
  also have "\<dots> = ((take cnt (drop off F), if length F < off + cnt then word_of_int ResEOF else 0), F)"
    by (rule link_serve_read [OF assms])
  finally show ?thesis .
qed

lemma demo_reads:
  assumes "plain_fork 5 f"
  shows "reads_file (demo_env nfd nfc order) f F (\<lambda>s. True \<and> sconn s = F)"
  unfolding reads_file_def
proof (intro allI impI)
  fix s :: "bytes session" and off cnt :: nat
  assume a: "True \<and> sconn s = F" "off < 2 ^ 63" "cnt < 2 ^ 63" "int cnt \<le> chunkSize f"
  then have "length (take cnt (drop off F)) \<le> maxPayload"
    using assms by (simp add: plain_fork_def readChunkSize_def maxPayload_def)
  with a(1) show "\<exists>code s'. (True \<and> sconn s' = F) \<and> command (demo_env nfd nfc order) (read_request f (int off) cnt) s =
      Some (Ok (take cnt (drop off F), code), s') \<and> (code = 0 \<or> code = ResEOF \<and> length F < off + cnt)"
    unfolding direct_env_command demo_read [OF a(2,3)] by (simp add: result_of_code_def ResEOF_def)
qed

lemma demo_writes: "accepts_writes (demo_env nfd nfc order) f sconn (\<lambda>_. True)"
  unfolding accepts_writes_def
proof (intro allI impI)
  fix s :: "bytes session" and off and d :: bytes
  assume "off + length d < 2 ^ 63"
  then have off: "off < 2 ^ 63" by simp
  let ?p = "write_header f (int off) d @ d"
  have "demo_server CmdWrite 20 ?p (sconn s) = link_serve CmdWrite 20 ?p (sconn s)"
    by (rule demo_request) (simp_all only: request_cmd, simp_all add: cmd_defs)
  also have "\<dots> = (([], 0), write_at (sconn s) off d)"
    by (rule link_serve_write [OF off])
  finally show "\<exists>reply s'. commandWrite (demo_env nfd nfc order) 20 ?p s = Some (Ok (reply, 0), s') \<and> True \<and>
      serverQuantum (demo_env nfd nfc order) s' = serverQuantum (demo_env nfd nfc order) s \<and> sconn s' = write_at (sconn s) off d"
    unfolding direct_env_command by (simp add: result_of_code_def serverQuantum_def direct_env_def)
qed

lemma demo_holds:
  "holds_file (demo_env nfd nfc order) vol dirID path 5 sconn (\<lambda>_. True) (\<lambda>_. True)"
  unfolding holds_file_def keeps_fork_def
proof (intro conjI allI impI)
  let ?E = "demo_env nfd nfc order"
  fix s :: "bytes session"
  show "\<exists>r s'. command ?E (create_request ?E vol dirID path True) s = Some (Ok (r, 0), s') \<and> True \<and> sconn s' = []"
    by (simp add: direct_env_command demo_request request_cmd link_serve_create cmd_defs result_of_code_def)
  fix mode
  show "\<exists>bm s'. command ?E (open_request ?E vol dirID path mode) s = Some (Ok (put_fork bm 5 (length (sconn s)), 0), s') \<and>
      True \<and> sconn s' = sconn s"
    by (rule exI [of _ 0])
      (simp add: direct_env_command demo_request request_cmd link_serve_open cmd_defs result_of_code_def
        put_fork_def maxPayload_def)
next
  fix f assume f: "plain_fork 5 f"
  show "accepts_writes (demo_env nfd nfc order) f sconn (\<lambda>_. True)" by (rule demo_writes)
  show "keeps_file (demo_env nfd nfc order) sconn (\<lambda>_. True) (\<lambda>_. True) (close_request f)"
    by (rule demo_keeps) (simp add: request_cmd cmd_defs)
  show "reads_file (demo_env nfd nfc order) f F (\<lambda>s. True \<and> sconn s = F)" for F by (rule demo_reads [OF f])
qed

definition demo_volume :: "string \<Rightarrow> Volume" where
  "demo_volume name = \<lparr>vID = 7, vName = name, vAttributes = 0\<rparr>"

lemma demo_open_reply: "open_volume_reply name (put16 kFPVolIDBit @ put16 7) = Ok (demo_volume name)"
  by (simp add: open_volume_reply_def new_reader_rd demo_volume_def vol_bit_defs Let_def)

lemma demo_session:
  "guest_session (demo_env nfd nfc order) t (demo_volume (tvolume t)) 5 sconn (\<lambda>_. True) (\<lambda>_. True) (\<lambda>_. True) (\<lambda>_. True)"
  unfolding guest_session_def
proof (intro conjI allI impI)
  show "keeps_file (demo_env nfd nfc order) sconn (\<lambda>_. True) (\<lambda>_. True) (guest_request ver)" for ver
    by (rule demo_keeps) (simp add: session_cmd cmd_defs)
  show "keeps_file (demo_env nfd nfc order) sconn (\<lambda>_. True) (\<lambda>_. True) (close_volume_request (demo_volume (tvolume t)))"
    by (rule demo_keeps) (simp add: session_cmd cmd_defs)
  show "keeps_file (demo_env nfd nfc order) sconn (\<lambda>_. True) (\<lambda>_. True) [cmdLogout, 0]"
    by (rule demo_keeps) (simp add: cmd_defs)
  show "holds_file (demo_env nfd nfc order) (demo_volume (tvolume t)) RootDirID (tpath t) 5 sconn (\<lambda>_. True) (\<lambda>_. True)"
    by (rule demo_holds)
  fix s :: "bytes session"
  have "demo_server CmdCommand 0 (open_volume_request (tvolume t)) (sconn s) = ((put16 kFPVolIDBit @ put16 7, 0), sconn s)"
    by (simp add: demo_server_def session_cmd dsi_codes)
  then show "\<exists>b s'. command (demo_env nfd nfc order) (open_volume_request (tvolume t)) s = Some (Ok (b, 0), s') \<and>
      open_volume_reply (tvolume t) b = Ok (demo_volume (tvolume t)) \<and> True \<and> sconn s' = sconn s"
    unfolding direct_env_command using demo_open_reply by (simp add: result_of_code_def maxPayload_def)
qed

lemma demo_afp_server:
  "afp_server (\<lambda>_. demo_net) (\<lambda>_ w. (Ok (), w)) (\<lambda>_. demo_server) fst (\<lambda>_ _. True) (\<lambda>_ _. True) 0 nfd t
     (demo_volume (tvolume t)) 5 (\<lambda>F. F) (\<lambda>_. True) (\<lambda>_. True) (\<lambda>_. True) (\<lambda>_. True) (\<lambda>_. True)"
proof -
  have ok: "info_ok demo_info"
    by (simp add: info_ok_def demo_info_def put_info_def put_list_def put_pascal_def uamNoAuth_def Let_def)
  then have "guest_block (put_info 0 demo_info)"
    unfolding guest_block_def ParseServerInfo_layout [OF ok]
    by (simp add: demo_info_def pickVersion_def versionPreference_def)
  moreover have "length (put_info 0 demo_info) \<le> maxPayload" using ok by (simp add: info_ok_def maxPayload_def)
  moreover have "\<exists>e w'. nc_Write demo_net (packet (control_header CmdCloseSession i) []) w = (e, w') \<and> fst w' = fst w" for i w
    by (cases w) (simp add: demo_net_def packet_def control_header_def demo_server_def dsi_codes)
  ultimately show ?thesis
    unfolding afp_server_def using demo_serves demo_session
    by (auto simp: demo_server_def dsi_codes maxPayload_def)
qed

text \<open>The local side: a source file of three bytes, and one file written, which is the state.\<close>

definition demo_local :: "bytes local" where
  "demo_local =
     \<lparr>lcreate = (\<lambda>_ _. (None, [])), lwrite = (\<lambda>_ b w. (None, w @ b)), lclose = (\<lambda>_ w. (None, w)),
      lopen = (\<lambda>_ _. Ok ([1, 2, 3], EOF)), lstdout = (\<lambda>_ w. (None, w))\<rparr>"

definition demo_url :: "string \<Rightarrow> url res" where
  "demo_url raw = Ok \<lparr>Scheme = ''afp'', Host = ''nas'', User = None, UPath = ''/v/f''\<rparr>"

theorem put_get_roundtrip_witness:
  "\<exists>s1 s2 w2. runPut (dsi_client (\<lambda>_. demo_net) id id (\<lambda>_ n. rev [0..<n]) (\<lambda>_ w. (Ok (), w))) sample_crypto demo_url demo_local
       [''a'', ''afp://nas/v/f''] (\<lparr>hconns = \<lambda>_. fresh_dsi (), hnext = 0, hworld = ([9, 9, 9, 9], [])\<rparr>, [8]) = Some (Ok (), (s1, [8])) \<and>
     fst (hworld s1) = [1, 2, 3] \<and>
     runGet (dsi_client (\<lambda>_. demo_net) id id (\<lambda>_ n. rev [0..<n]) (\<lambda>_ w. (Ok (), w))) sample_crypto demo_url demo_local
       [''afp://nas/v/f'', ''b''] (s1, [8]) = Some (Ok (), (s2, w2)) \<and> w2 = [1, 2, 3]"
proof -
  let ?t = "\<lparr>thost = ''nas'', tusername = [], tpassword = [], tvolume = ''v'', tpath = ''f''\<rparr>"
  have t: "parseTarget demo_url ''afp://nas/v/f'' = Ok ?t"
    by (simp add: parseTarget_def demo_url_def split2_def trim_slash_def)
  have l: "local_file demo_local ''b'' (\<lambda>w. w)" by (simp add: local_file_def demo_local_def writer_accepts_def)
  show ?thesis
    using put_get_roundtrip [OF demo_afp_server [of id ?t], where url_Parse = demo_url and raw = "''afp://nas/v/f''"
        and order = "\<lambda>_ n. rev [0..<n]" and Lo = demo_local and src = "''a''" and dst = "''b''" and b = "[1, 2, 3]"
        and out = "\<lambda>w. w" and w = "[8]" and nfc = id and C = sample_crypto
        and s = "\<lparr>hconns = \<lambda>_. fresh_dsi (), hnext = 0, hworld = ([9, 9, 9, 9], [])\<rparr>"] t l
    by (simp add: path_ok_def trim_slash_def demo_local_def idle_hosts_def)
qed

end
