(* ===== verification/Afp_Keeps.thy ===== *)
theory Afp_Keeps
  imports Login Symlink
begin

text \<open>
  What the AFP operations do to the connection below them: nothing but their requests. A property of the
  connection that these requests keep is kept by every operation, whatever its outcome. The interface
  is \<open>request_keeps\<close>; its instance here says that a closed transport stays closed.
\<close>

lemma io_keeps_if [intro]: "io_keeps P m \<Longrightarrow> io_keeps P n \<Longrightarrow> io_keeps P (if c then m else n)"
  by simp

lemma io_keeps_prod [intro]: "(\<And>a b. io_keeps P (f a b)) \<Longrightarrow> io_keeps P (case x of (a, b) \<Rightarrow> f a b)"
  by (cases x) simp

lemma io_keeps_option [intro]:
  "io_keeps P m \<Longrightarrow> (\<And>a. io_keeps P (f a)) \<Longrightarrow> io_keeps P (case x of None \<Rightarrow> m | Some a \<Rightarrow> f a)"
  by (cases x) simp_all

lemma io_keeps_state: "(\<And>x. io_keeps P (m x)) \<Longrightarrow> io_keeps P (\<lambda>s. m (g s) s)"
  by (auto simp: io_keeps_def)

lemma io_keeps_run_group:
  assumes "\<And>i. io_keeps P (task i)"
  shows "io_keeps P (run_group task order res err)"
proof (induction order arbitrary: res err)
  case (Cons i order)
  show ?case
    unfolding io_keeps_def
  proof (intro allI impI)
    fix s r s' assume "P s" and run: "run_group task (i # order) res err s = Some (r, s')"
    obtain r1 s1 where t: "task i s = Some (r1, s1)" using run by (auto split: option.splits)
    then have "P s1" using io_keepsD [OF assms \<open>P s\<close>] by blast
    then show "P s'" using run t by (cases r1) (auto dest: io_keepsD [OF Cons.IH])
  qed
qed auto

text \<open>
  \<open>ok\<close> holds of every packet the operations hand to the connection when the paths they are given satisfy
  \<open>paths\<close>, and requests that are \<open>ok\<close> keep \<open>P\<close>.
\<close>

locale request_keeps =
  fixes E :: "'s env" and P :: "'s \<Rightarrow> bool" and ok :: "8 word \<Rightarrow> 32 word \<Rightarrow> bytes \<Rightarrow> bool" and paths :: "string \<Rightarrow> bool"
  assumes rq_keep: "ok cmd off p \<Longrightarrow> io_keeps P (conn_request E cmd off p)"
    and ok_login: "ok CmdCommand 0 (cmdLogin # put_pascal (take 255 ver) @ put_pascal (take 255 uam) @ auth)"
      "ok CmdCommand 0 (cmdLoginCont # 0 # put16 i @ auth)" "ok CmdCommand 0 [cmdLogout, 0]"
    and ok_volume: "ok CmdCommand 0 [cmdGetSrvrParms, 0]"
      "ok CmdCommand 0 (cmdOpenVol # 0 # put16 bm @ put_pascal (take 255 name))"
      "ok CmdCommand 0 (cmdCloseVol # 0 # put16 i)" "ok CmdCommand 0 (cmdGetVolParms # 0 # put16 i @ put16 bm)"
    and ok_fork: "ok CmdCommand 0 (close_request f)" "ok CmdCommand 0 (read_request f pos cnt)"
      "ok CmdCommand 0 (truncate_request f sz)" "ok CmdWrite 20 (write_header f pos d @ d)"
    and ok_path: "paths path \<Longrightarrow> ok CmdCommand 0 (enum_request E v dirID path start)"
      "paths path \<Longrightarrow> ok CmdCommand 0 (stat_request E v dirID path)"
      "paths path \<Longrightarrow> ok CmdCommand 0 (open_request E v dirID path mode)"
      "paths path \<Longrightarrow> ok CmdCommand 0 (create_request E v dirID path ow)"
      "paths path \<Longrightarrow> ok CmdCommand 0 (builder_path (norm_nfd E) (cmdCreateDir # 0 # put16 i @ put32 dirID) path)"
      "paths path \<Longrightarrow> ok CmdCommand 0 (builder_path (norm_nfd E) (cmdDelete # 0 # put16 i @ put32 dirID) path)"
      "paths path \<Longrightarrow> paths (fst (splitPath to)) \<Longrightarrow> paths (snd (splitPath to)) \<Longrightarrow>
         ok CmdCommand 0 (rename_request E v dirID path to)"
      "paths path \<Longrightarrow> ok CmdCommand 0 (mod_time_request E v dirID path t)"
      "paths path \<Longrightarrow> ok CmdCommand 0 (writeParamsHeader E v kFPUnixPrivsBit dirID path @ put32 uid @ put32 gid @ put32 perm @ put32 0)"
      "paths path \<Longrightarrow> ok CmdCommand 0 (finder_request E v dirID path symlinkFinderInfo)"
begin

abbreviation held :: "'s session \<Rightarrow> bool" where
  "held s \<equiv> P (sconn s)"

lemma on_sconn_keeps: "io_keeps P m \<Longrightarrow> io_keeps held (on_sconn m)"
  by (auto simp: io_keeps_def on_sconn_def split: option.splits)

lemma command_keeps:
  "ok CmdCommand 0 p \<Longrightarrow> io_keeps held (command E p)" "ok CmdWrite off p \<Longrightarrow> io_keeps held (commandWrite E off p)"
  unfolding command_def commandWrite_def by (intro io_keeps_bind on_sconn_keeps rq_keep io_keeps_ret; assumption)+

lemma simple_command_keeps: "ok CmdCommand 0 w \<Longrightarrow> io_keeps held (simple_command E op w)"
  unfolding simple_command_def by (intro io_keeps_bind io_keeps_prod command_keeps io_keeps_res)

lemma login_keeps: "io_keeps held (login E uam a)" "io_keeps held (loginCont E i a)"
proof -
  have "login E uam a = (\<lambda>s. command E (cmdLogin # put_pascal (take 255 (Version s)) @ put_pascal (take 255 uam) @ a) s)"
    by (rule ext) (rule login_request)
  then show "io_keeps held (login E uam a)"
    using io_keeps_state [of held "\<lambda>v. command E (cmdLogin # put_pascal (take 255 v) @ put_pascal (take 255 uam) @ a)" Version]
      command_keeps(1) [OF ok_login(1)] by simp
  show "io_keeps held (loginCont E i a)" unfolding loginCont_request by (rule command_keeps(1) [OF ok_login(2)])
qed

lemma loginCleartext_keeps: "io_keeps held (loginCleartext E user pw)"
  unfolding loginCleartext_def
  by (rule io_keeps_state [where g = Version])
     (intro io_keeps_bind io_keeps_prod login_keeps io_keeps_res)

lemma version_keeps:
  assumes "io_keeps held m"
  shows "io_keeps held (\<lambda>s. m (s\<lparr>Version := v\<rparr>))"
  unfolding io_keeps_def
proof (intro allI impI)
  fix s r s' assume "held s" and "m (s\<lparr>Version := v\<rparr>) = Some (r, s')"
  then show "held s'" using io_keepsD [OF assms, of "s\<lparr>Version := v\<rparr>" r s'] by simp
qed

lemma Login_keeps: "io_keeps held (Login E C info user pw)"
proof -
  have "io_keeps held (Login_auth E C info user pw)"
    unfolding Login_auth_def loginGuest_def loginDHX2_def loginSRP_def Let_def
    by (intro io_keeps_if io_keeps_bind io_keeps_prod login_keeps io_keeps_res loginCleartext_keeps)
  then have "io_keeps held (\<lambda>s. Login_auth E C info user pw (s\<lparr>Version := v\<rparr>))" for v
    by (rule version_keeps)
  then show ?thesis unfolding Login_def by (intro io_keeps_bind io_keeps_res)
qed

lemma session_keeps:
  "io_keeps held (Logout E)" "io_keeps held (ListVolumes E)" "io_keeps held (OpenVolume E name)"
  "io_keeps held (Volume_Close E v)" "io_keeps held (StatFS E v)"
  unfolding Logout_def ListVolumes_def OpenVolume_def Volume_Close_def StatFS_def Let_def builder_pascal_eq
  by (intro io_keeps_bind io_keeps_prod simple_command_keeps command_keeps io_keeps_res;
      simp add: ok_login ok_volume builder_defs)+

lemma vol_ops_keeps:
  assumes "paths path"
  shows "io_keeps held (Stat E v dirID path)" "io_keeps held (CreateFile E v dirID path ow)" "io_keeps held (Mkdir E v dirID path)"
    "io_keeps held (Delete E v dirID path)" "io_keeps held (SetUnixPrivs E v dirID path uid gid perm)"
    "io_keeps held (SetModTime E v dirID path t)" "io_keeps held (setFinderInfo E v dirID path symlinkFinderInfo)"
    "paths (fst (splitPath to)) \<Longrightarrow> paths (snd (splitPath to)) \<Longrightarrow> io_keeps held (Rename E v dirID path to)"
  unfolding Stat_def CreateFile_def Mkdir_def Delete_def Rename_def SetUnixPrivs_def SetModTime_def setFinderInfo_def Let_def
  using assms
  by (intro io_keeps_bind io_keeps_prod simple_command_keeps command_keeps io_keeps_res; simp add: ok_path builder_defs)+

lemma fork_keeps:
  "paths path \<Longrightarrow> io_keeps held (openFork E v dirID path mode)" "paths path \<Longrightarrow> io_keeps held (OpenFork E v dirID path)"
  "paths path \<Longrightarrow> io_keeps held (OpenForkRW E v dirID path)"
  unfolding openFork_def OpenFork_def OpenForkRW_def
  by (intro io_keeps_bind io_keeps_prod simple_command_keeps command_keeps io_keeps_res ok_path; assumption)+

lemma fork_close_keeps: "io_keeps held (Fork_Close E f)" "io_keeps held (Fork_Truncate E f sz)"
  unfolding Fork_Close_def Fork_Truncate_def by (intro simple_command_keeps ok_fork)+

lemma ReadDir_keeps:
  assumes "paths path"
  shows "io_keeps held (ReadDir E v dirID path)"
proof -
  have "E = E \<and> path = path \<longrightarrow> held s \<longrightarrow> held (snd out)"
    if "readDir_loop E v dirID path start entries s = Some out" for start entries s out
    using that
  proof (rule readDir_loop.raw_induct
      [where P = "\<lambda>E' v dirID path' start entries s out. E' = E \<and> path' = path \<longrightarrow> held s \<longrightarrow> held (snd out)", rotated])
    fix loop E' v dirID path' start entries s out
    assume IH: "\<And>E' v dirID path' start entries s out. loop E' v dirID path' start entries s = Some out \<Longrightarrow>
        E' = E \<and> path' = path \<longrightarrow> held s \<longrightarrow> held (snd out)"
      and body: "(case command E' (enum_request E' v dirID path' start) s of
        None \<Rightarrow> None
      | Some (Panic, s') \<Rightarrow> Some (Panic, s')
      | Some (Err e, s') \<Rightarrow> Some (Err e, s')
      | Some (Ok (payload, code), s') \<Rightarrow>
          if code = ResObjectNotFound then Some (Ok entries, s')
          else (case resultErr (''enumerate '' @ path') code of
                  Some e \<Rightarrow> Some (Err e, s')
                | None \<Rightarrow>
                    (case parseEnumerateReply (norm_nfc E') payload of
                       Panic \<Rightarrow> Some (Panic, s')
                     | Err e \<Rightarrow> Some (Err e, s')
                     | Ok new \<Rightarrow>
                         if length new = 0 then Some (Ok entries, s')
                         else loop E' v dirID path' (start + word_of_nat (length new)) (entries @ new) s'))) = Some out"
    show "E' = E \<and> path' = path \<longrightarrow> held s \<longrightarrow> held (snd out)"
    proof (intro impI, elim conjE)
      assume e: "E' = E" "path' = path" and h: "held s"
      obtain r1 s1 where c: "command E (enum_request E v dirID path start) s = Some (r1, s1)"
        using body e by (auto split: option.splits)
      have "held s1" using io_keepsD [OF command_keeps(1) [OF ok_path(1) [OF assms]] h c] .
      then show "held (snd out)"
        using body c e by (cases r1) (auto split: if_splits option.splits res.splits dest!: IH)
    qed
  qed
  then show ?thesis by (auto simp: ReadDir_def io_keeps_def)
qed

lemma ReadAt_keeps: "io_keeps held (ReadAt E f p off)"
proof -
  have task: "io_keeps held (read_task E f off c)" for c
    unfolding read_task_def readChunk_def
    by (intro io_keeps_bind io_keeps_prod io_keeps_if command_keeps ok_fork io_keeps_res io_keeps_ret)
  have "io_keeps held (io_bind (run_group (\<lambda>i. read_task E f off (c ! i)) order (\<lambda>_. None) None)
      (\<lambda>(res, err). case err of Some e \<Rightarrow> io_ret (0, Some e, p)
             | None \<Rightarrow> io_ret (reassemble (map (\<lambda>i. (fst (c ! i),
                             case res i of None \<Rightarrow> ([], False) | Some a \<Rightarrow> a)) [0..<length c]) p 0)))" for c order
    by (intro io_keeps_bind io_keeps_run_group task io_keeps_prod io_keeps_option io_keeps_ret)
  from io_keepsD [OF this] show ?thesis
    unfolding io_keeps_def ReadAt_def by (auto split: if_splits option.splits)
qed

lemma WriteAt_keeps: "io_keeps held (WriteAt E f p off)"
proof -
  have task: "io_keeps held (write_task E f p off c)" for c
    unfolding write_task_def writeChunk_def Let_def
    by (intro io_keeps_bind io_keeps_prod command_keeps io_keeps_res io_keeps_ret) (simp add: ok_fork builder_bytes_def)
  have "io_keeps held (io_bind (run_group (\<lambda>i. write_task E f p off (c ! i)) order (\<lambda>_. None) None)
      (\<lambda>(written, err). io_ret
         (sum_list (map (\<lambda>i. case written i of None \<Rightarrow> 0 | Some n \<Rightarrow> n) [0..<length c]), err)))" for c order
    by (intro io_keeps_bind io_keeps_run_group task io_keeps_prod io_keeps_ret)
  from io_keepsD [OF this] show ?thesis
    unfolding io_keeps_def WriteAt_def by (auto split: if_splits option.splits)
qed

lemma writeTo_loop_keeps:
  assumes "writeTo_loop E f wr buf tot off st = Some out"
  shows "E = E \<longrightarrow> held (fst st) \<longrightarrow> held (fst (snd out))"
  using assms
proof (rule writeTo_loop.raw_induct
    [where P = "\<lambda>E' f wr buf tot off st out. E' = E \<longrightarrow> held (fst st) \<longrightarrow> held (fst (snd out))", rotated])
  fix loop E' f and wr :: "bytes \<Rightarrow> 'b \<Rightarrow> goerr option \<times> 'b" and buf tot off and st :: "'s session \<times> 'b" and out
  assume IH: "\<And>E' f wr buf tot off st out. loop E' f wr buf tot off st = Some out \<Longrightarrow>
      E' = E \<longrightarrow> held (fst (st :: 's session \<times> 'b)) \<longrightarrow> held (fst (snd out))"
    and body: "(case ReadAt E' f buf off (fst st) of
        None \<Rightarrow> None
      | Some (Panic, s) \<Rightarrow> Some (Panic, (s, snd st))
      | Some (Err e, s) \<Rightarrow> Some (Err e, (s, snd st))
      | Some (Ok (n, err, buf), s) \<Rightarrow>
          if n > length buf then Some (Panic, (s, snd st))
          else (case (if n > 0 then wr (take n buf) (snd st) else (None, snd st)) of
             (Some werr, w) \<Rightarrow> Some (Ok (tot, Some werr), (s, w))
           | (None, w) \<Rightarrow>
               let tot = tot + int n; off = off + int n in
               if err = Some EOF then Some (Ok (tot, None), (s, w))
               else if err \<noteq> None then Some (Ok (tot, err), (s, w))
               else if n = 0 then Some (Ok (tot, None), (s, w))
               else loop E' f wr buf tot off (s, w))) = Some out"
  show "E' = E \<longrightarrow> held (fst st) \<longrightarrow> held (fst (snd out))"
  proof (intro impI)
    assume e: "E' = E" and h: "held (fst st)"
    obtain r1 s1 where c: "ReadAt E f buf off (fst st) = Some (r1, s1)"
      using body e by (auto split: option.splits)
    have "held s1" using io_keepsD [OF ReadAt_keeps h c] .
    then show "held (fst (snd out))"
      using body c e by (cases r1) (auto simp: Let_def split: if_splits option.splits prod.splits dest!: IH)
  qed
qed

lemma readFrom_loop_keeps:
  assumes "readFrom_loop E f n tot st = Some out"
  shows "E = E \<longrightarrow> held (fst st) \<longrightarrow> held (fst (snd out))"
  using assms
proof (rule readFrom_loop.raw_induct
    [where P = "\<lambda>E' f n tot st out. E' = E \<longrightarrow> held (fst st) \<longrightarrow> held (fst (snd out))", rotated])
  fix loop E' f n tot and st :: "'s session \<times> source" and out
  assume IH: "\<And>E' f n tot st out. loop E' f n tot st = Some out \<Longrightarrow>
      E' = E \<longrightarrow> held (fst (st :: 's session \<times> source)) \<longrightarrow> held (fst (snd out))"
    and body: "(case ReadFull n (snd st) of (data, err, src) \<Rightarrow>
        (case (if length data > 0 then WriteAt E' f data tot (fst st) else Some (Ok (0, None), fst st)) of
           None \<Rightarrow> None
         | Some (Panic, s) \<Rightarrow> Some (Panic, (s, src))
         | Some (Err e, s) \<Rightarrow> Some (Err e, (s, src))
         | Some (Ok (_, Some werr), s) \<Rightarrow> Some (Ok (tot, Some werr), (s, src))
         | Some (Ok (_, None), s) \<Rightarrow>
             let tot = tot + int (length data) in
             if err = Some EOF \<or> err = Some ErrUnexpectedEOF then Some (Ok (tot, None), (s, src))
             else if err \<noteq> None then Some (Ok (tot, err), (s, src))
             else loop E' f n tot (s, src))) = Some out"
  show "E' = E \<longrightarrow> held (fst st) \<longrightarrow> held (fst (snd out))"
  proof (intro impI)
    assume e: "E' = E" and h: "held (fst st)"
    obtain data err src where rd: "ReadFull n (snd st) = (data, err, src)" by (cases "ReadFull n (snd st)")
    obtain r1 s1 where c: "(if length data > 0 then WriteAt E f data tot (fst st) else Some (Ok (0, None), fst st)) = Some (r1, s1)"
      using body e rd by (auto split: option.splits)
    have "held s1" using io_keepsD [OF WriteAt_keeps h] c h by (auto split: if_splits)
    then show "held (fst (snd out))"
      using body c e rd by (cases r1) (auto simp: Let_def split: if_splits option.splits prod.splits dest!: IH)
  qed
qed

lemma copy_keeps:
  "io_keeps (\<lambda>st. held (fst st)) (WriteToContext E f wr)" "io_keeps (\<lambda>st. held (fst st)) (ReadFromContext E f)"
  unfolding io_keeps_def WriteToContext_def writeTo_def ReadFromContext_def readFrom_def Let_def
  using writeTo_loop_keeps readFrom_loop_keeps by (fastforce split: if_splits)+

lemma link_keeps:
  assumes "paths path"
  shows "io_keeps held (Symlink E v dirID path target)" "io_keeps held (ReadLink E v dirID path)"
proof -
  show "io_keeps held (Symlink E v dirID path target)"
    unfolding Symlink_def using assms
    by (intro io_keeps_bind io_keeps_prod io_keeps_option io_keeps_defer vol_ops_keeps fork_keeps fork_close_keeps WriteAt_keeps
        io_keeps_res)
  have "io_keeps held (readlink_body E f)" for f
    unfolding readlink_body_def
    by (intro io_keeps_bind io_keeps_prod io_keeps_option io_keeps_if ReadAt_keeps io_keeps_res io_keeps_ret)
  then show "io_keeps held (ReadLink E v dirID path)"
    unfolding ReadLink_def using assms by (intro io_keeps_bind io_keeps_defer fork_keeps fork_close_keeps)
qed

end

text \<open>Over a DSI connection every operation leaves the connection in order, on every way out.\<close>

interpretation orderly: request_keeps "dsi_env N nfd nfc order" dsi_ok "\<lambda>_ _ _. True" "\<lambda>_. True" for N nfd nfc order
  by unfold_locales (simp_all add: io_safe_keeps afp.request_safe)

section \<open>A closed transport stays closed\<close>

lemma on_conn_keeps: "io_keeps P m \<Longrightarrow> io_keeps (\<lambda>s. P (dconn s)) (on_conn m)"
  by (auto simp: io_keeps_def on_conn_def split: option.splits)

lemma readLoop_iter_closed: "readLoop_iter ib c = Some (r, c') \<Longrightarrow> ncClosed c \<Longrightarrow> ncClosed c'"
  by (cases ib) (auto simp: io_defs conn_fail_def nc_Close_def split: if_splits option.splits)

lemma readLoop_closed: "readLoop fe inp out c = Some (r, c') \<Longrightarrow> ncClosed c \<Longrightarrow> ncClosed c'"
proof (induction fe inp out c arbitrary: r rule: readLoop.induct)
  case (1 fe inp out c)
  obtain ib inp' where ib: "next_inbound (case fe of None \<Rightarrow> EOF | Some e \<Rightarrow> e) inp = (ib, inp')" by fastforce
  show ?case
  proof (cases "fe = None \<and> \<not> frame_ready inp")
    case True
    then show ?thesis using "1.prems" by (subst (asm) readLoop.simps) auto
  next
    case False
    obtain r1 c1 where c1: "readLoop_iter ib c = Some (r1, c1)"
      using "1.prems"(1) False ib by (subst (asm) readLoop.simps) (auto split: option.splits)
    note closed = readLoop_iter_closed [OF c1 "1.prems"(2)]
    note IH = "1.IH" [OF False ib [symmetric] c1]
    show ?thesis
      using "1.prems"(1) False ib c1 closed IH
      by (subst (asm) readLoop.simps) (auto simp: Let_def split: res.splits if_splits)
  qed
qed

abbreviation nc_closed :: "'w dsi \<Rightarrow> bool" where
  "nc_closed s \<equiv> ncClosed (dconn s)"

lemma send_closed: "io_keeps nc_closed (send N h p)"
  by (auto simp: io_keeps_def send_def split: prod.splits option.splits)

lemma register_closed: "io_keeps nc_closed (on_conn (register ch))"
  by (rule on_conn_keeps) (auto simp: io_keeps_def register_def split: option.splits)

lemma await_closed: "io_keeps nc_closed (await N ch)"
  unfolding io_keeps_def
proof (intro allI impI)
  fix s :: "'a dsi" and r s' assume h: "nc_closed s" and a: "await N ch s = Some (r, s')"
  obtain arr fe ctxe w where w: "nc_arrive N (dworld s) = (arr, fe, ctxe, w)" by (cases "nc_arrive N (dworld s)")
  obtain r1 c1 where c1: "readLoop fe (dinp s @ arr) [] (dconn s) = Some (r1, c1)"
    using a w by (auto simp: await_def io_bind_def on_conn_def split: option.splits)
  have "ncClosed c1" using readLoop_closed [OF c1 h] .
  then show "nc_closed s'"
    using a w c1
    by (cases r1) (auto simp: await_def io_bind_def on_conn_def split: option.splits if_splits prod.splits)
qed

lemma request_closed: "io_keeps nc_closed (request N cmd off p)"
proof -
  have "io_keeps nc_closed (io_bind (on_conn (register ch)) (\<lambda>i.
        io_defer (io_bind (send N (request_header cmd i off p) p) (\<lambda>_. await N ch))
          (on_conn (\<lambda>c. Some (Ok (), unregister i c)))))" for ch
    by (intro io_keeps_bind io_keeps_defer register_closed send_closed await_closed on_conn_keeps)
       (auto simp: io_keeps_def unregister_def)
  note keeps = io_keepsD [OF this]
  show ?thesis
    unfolding io_keeps_def request_def Let_def
  proof (intro allI impI)
    fix s :: "'a dsi" and r s'
    assume h: "nc_closed s" and run: "io_bind (on_conn (register (dchan s))) (\<lambda>i.
        io_defer (io_bind (send N (request_header cmd i off p) p) (\<lambda>_. await N (dchan s)))
          (on_conn (\<lambda>c. Some (Ok (), unregister i c)))) (s\<lparr>dchan := Suc (dchan s)\<rparr>) = Some (r, s')"
    have "nc_closed (s\<lparr>dchan := Suc (dchan s)\<rparr>)" using h by simp
    from keeps [OF this run] show "nc_closed s'" .
  qed
qed

interpretation closed: request_keeps "dsi_env N nfd nfc order" nc_closed "\<lambda>_ _ _. True" "\<lambda>_. True" for N nfd nfc order
  by unfold_locales (simp_all add: dsi_env_def request_closed)

lemma dsi_calls_closed: "io_keeps nc_closed (GetStatus N)" "io_keeps nc_closed (OpenSession N)"
proof -
  show "io_keeps nc_closed (GetStatus N)"
    unfolding GetStatus_def Request_def by (intro io_keeps_bind request_closed io_keeps_ret)
  have "io_keeps nc_closed (\<lambda>s. let (q, e) = open_options (Payload r) (ServerQuantum (dconn s))
       in Some (of_err e, s\<lparr>dconn := (dconn s)\<lparr>ServerQuantum := q\<rparr>\<rparr>))" for r
    by (auto simp: io_keeps_def Let_def split: prod.splits)
  then show "io_keeps nc_closed (OpenSession N)"
    unfolding OpenSession_def Request_def by (intro io_keeps_bind request_closed)
qed

lemma conn_Close_closes:
  assumes "conn_Close N s = Some (r, s')"
  shows "nc_closed s'"
  using assms
  by (auto simp: conn_Close_def conn_newID_def newID_def on_conn_def io_defs send_def nc_Close_def conn_fail_def
      split: option.splits if_splits prod.splits)

end
