(* ===== verification/Cli_Conns.thy ===== *)
theory Cli_Conns
  imports Cli Afp_Keeps
begin

text \<open>
  The connections of a run of the program: what each command opens it closes, through all early
  returns and deferred calls.
\<close>

section \<open>Connections are closed\<close>

text \<open>\<open>shrinks open m\<close>: unless \<open>m\<close> panics, what is open afterwards was open before.\<close>

definition shrinks :: "('s \<Rightarrow> nat set) \<Rightarrow> ('s, 'a) io \<Rightarrow> bool" where
  "shrinks opn m \<longleftrightarrow> (\<forall>s r s'. m s = Some (r, s') \<longrightarrow> r \<noteq> Panic \<longrightarrow> opn s' \<subseteq> opn s)"

lemma shrinksD: "shrinks opn m \<Longrightarrow> m s = Some (r, s') \<Longrightarrow> r \<noteq> Panic \<Longrightarrow> opn s' \<subseteq> opn s"
  by (auto simp: shrinks_def)

lemma shrinks_ret [intro!]: "shrinks opn (io_ret a)" and shrinks_res [intro!]: "shrinks opn (io_res r)"
  by (simp_all add: shrinks_def io_defs)

lemma shrinks_bind [intro]:
  assumes "shrinks opn m" and "\<And>a. shrinks opn (f a)"
  shows "shrinks opn (io_bind m f)"
  unfolding shrinks_def
proof (intro allI impI)
  fix s r s' assume "io_bind m f s = Some (r, s')" and "r \<noteq> Panic"
  then show "opn s' \<subseteq> opn s"
    using shrinksD [OF assms(1), of s] shrinksD [OF assms(2)]
    by (fastforce simp: io_bind_def split: option.splits res.splits)
qed

lemma shrinks_if [intro]: "(c \<Longrightarrow> shrinks opn m) \<Longrightarrow> (\<not> c \<Longrightarrow> shrinks opn n) \<Longrightarrow> shrinks opn (if c then m else n)"
  by simp

lemma shrinks_prod [intro]: "(\<And>a b. shrinks opn (f a b)) \<Longrightarrow> shrinks opn (case x of (a, b) \<Rightarrow> f a b)"
  by (cases x) simp

lemma shrinks_catch [intro]:
  assumes "shrinks opn m" and "\<And>e. shrinks opn (h e)"
  shows "shrinks opn (io_catch m h)"
  unfolding shrinks_def
proof (intro allI impI)
  fix s r s' assume "io_catch m h s = Some (r, s')" and "r \<noteq> Panic"
  then show "opn s' \<subseteq> opn s"
    using shrinksD [OF assms(1), of s] shrinksD [OF assms(2)]
    by (fastforce simp: io_catch_def split: option.splits res.splits)
qed

text \<open>A deferred call that shrinks to \<open>Y\<close> what a body leaves open.\<close>

lemma defer_closes:
  assumes "io_defer m d s = Some (r, s'')" and "r \<noteq> Panic"
  obtains s' r' where "m s = Some (r, s')" and "d s' = Some (r', s'')" and "r' \<noteq> Panic"
  using assms by (auto simp: io_defer_def split: option.splits if_splits)

lemma shrinks_defer [intro]: "shrinks opn m \<Longrightarrow> shrinks opn d \<Longrightarrow> shrinks opn (io_defer m d)"
  unfolding shrinks_def by (blast elim: defer_closes)

lemma shrinks_close_after [intro]:
  assumes "shrinks opn m" and "shrinks opn d"
  shows "shrinks opn (close_after m d)"
  unfolding shrinks_def
proof (intro allI impI)
  fix s r s' assume run: "close_after m d s = Some (r, s')" and np: "r \<noteq> Panic"
  then obtain r1 s1 where m: "m s = Some (r1, s1)" "r1 \<noteq> Panic"
    by (auto simp: close_after_def io_defer_def io_res_def split: option.splits res.splits if_splits)
  moreover have "\<exists>r2. d s1 = Some (r2, s') \<and> r2 \<noteq> Panic"
    using run np m by (auto simp: close_after_def io_defer_def io_res_def split: option.splits res.splits if_splits)
  ultimately show "opn s' \<subseteq> opn s"
    using shrinksD [OF assms(1)] shrinksD [OF assms(2)] by blast
qed

lemma shrinks_net: "shrinks opn m \<Longrightarrow> shrinks (\<lambda>s. opn (fst s)) (net m)"
  by (auto simp: shrinks_def net_def split: option.splits)

lemma shrinks_exit: "shrinks opn m \<Longrightarrow> shrinks opn (exit_code m)"
  by (auto simp: shrinks_def exit_code_def split: option.splits res.splits)

lemma keeps_shrinks:
  assumes "\<And>X. io_keeps (\<lambda>s. opn s \<subseteq> X) m"
  shows "shrinks opn m"
  unfolding shrinks_def using io_keepsD [OF assms] by blast

text \<open>
  What the commands rely on: a dial opens at most the connection it returns, \<^verbatim>\<open>Close\<close> closes it, and
  nothing else opens one.
\<close>

locale conn_tracking =
  fixes N :: "'s client" and opens :: "'s \<Rightarrow> nat set"
  assumes dial_ok: "cdial N host s = Some (Ok h, s') \<Longrightarrow> opens s' \<subseteq> insert h (opens s)"
    and dial_err: "cdial N host s = Some (Err e, s') \<Longrightarrow> opens s' \<subseteq> opens s"
    and close_closes: "cclose N h s = Some (r, s') \<Longrightarrow> opens s' \<subseteq> opens s - {h}"
    and request_opens: "io_keeps (\<lambda>s. opens s \<subseteq> X) (conn_request (cenv N h) cmd off p)"
    and status_opens: "shrinks opens (cget_status N h)"
    and open_opens: "shrinks opens (copen_session N h)"

sublocale conn_tracking \<subseteq> rk: request_keeps "cenv N h" "\<lambda>s. opens s \<subseteq> X" "\<lambda>_ _ _. True" "\<lambda>_. True" for h X
  by unfold_locales (simp_all add: request_opens)

context conn_tracking
begin

lemma session_shrinks:
  assumes "\<And>X. io_keeps (\<lambda>s. opens (sconn s) \<subseteq> X) (op (cenv N h))"
  shows "shrinks opens (in_session N h ver op)"
  unfolding shrinks_def
proof (intro allI impI)
  fix s r s' assume run: "in_session N h ver op s = Some (r, s')"
  then obtain r0 st where "op (cenv N h) \<lparr>sconn = s, Version = ver\<rparr> = Some (r0, st)" "s' = sconn st"
    by (auto simp: in_session_def split: option.splits res.splits)
  then show "opens s' \<subseteq> opens s"
    using io_keepsD [OF assms [of "opens s"], of "\<lparr>sconn = s, Version = ver\<rparr>" r0 st] by simp
qed

text \<open>A call that closes \<open>h\<close> on an error and gives it back otherwise.\<close>

lemma or_close_run:
  assumes "shrinks opens m" and "or_close N h m s = Some (r, s')" and "r \<noteq> Panic" and "opens s \<subseteq> insert h X"
  shows "(case r of Ok _ \<Rightarrow> opens s' \<subseteq> insert h X | _ \<Rightarrow> opens s' \<subseteq> X)"
proof -
  obtain r0 s1 where m: "m s = Some (r0, s1)" using assms(2) by (auto simp: or_close_def io_catch_def split: option.splits)
  show ?thesis
  proof (cases r0)
    case (Ok a)
    then show ?thesis using assms m shrinksD [OF assms(1) m] by (auto simp: or_close_def io_catch_def)
  next
    case (Err e)
    then have d: "io_defer (io_res (Err e)) (cclose N h) s1 = Some (r, s')"
      using assms(2) m by (simp add: or_close_def io_catch_def)
    from defer_closes [OF d assms(3)] obtain s2 r2 where
      "io_res (Err e) s1 = Some (r, s2)" "cclose N h s2 = Some (r2, s')" by metis
    then have "r = Err e" "opens s' \<subseteq> opens s1 - {h}" using close_closes by (auto simp: io_res_def)
    then show ?thesis using shrinksD [OF assms(1) m] Err assms(4) by auto
  next
    case Panic
    then show ?thesis using assms(2,3) m by (simp add: or_close_def io_catch_def)
  qed
qed

lemma dial_defer_shrinks:
  assumes "\<And>h. shrinks opens (k h)"
  shows "shrinks opens (io_bind (cdial N host) (\<lambda>h. io_defer (k h) (cclose N h)))"
  unfolding shrinks_def
proof (intro allI impI)
  fix s r s' assume run: "io_bind (cdial N host) (\<lambda>h. io_defer (k h) (cclose N h)) s = Some (r, s')" and np: "r \<noteq> Panic"
  obtain r0 s1 where d: "cdial N host s = Some (r0, s1)" using run by (auto simp: io_bind_def split: option.splits)
  show "opens s' \<subseteq> opens s"
  proof (cases r0)
    case (Ok h)
    then have "io_defer (k h) (cclose N h) s1 = Some (r, s')" using run d by simp
    from defer_closes [OF this np] obtain s2 r2 where
      "k h s1 = Some (r, s2)" "cclose N h s2 = Some (r2, s')" by metis
    then have "opens s2 \<subseteq> opens s1" "opens s' \<subseteq> opens s2 - {h}"
      using shrinksD [OF assms _ np] close_closes by blast+
    then show ?thesis using dial_ok d Ok by blast
  next
    case (Err e)
    then show ?thesis using run d dial_err by simp
  next
    case Panic
    then show ?thesis using run d np by simp
  qed
qed

lemma fetchStatus_shrinks: "shrinks opens (fetchStatus N host)"
  unfolding fetchStatus_def by (intro dial_defer_shrinks shrinks_bind status_opens shrinks_res)

lemma bind_run:
  assumes "io_bind m f s = Some (r, s')" and "r \<noteq> Panic"
  obtains (Ok) a s1 where "m s = Some (Ok a, s1)" and "f a s1 = Some (r, s')"
    | (Err) e where "m s = Some (Err e, s')" and "r = Err e"
  using assms by (auto simp: io_bind_def split: option.splits res.splits)

lemma connect_run:
  assumes "connect N C t s = Some (r, s')" and "r \<noteq> Panic"
  shows "case r of Ok (h, _) \<Rightarrow> opens s' \<subseteq> insert h (opens s) | _ \<Rightarrow> opens s' \<subseteq> opens s"
proof -
  have login: "shrinks opens (in_session N h [] (\<lambda>E. Login E C info (tusername t) (tpassword t)))" for h info
    by (rule session_shrinks) (rule rk.Login_keeps)
  show ?thesis
    using assms unfolding connect_def
  proof (cases rule: bind_run)
    case (Err e)
    show ?thesis using shrinksD [OF fetchStatus_shrinks Err(1)] by (simp add: Err(2))
  next
    case (Ok info s1)
    have s1: "opens s1 \<subseteq> opens s" using shrinksD [OF fetchStatus_shrinks Ok(1)] by simp
    from Ok(2) assms(2) show ?thesis
    proof (cases rule: bind_run)
      case (Err e)
      have "opens s' \<subseteq> opens s" using dial_err [OF Err(1)] s1 by (rule subset_trans)
      then show ?thesis by (simp add: Err(2))
    next
      case (Ok h s2)
      have s2: "opens s2 \<subseteq> insert h (opens s)" using dial_ok [OF Ok(1)] s1 by (auto simp: subset_iff)
      from Ok(2) assms(2) show ?thesis
      proof (cases rule: bind_run)
        case (Err e)
        show ?thesis using or_close_run [OF open_opens Err(1) _ s2] by (simp add: Err(2))
      next
        case (Ok _ s3)
        have s3: "opens s3 \<subseteq> insert h (opens s)" using or_close_run [OF open_opens Ok(1) _ s2] by simp
        from Ok(2) assms(2) show ?thesis
        proof (cases rule: bind_run)
          case (Err e)
          show ?thesis using or_close_run [OF login Err(1) _ s3] by (simp add: Err(2))
        next
          case (Ok a s4)
          have "opens s4 \<subseteq> insert h (opens s)" using or_close_run [OF login Ok(1) _ s3] by simp
          moreover have "r = Ok (h, snd a)" "s' = s4" using Ok(2) by (auto simp: io_ret_def split: prod.splits)
          ultimately show ?thesis by simp
        qed
      qed
    qed
  qed
qed

abbreviation opens2 :: "'s \<times> 'o \<Rightarrow> nat set" where
  "opens2 s \<equiv> opens (fst s)"

lemma with_session_shrinks:
  assumes "\<And>h ver. shrinks opens2 (k h ver)"
  shows "shrinks opens2 (with_session N C t k)"
  unfolding shrinks_def
proof (intro allI impI)
  fix s r s' assume run: "with_session N C t k s = Some (r, s')" and np: "r \<noteq> Panic"
  obtain x w where s: "s = (x, w)" by (cases s)
  from run have run': "io_bind (net (connect N C t)) (\<lambda>(h, ver).
       io_defer (io_defer (k h ver) (net (in_session N h ver Logout))) (net (cclose N h))) s = Some (r, s')"
    by (simp add: with_session_def)
  show "opens2 s' \<subseteq> opens2 s"
    using run' np
  proof (cases rule: bind_run)
    case (Err e)
    then obtain y where "connect N C t x = Some (Err e, y)" "fst s' = y"
      by (auto simp: s net_def split: option.splits)
    then show ?thesis using connect_run [of C t x "Err e" y] s by simp
  next
    case (Ok a s1)
    obtain h ver where a: "a = (h, ver)" by (cases a)
    have c: "connect N C t x = Some (Ok (h, ver), fst s1)"
      using Ok(1) by (auto simp: s a net_def split: option.splits)
    have s1: "opens2 s1 \<subseteq> insert h (opens2 s)" using connect_run [OF c] by (simp add: s)
    from Ok(2) have "io_defer (io_defer (k h ver) (net (in_session N h ver Logout))) (net (cclose N h)) s1 = Some (r, s')"
      by (simp add: a)
    from this np obtain s2 r2 where
      b: "io_defer (k h ver) (net (in_session N h ver Logout)) s1 = Some (r, s2)" and
      d: "net (cclose N h) s2 = Some (r2, s')" by (rule defer_closes)
    have "shrinks opens2 (io_defer (k h ver) (net (in_session N h ver Logout)))"
      by (rule shrinks_defer [OF assms]) (rule shrinks_net, rule session_shrinks, rule rk.session_keeps)
    from shrinksD [OF this b np] have "opens2 s2 \<subseteq> opens2 s1" .
    moreover have "cclose N h (fst s2) = Some (r2, fst s')"
      using d by (cases s2) (auto simp: net_def split: option.splits)
    then have "opens2 s' \<subseteq> opens2 s2 - {h}" by (rule close_closes)
    ultimately show ?thesis using s1 by auto
  qed
qed

lemma op_shrinks:
  assumes "\<And>X. io_keeps (\<lambda>s. opens (sconn s) \<subseteq> X) (op (cenv N h))"
  shows "shrinks opens2 (session_op N h ver op)" and "shrinks opens2 (net (in_session N h ver op))"
  unfolding session_op_def
  by (rule shrinks_bind, rule shrinks_net, rule session_shrinks, rule assms, rule shrinks_prod, rule shrinks_ret)
     (rule shrinks_net, rule session_shrinks, rule assms)

lemma with_open_volume_shrinks:
  assumes "\<And>vol. shrinks opens2 (k vol)"
  shows "shrinks opens2 (with_open_volume N h ver name k)"
  unfolding with_open_volume_def
  by (rule shrinks_bind, rule op_shrinks(2), rule rk.session_keeps, rule shrinks_prod, rule shrinks_defer, rule assms,
      rule op_shrinks(2), rule rk.session_keeps)

lemma withVolume_shrinks:
  assumes "\<And>h ver vol t. shrinks opens2 (fn h ver vol t)"
  shows "shrinks opens2 (withVolume N C up raw fn)"
  unfolding withVolume_def
  by (rule shrinks_bind, rule shrinks_res, rule shrinks_if, rule shrinks_res, rule with_session_shrinks,
      rule with_open_volume_shrinks, rule assms)

lemma withFork_shrinks:
  assumes "\<And>h ver f. shrinks opens2 (fn h ver f)"
  shows "shrinks opens2 (withFork_cli N C up raw fn)"
  unfolding withFork_cli_def
  by (rule shrinks_bind, rule shrinks_res, rule shrinks_if, rule shrinks_res, rule with_session_shrinks,
      rule with_open_volume_shrinks, rule shrinks_bind, rule op_shrinks, rule rk.fork_keeps [OF TrueI], rule shrinks_defer,
      rule assms, rule op_shrinks, rule rk.fork_close_keeps)

lemma copy_shrinks: "shrinks opens2 (copy_out N h ver f wr)" "shrinks opens2 (copy_in N h ver f src)"
proof -
  show "shrinks opens2 (copy_out N h ver f wr)"
    unfolding shrinks_def copy_out_def
  proof (intro allI impI)
    fix s r s'
    assume "(case s of (s, w) \<Rightarrow> case WriteToContext (cenv N h) f wr (\<lparr>sconn = s, Version = ver\<rparr>, w) of
       None \<Rightarrow> None
     | Some (Ok (n, e), (s', w')) \<Rightarrow> Some (res_bind (of_err e) (\<lambda>_. Ok n), (sconn s', w'))
     | Some (Err e, (s', w')) \<Rightarrow> Some (Err e, (sconn s', w'))
     | Some (Panic, (s', w')) \<Rightarrow> Some (Panic, (sconn s', w'))) = Some (r, s')"
    then obtain r0 st where st: "WriteToContext (cenv N h) f wr (\<lparr>sconn = fst s, Version = ver\<rparr>, snd s) = Some (r0, st)"
      "fst s' = sconn (fst st)"
      by (auto split: option.splits res.splits prod.splits)
    show "opens2 s' \<subseteq> opens2 s"
      using io_keepsD [OF rk.copy_keeps(1) [where X = "opens2 s"] _ st(1)] st(2) by simp
  qed
  show "shrinks opens2 (copy_in N h ver f src)"
    unfolding shrinks_def copy_in_def
  proof (intro allI impI)
    fix s r s'
    assume "(case s of (s, w) \<Rightarrow> case ReadFromContext (cenv N h) f (\<lparr>sconn = s, Version = ver\<rparr>, src) of
       None \<Rightarrow> None
     | Some (Ok (n, e), (s', _)) \<Rightarrow> Some (res_bind (of_err e) (\<lambda>_. Ok n), (sconn s', w))
     | Some (Err e, (s', _)) \<Rightarrow> Some (Err e, (sconn s', w))
     | Some (Panic, (s', _)) \<Rightarrow> Some (Panic, (sconn s', w))) = Some (r, s')"
    then obtain r0 st where st: "ReadFromContext (cenv N h) f (\<lparr>sconn = fst s, Version = ver\<rparr>, src) = Some (r0, st)"
      "fst s' = sconn (fst st)"
      by (auto split: option.splits res.splits prod.splits)
    show "opens2 s' \<subseteq> opens2 s"
      using io_keepsD [OF rk.copy_keeps(2) [where X = "opens2 s"] _ st(1)] st(2) by simp
  qed
qed

lemma local_shrinks: "shrinks opens2 (local_op op)" "shrinks opens2 (\<lambda>(s, w). Some (g w, (s, w)))"
  by (auto simp: shrinks_def local_op_def split: prod.splits)

lemma commands_shrink:
  "shrinks opens (runStatus N addr)" "shrinks opens2 (runVolumes N C up raw)" "shrinks opens2 (runLs N C up ft raw)"
  "shrinks opens2 (runCat N C up L raw)" "shrinks opens2 (runGet N C up L args)" "shrinks opens2 (runPut N C up L args)"
  "shrinks opens2 (runMkdir N C up raw)" "shrinks opens2 (runRm N C up raw)" "shrinks opens2 (runMv N C up args)"
proof -
  show "shrinks opens (runStatus N addr)"
    unfolding runStatus_def by (rule shrinks_bind, rule fetchStatus_shrinks, rule shrinks_ret)
  show "shrinks opens2 (runVolumes N C up raw)"
    unfolding runVolumes_def
    by (rule shrinks_bind, rule shrinks_res, rule with_session_shrinks, rule shrinks_bind, rule op_shrinks,
        rule rk.session_keeps, rule shrinks_ret)
  show "shrinks opens2 (runLs N C up ft raw)"
    unfolding runLs_def
    by (rule shrinks_bind, rule shrinks_res, rule shrinks_if, rule shrinks_res, rule with_session_shrinks,
        rule with_open_volume_shrinks, rule shrinks_bind, rule op_shrinks, rule rk.ReadDir_keeps [OF TrueI], rule shrinks_ret)
  show "shrinks opens2 (runCat N C up L raw)"
    unfolding runCat_def by (rule withFork_shrinks, rule shrinks_bind, rule copy_shrinks, rule shrinks_ret)
  show "shrinks opens2 (runGet N C up L args)"
    unfolding runGet_def Let_def
    by (rule shrinks_bind, rule shrinks_res, rule shrinks_if, rule shrinks_res, rule withFork_shrinks,
        rule shrinks_bind, rule local_shrinks, rule shrinks_close_after, rule copy_shrinks, rule local_shrinks)
  show "shrinks opens2 (runPut N C up L args)"
    unfolding runPut_def Let_def
    by (rule shrinks_if, rule shrinks_res, rule shrinks_bind, rule shrinks_res, rule shrinks_if, rule shrinks_res,
        rule shrinks_bind, rule local_shrinks, rule with_session_shrinks, rule with_open_volume_shrinks,
        rule shrinks_bind, rule op_shrinks, rule rk.vol_ops_keeps [OF TrueI], rule shrinks_bind, rule op_shrinks,
        rule rk.fork_keeps [OF TrueI],
        rule shrinks_defer, rule shrinks_bind, rule copy_shrinks, rule shrinks_ret, rule op_shrinks, rule rk.fork_close_keeps)
  show "shrinks opens2 (runMkdir N C up raw)" "shrinks opens2 (runRm N C up raw)"
    unfolding runMkdir_def runRm_def
    by (rule withVolume_shrinks, rule shrinks_if, rule shrinks_res, rule op_shrinks, rule rk.vol_ops_keeps [OF TrueI])+
  show "shrinks opens2 (runMv N C up args)"
    unfolding runMv_def
    by (rule shrinks_if, rule shrinks_res, rule withVolume_shrinks, rule shrinks_if, rule shrinks_res, rule op_shrinks,
        rule rk.vol_ops_keeps(8) [OF TrueI TrueI TrueI])
qed

lemma main_shrinks:
  assumes "argv ! 1 \<noteq> ''mount''"
  shows "shrinks opens2 (goafp_main N C up L ft X argv)"
  unfolding goafp_main_def Let_def using assms
  by (intro shrinks_if shrinks_exit commands_shrink shrinks_net shrinks_ret) simp_all

end

section \<open>The connections of a whole run\<close>

definition open_conns :: "'w hosts \<Rightarrow> nat set" where
  "open_conns s = {h. h < hnext s \<and> \<not> nc_closed (hconns s h)}"

lemma at_conn_keeps:
  assumes "io_keeps nc_closed m"
  shows "io_keeps (\<lambda>s. open_conns s \<subseteq> X) (at_conn h m)"
  unfolding io_keeps_def
proof (intro allI impI)
  fix s :: "'a hosts" and r s' assume "open_conns s \<subseteq> X" and "at_conn h m s = Some (r, s')"
  then show "open_conns s' \<subseteq> X"
    using io_keepsD [OF assms, of "dsi_of s h"]
    by (auto simp: at_conn_def open_conns_def dsi_of_def split: option.splits if_splits)
qed

interpretation conns: conn_tracking "dsi_client W nfd nfc order tcp" open_conns for W nfd nfc order tcp
proof
  fix host and s :: "'a hosts" and h s'
  assume "cdial (dsi_client W nfd nfc order tcp) host s = Some (Ok h, s')"
  then show "open_conns s' \<subseteq> insert h (open_conns s)"
    by (auto simp: dsi_client_def Dial_def open_conns_def Let_def less_Suc_eq split: res.splits if_splits prod.splits)
next
  fix host and s :: "'a hosts" and e s'
  assume "cdial (dsi_client W nfd nfc order tcp) host s = Some (Err e, s')"
  then show "open_conns s' \<subseteq> open_conns s"
    by (auto simp: dsi_client_def Dial_def open_conns_def Let_def split: res.splits if_splits prod.splits)
next
  fix h and s :: "'a hosts" and r s'
  assume "cclose (dsi_client W nfd nfc order tcp) h s = Some (r, s')"
  then show "open_conns s' \<subseteq> open_conns s - {h}"
    using conn_Close_closes [of "W h" "dsi_of s h"]
    by (auto simp: dsi_client_def at_conn_def open_conns_def split: option.splits if_splits)
next
  fix X h cmd off p
  show "io_keeps (\<lambda>s. open_conns s \<subseteq> X) (conn_request (cenv (dsi_client W nfd nfc order tcp) h) cmd off p)"
    by (simp add: dsi_client_def at_conn_keeps request_closed)
next
  fix h
  show "shrinks open_conns (cget_status (dsi_client W nfd nfc order tcp) h)"
    "shrinks open_conns (copen_session (dsi_client W nfd nfc order tcp) h)"
    by (intro keeps_shrinks, simp add: dsi_client_def at_conn_keeps dsi_calls_closed)+
qed

text \<open>
  (C15) No command leaks a connection: whatever the arguments, the servers, the network and the local
  system do, when a command other than \<^verbatim>\<open>mount\<close> ends without a panic, on any path through its early
  returns and deferred calls, the transport of every connection it dialed, the throwaway one of the status
  query included, has been closed.
\<close>
theorem main_closes_connections:
  assumes "goafp_main (dsi_client W nfd nfc order tcp) C up L ft X argv (s, w) = Some (r, (s', w'))"
    and "r \<noteq> Panic" and "argv ! 1 \<noteq> ''mount''" and "hnext s = 0"
  shows "\<forall>h < hnext s'. ncClosed (dconn (hconns s' h))"
proof -
  have "open_conns s' \<subseteq> open_conns s"
    using shrinksD [OF conns.main_shrinks [OF assms(3)] assms(1,2)] by simp
  with assms(4) show ?thesis by (auto simp: open_conns_def)
qed

text \<open>A status query over a network on which every write fails: exit code 1, and the connection is closed.\<close>

definition down_net :: "unit net" where
  "down_net = \<lparr>nc_Write = (\<lambda>_ w. (Some (Opaque ''down''), w)), nc_arrive = (\<lambda>w. ([], Some EOF, EOF, w))\<rparr>"

definition no_local :: "unit local" where
  "no_local = \<lparr>lcreate = (\<lambda>_ w. (None, w)), lwrite = (\<lambda>_ _ w. (None, w)), lclose = (\<lambda>_ w. (None, w)),
     lopen = (\<lambda>_ _. Err ErrNotExist), lstdout = (\<lambda>_ w. (None, w))\<rparr>"

definition no_mount :: "('w hosts, unit, unit) mounter" where
  "no_mount = \<lparr>mlisten = (\<lambda>_. Ok ()), maddr = (\<lambda>_. \<lparr>aIP = ''127.0.0.1'', aPort = 2049, aZone = []\<rparr>), mGOOS = ''linux'',
     mquote = (\<lambda>x. x), mnfs = \<lparr>NewNullAuthHandler = (\<lambda>_ _. \<lparr>hmethods = (), hFSStat = io_ret\<rparr>),
       NewCachingHandler = (\<lambda>h _. h), nfs_Serve = (\<lambda>_ _. io_ret ())\<rparr>\<rparr>"

theorem main_closes_connections_witness:
  "\<exists>s'. goafp_main (dsi_client (\<lambda>_. down_net) (\<lambda>x. x) (\<lambda>x. x) (\<lambda>_ n. [0..<n]) (\<lambda>_ w. (Ok (), w))) sample_crypto
      (\<lambda>_. Err EOF) no_local (\<lambda>_. []) no_mount [''goafp'', ''status'', ''host'']
      (\<lparr>hconns = (\<lambda>_. fresh_dsi ()), hnext = 0, hworld = ()\<rparr>, ()) = Some (Ok 1, (s', ()))
    \<and> hnext s' = 1 \<and> ncClosed (dconn (hconns s' 0))"
proof -
  have "register_loop Map.empty 0 = Some 1" by (simp add: register_loop.simps)
  then obtain s' where run: "goafp_main (dsi_client (\<lambda>_. down_net) (\<lambda>x. x) (\<lambda>x. x) (\<lambda>_ n. [0..<n]) (\<lambda>_ w. (Ok (), w))) sample_crypto
      (\<lambda>_. Err EOF) no_local (\<lambda>_. []) no_mount [''goafp'', ''status'', ''host'']
      (\<lparr>hconns = (\<lambda>_. fresh_dsi ()), hnext = 0, hworld = ()\<rparr>, ()) = Some (Ok 1, (s', ()))" and "hnext s' = 1"
    by (simp add: goafp_main_def runStatus_def fetchStatus_def dsi_client_def Dial_def at_conn_def GetStatus_def
        Request_def request_def register_def NewConn_def on_conn_def send_def down_net_def conn_Close_def conn_newID_def
        newID_def nc_Close_def conn_fail_def exit_code_def net_def io_defs unregister_def fresh_dsi_def dsi_of_def Let_def)
  from main_closes_connections [OF run] \<open>hnext s' = 1\<close> run show ?thesis by auto
qed

end
