(* ===== verification/Request_Types.thy ===== *)
theory Request_Types
  imports Afp_Keeps
begin

text \<open>
  The types of the AFP requests: which fields follow each command code, how the request travels in DSI, and
  that every request of every operation has its type. The field readers are those of the wire format.
\<close>

section \<open>Layouts\<close>

datatype ftype = TU8 | TU16 | TU32 | TU64 | TPascal | TPath | TEven | TBytes nat | TBlob

text \<open>
  Reading over one field. A path has the UTF-8 type and hint; \<open>TEven\<close> is the byte, if any, that brings the position to
  an even number; \<open>TBlob\<close> is all that is left.
\<close>

fun skip :: "ftype \<Rightarrow> reader \<Rightarrow> reader" where
  "skip TU8 r = snd (reader_u8 [] r)"
| "skip TU16 r = snd (reader_u16 [] r)"
| "skip TU32 r = snd (reader_u32 [] r)"
| "skip TU64 r = snd (reader_u64 [] r)"
| "skip TPascal r = snd (reader_pascal [] r)"
| "skip TPath r = (let ((t, h, _), r) = read_path r in if t = kFPUTF8Name \<and> h = utf8PathHint then r else reader_fail [] r)"
| "skip TEven r = (if even (rpos r) then r else snd (reader_u8 [] r))"
| "skip (TBytes n) r = snd (reader_take n [] r)"
| "skip TBlob r = snd (reader_take (length (rb r) - rpos r) [] r)"

definition has_layout :: "ftype list \<Rightarrow> bytes \<Rightarrow> bool" where
  "has_layout fs p \<longleftrightarrow> (let r = fold skip fs (new_reader p) in rerr r = None \<and> rpos r = length p)"

text \<open>
  The layouts by command code, after the code and the byte that follows it. The parameters of FPSetFileDirParms
  and FPSetForkParms depend on their bitmap, which stands before them at a fixed place.
\<close>

definition param_types :: "16 word \<Rightarrow> ftype list option" where
  "param_types bm =
     map_of [(kFPModDateBit, [TU32]), (kFPUnixPrivsBit, [TU32, TU32, TU32, TU32]), (kFPFinderInfoBit, [TBytes 32])] bm"

definition fork_param_types :: "16 word \<Rightarrow> ftype list option" where
  "fork_param_types bm = map_of [(kFPDataForkLenBit, [TU32]), (kFPExtDataForkLenBit, [TU64])] bm"

definition layout_table :: "(byte \<times> ftype list) list" where
  "layout_table =
     [(cmdLogout, []), (cmdGetSrvrParms, []), (cmdOpenVol, [TU16, TPascal]), (cmdCloseVol, [TU16]), (cmdGetVolParms, [TU16, TU16]),
      (cmdLoginCont, [TU16, TBlob]), (cmdCloseFork, [TU16]), (cmdReadExt, [TU16, TU64, TU64]),
      (cmdEnumerateExt2, [TU16, TU32, TU16, TU16, TU16, TU32, TU32, TPath]), (cmdGetFileDirParms, [TU16, TU32, TU16, TU16, TPath]),
      (cmdOpenFork, [TU16, TU32, TU16, TU16, TPath]), (cmdCreateFile, [TU16, TU32, TPath]), (cmdCreateDir, [TU16, TU32, TPath]),
      (cmdDelete, [TU16, TU32, TPath]), (cmdMoveAndRename, [TU16, TU32, TU32, TPath, TPath, TPath])]"

definition layout :: "bytes \<Rightarrow> ftype list option" where
  "layout p =
     (let c = p ! 0 in
      if c = cmdLogin then Some [TU8, TPascal, TPascal, TBlob]
      else if c = cmdSetFileDirParms
      then map_option (\<lambda>ps. [TU8, TU8, TU16, TU32, TU16, TPath, TEven] @ ps) (param_types (get16 (take 2 (drop 8 p))))
      else if c = cmdSetForkParms
      then map_option (\<lambda>ps. [TU8, TU8, TU16, TU16] @ ps) (fork_param_types (get16 (take 2 (drop 4 p))))
      else map_option (\<lambda>fs. [TU8, TU8] @ fs) (map_of layout_table c))"

text \<open>
  A packet of the client: FPWriteExt goes as DSIWrite, its data at byte 20 and as many as it says, every other request
  as DSICommand.
\<close>

definition well_typed :: "8 word \<Rightarrow> 32 word \<Rightarrow> bytes \<Rightarrow> bool" where
  "well_typed cmd off p \<longleftrightarrow> p \<noteq> [] \<and>
     (if p ! 0 = cmdWriteExt
      then cmd = CmdWrite \<and> off = 20 \<and> has_layout [TU8, TU8, TU16, TU64, TU64, TBlob] p \<and>
        get64 (take 8 (drop 12 p)) = word_of_nat (length p - 20)
      else cmd = CmdCommand \<and> off = 0 \<and> (case layout p of None \<Rightarrow> False | Some fs \<Rightarrow> has_layout fs p))"

section \<open>The requests have their types\<close>

lemma skip_rd:
  "skip TU8 (rd pre (b # rest)) = rd (pre @ [b]) rest"
  "skip TU16 (rd pre (put16 x @ rest)) = rd (pre @ put16 x) rest"
  "skip TU32 (rd pre (put32 y @ rest)) = rd (pre @ put32 y) rest"
  "skip TU64 (rd pre (put64 z @ rest)) = rd (pre @ put64 z) rest"
  "length s < 256 \<Longrightarrow> skip TPascal (rd pre (put_pascal s @ rest)) = rd (pre @ put_pascal s) rest"
  "skip TBlob (rd pre rest) = rd (pre @ rest) []"
  "even (length pre) \<Longrightarrow> skip TEven (rd pre rest) = rd pre rest"
  "odd (length pre) \<Longrightarrow> skip TEven (rd pre (b # rest)) = rd (pre @ [b]) rest"
  using reader_take_rd [of rest _ "[]" pre "[]"] by (simp_all del: reader_num_snd)

lemma skip_path:
  assumes "path_ok nfd p"
  shows "skip TPath (rd pre (kFPUTF8Name # put32 utf8PathHint @ put_pascal2 (slash_to_nul (nfd (trim_slash p))) @ rest)) =
    rd (pre @ kFPUTF8Name # put32 utf8PathHint @ put_pascal2 (slash_to_nul (nfd (trim_slash p)))) rest"
  by (simp add: read_path_put [OF assms])

lemma has_layout_rd: "fold skip fs (rd [] p) = rd p [] \<Longrightarrow> has_layout fs p"
  by (simp add: has_layout_def new_reader_rd)

lemma layout_cmd:
  "layout (cmdLogin # p) = Some [TU8, TPascal, TPascal, TBlob]"
  "layout (cmdLoginCont # p) = Some [TU8, TU8, TU16, TBlob]"
  "layout (cmdLogout # p) = Some [TU8, TU8]"
  "layout (cmdGetSrvrParms # p) = Some [TU8, TU8]"
  "layout (cmdOpenVol # p) = Some [TU8, TU8, TU16, TPascal]"
  "layout (cmdCloseVol # p) = Some [TU8, TU8, TU16]"
  "layout (cmdGetVolParms # p) = Some [TU8, TU8, TU16, TU16]"
  "layout (cmdCloseFork # p) = Some [TU8, TU8, TU16]"
  "layout (cmdReadExt # p) = Some [TU8, TU8, TU16, TU64, TU64]"
  "layout (cmdEnumerateExt2 # p) = Some [TU8, TU8, TU16, TU32, TU16, TU16, TU16, TU32, TU32, TPath]"
  "layout (cmdGetFileDirParms # p) = Some [TU8, TU8, TU16, TU32, TU16, TU16, TPath]"
  "layout (cmdOpenFork # p) = Some [TU8, TU8, TU16, TU32, TU16, TU16, TPath]"
  "layout (cmdCreateFile # p) = Some [TU8, TU8, TU16, TU32, TPath]"
  "layout (cmdCreateDir # p) = Some [TU8, TU8, TU16, TU32, TPath]"
  "layout (cmdDelete # p) = Some [TU8, TU8, TU16, TU32, TPath]"
  "layout (cmdMoveAndRename # p) = Some [TU8, TU8, TU16, TU32, TU32, TPath, TPath, TPath]"
  by (simp_all add: layout_def layout_table_def cmd_defs)

lemma typed_command:
  "c \<noteq> cmdWriteExt \<Longrightarrow> layout (c # p) = Some fs \<Longrightarrow> fold skip fs (rd [] (c # p)) = rd (c # p) [] \<Longrightarrow>
    well_typed CmdCommand 0 (c # p)"
  by (simp add: well_typed_def has_layout_rd)

lemma skip_last:
  "skip TU16 (rd pre (put16 x)) = rd (pre @ put16 x) []" "skip TU32 (rd pre (put32 y)) = rd (pre @ put32 y) []"
  "skip TU64 (rd pre (put64 z)) = rd (pre @ put64 z) []"
  "length s < 256 \<Longrightarrow> skip TPascal (rd pre (put_pascal s)) = rd (pre @ put_pascal s) []"
  "path_ok nfd p \<Longrightarrow> skip TPath (rd pre (kFPUTF8Name # put32 utf8PathHint @ put_pascal2 (slash_to_nul (nfd (trim_slash p))))) =
    rd (pre @ kFPUTF8Name # put32 utf8PathHint @ put_pascal2 (slash_to_nul (nfd (trim_slash p)))) []"
  "length b = n \<Longrightarrow> skip (TBytes n) (rd pre b) = rd (pre @ b) []"
  using skip_rd(2-5) [where rest = "[]"] skip_path [where rest = "[]"] by simp_all

lemmas skips = skip_rd skip_path skip_last

lemma typed_session:
  "well_typed CmdCommand 0 (cmdLogin # put_pascal (take 255 ver) @ put_pascal (take 255 uam) @ auth)"
  "well_typed CmdCommand 0 (cmdLoginCont # 0 # put16 i @ auth)" "well_typed CmdCommand 0 [cmdLogout, 0]"
  "well_typed CmdCommand 0 [cmdGetSrvrParms, 0]"
  "well_typed CmdCommand 0 (cmdOpenVol # 0 # put16 bm @ put_pascal (take 255 name))"
  "well_typed CmdCommand 0 (cmdCloseVol # 0 # put16 i)" "well_typed CmdCommand 0 (cmdGetVolParms # 0 # put16 i @ put16 bm)"
  by (rule typed_command, simp add: cmd_defs, rule layout_cmd, simp add: skips del: skip.simps)+

lemma typed_fork:
  "well_typed CmdCommand 0 (close_request f)" "well_typed CmdCommand 0 (read_request f pos cnt)"
  "well_typed CmdCommand 0 (truncate_request f sz)" "well_typed CmdWrite 20 (write_header f pos d @ d)"
proof -
  show "well_typed CmdCommand 0 (close_request f)" "well_typed CmdCommand 0 (read_request f pos cnt)"
    unfolding close_request_def read_request_def builder_defs Let_def append.simps
    by (rule typed_command, simp add: cmd_defs, rule layout_cmd, simp add: skips del: skip.simps)+
  have lay: "layout (cmdSetForkParms # 0 # put16 i @ put16 bm @ p) = map_option (\<lambda>ps. [TU8, TU8, TU16, TU16] @ ps) (fork_param_types bm)"
    for i bm p by (cases "fork_param_types bm") (simp_all add: layout_def cmd_defs)
  have "well_typed CmdCommand 0 (cmdSetForkParms # 0 # put16 i @ put16 kFPDataForkLenBit @ put32 x)"
    "well_typed CmdCommand 0 (cmdSetForkParms # 0 # put16 i @ put16 kFPExtDataForkLenBit @ put64 y)" for i x y
    by (rule typed_command, simp add: cmd_defs, simp add: lay fork_param_types_def kFP_defs, simp add: skips del: skip.simps)+
  then show "well_typed CmdCommand 0 (truncate_request f sz)" by (simp add: truncate_request_def builder_defs Let_def)
  have "has_layout [TU8, TU8, TU16, TU64, TU64, TBlob] (write_header f pos d @ d)"
    by (rule has_layout_rd) (simp add: write_header_def builder_defs Let_def skips del: skip.simps)
  then show "well_typed CmdWrite 20 (write_header f pos d @ d)"
    unfolding well_typed_def request_cmd by (simp add: write_header_def builder_defs Let_def)
qed

lemma typed_path:
  assumes "path_ok (norm_nfd E) path"
  shows "well_typed CmdCommand 0 (enum_request E v dirID path start)" "well_typed CmdCommand 0 (stat_request E v dirID path)"
    "well_typed CmdCommand 0 (open_request E v dirID path mode)" "well_typed CmdCommand 0 (create_request E v dirID path ow)"
    "well_typed CmdCommand 0 (builder_path (norm_nfd E) (cmdCreateDir # 0 # put16 i @ put32 dirID) path)"
    "well_typed CmdCommand 0 (builder_path (norm_nfd E) (cmdDelete # 0 # put16 i @ put32 dirID) path)"
  unfolding enum_request_def stat_request_def open_request_def create_request_def builder_path_eq builder_defs Let_def split_def append.simps
  by (rule typed_command, simp add: cmd_defs, rule layout_cmd, simp add: skips assms del: skip.simps)+

lemma typed_rename:
  assumes "path_ok (norm_nfd E) path" and "path_ok (norm_nfd E) (fst (splitPath to))" and "path_ok (norm_nfd E) (snd (splitPath to))"
  shows "well_typed CmdCommand 0 (rename_request E v dirID path to)"
  unfolding rename_request_def builder_path_eq builder_defs Let_def split_def append.simps
  by (rule typed_command, simp add: cmd_defs, rule layout_cmd, simp add: skips assms del: skip.simps)

lemma even_pad: "builder_evenPad w = (if odd (length w) then w @ [0] else w)"
  by (simp add: builder_evenPad_def builder_u8_def odd_iff_mod_2_eq_one)

lemma skip_even: "skip TEven (rd w ((if odd (length w) then [0] else []) @ b)) = rd (w @ (if odd (length w) then [0] else [])) b"
  by (simp add: skip_rd del: skip.simps)

lemma typed_params:
  assumes "path_ok (norm_nfd E) path" and "param_types bm = Some ps"
    and ps: "\<And>pre. fold skip ps (rd pre b) = rd (pre @ b) []"
  shows "well_typed CmdCommand 0 (writeParamsHeader E v bm dirID path @ b)"
proof -
  define t where "t = 0 # put16 (vID v) @ put32 dirID @ put16 bm @ kFPUTF8Name # put32 utf8PathHint @
    put_pascal2 (slash_to_nul (norm_nfd E (trim_slash path)))"
  let ?w = "cmdSetFileDirParms # t" and ?fs = "[TU8, TU8, TU16, TU32, TU16, TPath]"
  let ?pad = "if odd (length ?w) then [0] else [] :: bytes"
  have w: "writeParamsHeader E v bm dirID path @ b = cmdSetFileDirParms # t @ ?pad @ b"
    unfolding writeParamsHeader_def builder_path_eq builder_defs Let_def even_pad t_def by simp
  have "fold skip ?fs (rd [] (cmdSetFileDirParms # t @ x)) = rd ?w x" for x
    unfolding t_def by (simp add: skips assms(1) del: skip.simps)
  then have "fold skip (?fs @ TEven # ps) (rd [] (cmdSetFileDirParms # t @ ?pad @ b)) = rd (cmdSetFileDirParms # t @ ?pad @ b) []"
    by (simp only: fold_append comp_apply fold_simps skip_even ps) simp
  moreover have "layout (cmdSetFileDirParms # t @ ?pad @ b) = Some (?fs @ TEven # ps)"
    using assms(2) unfolding t_def by (simp add: layout_def cmd_defs)
  ultimately show ?thesis unfolding w by (intro typed_command) (simp add: cmd_defs)
qed

lemma typed_set_params:
  assumes "path_ok (norm_nfd E) path"
  shows "well_typed CmdCommand 0 (mod_time_request E v dirID path t)"
    "well_typed CmdCommand 0 (writeParamsHeader E v kFPUnixPrivsBit dirID path @ put32 uid @ put32 gid @ put32 perm @ put32 0)"
    "well_typed CmdCommand 0 (finder_request E v dirID path symlinkFinderInfo)"
  unfolding mod_time_request_def finder_request_def Let_def builder_defs
  by (rule typed_params [OF assms], simp add: param_types_def kFP_defs, simp add: skips symlinkFinderInfo_def del: skip.simps)+

section \<open>Every packet of every operation\<close>

text \<open>The connection with the packets handed to it kept beside it.\<close>

definition tap_env :: "'s env \<Rightarrow> ('s \<times> (8 word \<times> 32 word \<times> bytes) list) env" where
  "tap_env E =
     \<lparr>conn_request = (\<lambda>cmd off p (c, l). case conn_request E cmd off p c of
          None \<Rightarrow> None | Some (r, c') \<Rightarrow> Some (r, (c', l @ [(cmd, off, p)]))),
      conn_quantum = (\<lambda>(c, l). conn_quantum E c), norm_nfd = norm_nfd E, norm_nfc = norm_nfc E,
      group_order = (\<lambda>(c, l). group_order E c)\<rparr>"

definition all_typed :: "'s \<times> (8 word \<times> 32 word \<times> bytes) list \<Rightarrow> bool" where
  "all_typed s \<longleftrightarrow> (\<forall>(cmd, off, p) \<in> set (snd s). well_typed cmd off p)"

lemma tap_keeps: "well_typed cmd off p \<Longrightarrow> io_keeps all_typed (conn_request (tap_env E) cmd off p)"
  by (auto simp: io_keeps_def tap_env_def all_typed_def split: option.splits prod.splits)

interpretation tap: request_keeps "tap_env E" all_typed well_typed "path_ok (norm_nfd E)" for E :: "'s env"
proof -
  have nfd: "norm_nfd (tap_env E) = norm_nfd E" by (simp add: tap_env_def)
  show "request_keeps (tap_env E) all_typed well_typed (path_ok (norm_nfd E))"
    by unfold_locales
      (simp_all add: nfd tap_keeps typed_session typed_fork typed_path typed_path(5,6) [where E = E] typed_rename typed_set_params)
qed

text \<open>Whatever the operation returns, the packets sent are well-typed if those before were.\<close>

definition sends_typed :: "(('s \<times> (8 word \<times> 32 word \<times> bytes) list) session, 'a) io \<Rightarrow> bool" where
  "sends_typed m \<longleftrightarrow> io_keeps (\<lambda>s. all_typed (sconn s)) m"

text \<open>
  (C5) Every packet the AFP layer sends is a well-typed AFP request, whatever the server answers: it has exactly
  the fields of its command and nothing after them, counts that agree with the data they announce, parameters that agree
  with their bitmap, the pad byte where one is due, and travels in the DSI command that fits it. The paths must have
  a length of 16 bits.
\<close>
theorem requests_well_typed:
  assumes "path_ok (norm_nfd E) path"
    and "path_ok (norm_nfd E) (fst (splitPath to))" and "path_ok (norm_nfd E) (snd (splitPath to))"
  shows "sends_typed (Login (tap_env E) C info user pw) \<and> sends_typed (Logout (tap_env E)) \<and>
    sends_typed (ListVolumes (tap_env E)) \<and> sends_typed (OpenVolume (tap_env E) name) \<and>
    sends_typed (Volume_Close (tap_env E) v) \<and> sends_typed (StatFS (tap_env E) v) \<and>
    sends_typed (ReadDir (tap_env E) v dirID path) \<and> sends_typed (Stat (tap_env E) v dirID path) \<and>
    sends_typed (Mkdir (tap_env E) v dirID path) \<and> sends_typed (CreateFile (tap_env E) v dirID path ow) \<and>
    sends_typed (Delete (tap_env E) v dirID path) \<and> sends_typed (Rename (tap_env E) v dirID path to) \<and>
    sends_typed (SetUnixPrivs (tap_env E) v dirID path uid gid perm) \<and>
    sends_typed (SetModTime (tap_env E) v dirID path t) \<and> sends_typed (Symlink (tap_env E) v dirID path target) \<and>
    sends_typed (ReadLink (tap_env E) v dirID path) \<and> sends_typed (openFork (tap_env E) v dirID path mode) \<and>
    sends_typed (Fork_Close (tap_env E) f) \<and> sends_typed (Fork_Truncate (tap_env E) f sz) \<and>
    sends_typed (ReadAt (tap_env E) f b off) \<and> sends_typed (WriteAt (tap_env E) f b off) \<and>
    io_keeps (\<lambda>st. all_typed (sconn (fst st))) (WriteToContext (tap_env E) f wr) \<and>
    io_keeps (\<lambda>st. all_typed (sconn (fst st))) (ReadFromContext (tap_env E) f)"
  using assms unfolding sends_typed_def
  by (intro conjI tap.Login_keeps tap.session_keeps tap.vol_ops_keeps tap.fork_keeps tap.fork_close_keeps tap.ReadDir_keeps
      tap.ReadAt_keeps tap.WriteAt_keeps tap.copy_keeps tap.link_keeps)

text \<open>A rename against a server that accepts everything: one packet is sent, and it is well-typed.\<close>

theorem requests_well_typed_witness:
  "\<exists>s' p. Rename (tap_env (serve_env 0 (\<lambda>_ _ _ c. (([], 0), c)))) sample_volume 2 ''a'' ''d/b'' (NewSession ((), [])) = Some (Ok (), s') \<and>
     snd (sconn s') = [(CmdCommand, 0, p)] \<and> well_typed CmdCommand 0 p"
proof -
  let ?E = "serve_env 0 (\<lambda>_ _ _ c. (([], 0), c)) :: unit env"
  have sp: "splitPath ''d/b'' = (''d'', ''b'')" by (simp add: splitPath_def last_slash_def trim_slash_def)
  obtain s' p where run: "Rename (tap_env ?E) sample_volume 2 ''a'' ''d/b'' (NewSession ((), [])) = Some (Ok (), s')"
      and log: "snd (sconn s') = [(CmdCommand, 0, p)]"
    by (simp add: Rename_def simple_command_def command_def on_sconn_def tap_env_def serve_env_def NewSession_def io_defs
        result_of_code_def of_err_resultErr)
  have ok: "path_ok (norm_nfd ?E) ''a''" "path_ok (norm_nfd ?E) (fst (splitPath ''d/b''))"
      "path_ok (norm_nfd ?E) (snd (splitPath ''d/b''))"
    by (simp_all add: path_ok_def sp trim_slash_def)
  have "sends_typed (Rename (tap_env ?E) sample_volume 2 ''a'' ''d/b'')" using requests_well_typed [OF ok] by blast
  from io_keepsD [OF this [unfolded sends_typed_def] _ run] have "all_typed (sconn s')" by (simp add: all_typed_def NewSession_def)
  with run log show ?thesis by (auto simp: all_typed_def)
qed

end
