(* ===== verification/Mkbig.thy ===== *)
theory Mkbig
  imports Fork
begin

text \<open>
  \<^verbatim>\<open>test/integration/mkbig/main.go\<close>: the program that writes the test file of the integration tests, a
  repeating pattern of 251 byte values.
\<close>

section \<open>Definitions\<close>

text \<open>\<^verbatim>\<open>strconv.Atoi\<close>: an optional sign and decimal digits, within the range of an \<^verbatim>\<open>int\<close>.\<close>

definition is_digit :: "char \<Rightarrow> bool" where
  "is_digit c \<longleftrightarrow> c \<in> set ''0123456789''"

definition digits_val :: "string \<Rightarrow> int" where
  "digits_val ds = foldl (\<lambda>v c. 10 * v + (int (of_char c) - 48)) 0 ds"

definition Atoi :: "string \<Rightarrow> int res" where
  "Atoi s =
     (let neg = (s \<noteq> [] \<and> hd s = CHR ''-'');
          ds = (if s \<noteq> [] \<and> (hd s = CHR ''-'' \<or> hd s = CHR ''+'') then tl s else s);
          n = (if neg then - digits_val ds else digits_val ds)
      in if ds = [] \<or> \<not> list_all is_digit ds
         then Err (Errorf ''strconv.Atoi: parsing %q: invalid syntax'' [AStr s])
         else if n < - (2 ^ 63) \<or> n \<ge> 2 ^ 63
         then Err (Errorf ''strconv.Atoi: parsing %q: value out of range'' [AStr s])
         else Ok n)"

text \<open>The loop over the buffer, which assigns \<^verbatim>\<open>byte(i % 251)\<close> to each element.\<close>

function fill :: "nat \<Rightarrow> bytes \<Rightarrow> bytes" where
  "fill i buf = (if i < length buf then fill (Suc i) (buf[i := word_of_nat (i mod 251)]) else buf)"
  by auto
termination by (relation "measure (\<lambda>(i, buf). length buf - i)") auto

declare fill.simps [simp del]

text \<open>
  The exit code: \<^verbatim>\<open>log.Fatal\<close> exits with 1, and a negative size makes \<^verbatim>\<open>make\<close> panic. \<open>write\<close> is \<^verbatim>\<open>os.WriteFile\<close>
  with the mode the program gives.
\<close>

definition mkbig_main :: "(string \<Rightarrow> bytes \<Rightarrow> nat \<Rightarrow> 'o \<Rightarrow> goerr option \<times> 'o) \<Rightarrow> string list \<Rightarrow> ('o, nat) io" where
  "mkbig_main write argv w =
     (if length argv \<noteq> 3 then Some (Ok 1, w)
      else (case Atoi (argv ! 2) of
         Ok n \<Rightarrow>
           if n < 0 then Some (Panic, w)
           else (case write (argv ! 1) (fill 0 (replicate (nat n) 0)) 420 w of
                   (None, w') \<Rightarrow> Some (Ok 0, w')
                 | (Some e, w') \<Rightarrow> Some (Ok 1, w'))
       | _ \<Rightarrow> Some (Ok 1, w)))"

section \<open>The pattern\<close>

lemma fill_from:
  "fill i buf = take i buf @ map (\<lambda>k. word_of_nat (k mod 251)) [i..<length buf]"
proof (induction i buf rule: fill.induct)
  case (1 i buf)
  show ?case
  proof (cases "i < length buf")
    case True
    have "take (Suc i) (buf[i := word_of_nat (i mod 251)]) = take i buf @ [word_of_nat (i mod 251)]"
      using True by (simp add: take_Suc_conv_app_nth)
    with 1 True show ?thesis by (subst fill.simps) (simp add: upt_conv_Cons)
  next
    case False
    then show ?thesis by (subst fill.simps) simp
  qed
qed

lemma fill_pattern: "fill 0 (replicate n 0) = map (\<lambda>k. word_of_nat (k mod 251)) [0..<n]"
  by (simp add: fill_from)

text \<open>Two places of the file hold the same byte only when they are a multiple of 251 apart, so that a chunk read from a wrong place shows.\<close>

lemma pattern_distinct:
  assumes "i < n" and "j < n"
  shows "fill 0 (replicate n 0) ! i = fill 0 (replicate n 0) ! j \<longleftrightarrow> i mod 251 = j mod 251"
proof -
  have "unat (word_of_nat (k mod 251) :: 8 word) = k mod 251" for k
    by (simp add: unat_of_nat)
  then show ?thesis using assms by (simp add: fill_pattern) metis
qed

text \<open>A successful run has written exactly the file the tests expect.\<close>

lemma mkbig_writes:
  assumes "mkbig_main write argv w = Some (Ok 0, w')"
  shows "\<exists>n \<ge> 0. Atoi (argv ! 2) = Ok n \<and>
    write (argv ! 1) (map (\<lambda>k. word_of_nat (k mod 251)) [0..<nat n]) 420 w = (None, w')"
  using assms
  by (auto simp: mkbig_main_def fill_pattern split: if_splits res.splits prod.splits option.splits)

end
