(* ===== verification/Spec2Isabelle.thy ===== *)
theory Spec2Isabelle
  imports Cli_Transfer_Dsi Cli_Conns Request_Types Mkbig
begin

text \<open>
  A verification of \<^verbatim>\<open>goafp\<close>, a client for the Apple Filing Protocol (AFP) written in Go. All file
  names below are relative to \<^verbatim>\<open>src/\<close>.

  \<^bold>\<open>The program.\<close> A DSI connection (\<^verbatim>\<open>internal/dsi\<close>) sends request packets over one TCP stream and matches the
  replies to the waiting callers by request ID. Above it a session (\<^verbatim>\<open>internal/afp\<close>) logs in and runs AFP
  commands: it builds requests, decodes replies, and reads and writes forks with several requests in
  flight. Two clients use the session: the command line (\<^verbatim>\<open>cmd/goafp\<close>), and a file system for an NFS server
  (\<^verbatim>\<open>internal/nfsfs\<close>) whose connection manager dials again when the link is lost and repeats the operation.

  \<^bold>\<open>How the code is represented.\<close> A Go function that returns a value and an error is a function to \<open>res\<close>
  (\<open>Ok\<close>, \<open>Err\<close>, or \<open>Panic\<close> for a run-time panic). A function with effects has type \<open>('s, 'a) io\<close>: it takes the
  state and returns the result with the new state, or \<open>None\<close> when it never returns. Deferred calls are
  \<open>io_defer\<close>, which runs them after a panic as well. Integers keep their width (\<open>16 word\<close>, \<open>32 word\<close>,
  \<open>64 word\<close>) wherever they can wrap; a slice index out of range, a negative \<^verbatim>\<open>make\<close> and \<^verbatim>\<open>FillBytes\<close> on too
  short a buffer are \<open>Panic\<close>. Loops without an evident bound are \<open>partial_function (option)\<close>
  (\<^verbatim>\<open>register\<close>, the split into chunks, \<^verbatim>\<open>writeTo\<close>, \<^verbatim>\<open>readFrom\<close>, \<^verbatim>\<open>ReadDir\<close>), and the theorems about them state that they
  return. No fuel is used. Go's standard library is written out as far as the code uses it: big-endian codecs
  in \<open>Prelude\<close>, SHA-1, MD5, CBC and \<^verbatim>\<open>math/big\<close> in \<open>Go_Crypto\<close>, \<^verbatim>\<open>path\<close> and \<^verbatim>\<open>strings\<close> in \<open>Go_Path\<close>.

  \<^bold>\<open>Parameters.\<close> The network is the record \<open>net\<close>: what a write does, and what arrives during one wait of a
  caller, up to an error or the end of the caller's context, so that timeouts and cancellation are
  outcomes of a wait. Both are functions, so that every write and every wait ends: the code bounds a wait by the caller's context but sets
  no deadline on \<^verbatim>\<open>nc.Write\<close>, and wherever a theorem says that an operation on a connection returns, this is
  assumed. \<open>env\<close> gives the AFP layer its request operation, the quantum, the two Unicode
  normalisations of \<^verbatim>\<open>golang.org/x/text\<close>, and \<open>group_order\<close>, the order in which the goroutines of an \<^verbatim>\<open>errgroup\<close> get their
  turn; theorems hold for every order. \<open>crypto\<close> holds CAST5 of \<^verbatim>\<open>golang.org/x/crypto\<close> and the random bytes; its
  documented behaviour (a 16-byte key is accepted, decryption inverts encryption on blocks, reads have the
  length asked for) is \<open>crypto_ok\<close>. \<open>bridge\<close> and \<open>client\<close> hold what the two clients call below them, and
  \<open>mount_bridge\<close> and \<open>dsi_client\<close> build them from the development's own connections. \<^verbatim>\<open>url.Parse\<close>, \<^verbatim>\<open>time.Format\<close>, the format verb
  \<^verbatim>\<open>%q\<close>, the local files, \<^verbatim>\<open>net.Listen\<close> and go-nfs (\<open>mounter\<close>, \<open>gonfs\<close>) are arguments of the commands that use
  them.

  \<^bold>\<open>The theories.\<close>
  \<^item> \<open>Prelude\<close>: results, effects, codecs; the locales \<open>codec\<close> (an encoding with its inverse) and \<open>invariant\<close> (a
    property of the reachable states of a step relation); \<open>io_safe\<close> (returns, does not panic, keeps a property),
    \<open>io_ends\<close> (returns, perhaps by a panic, and keeps it) and \<open>io_keeps\<close> (keeps it whenever it returns).
  \<^item> \<open>Dsi_Header\<close> (\<^verbatim>\<open>header.go\<close>): codes and the 16-byte header, as an instance of \<open>codec\<close>.
  \<^item> \<open>Dsi_Conn\<close> (\<^verbatim>\<open>conn.go\<close>): \<open>conn\<close> is \<^verbatim>\<open>Conn\<close>; every method is a definition; \<open>readLoop\<close> runs over the bytes that have
    arrived, whole packets only, with room in every channel it sends to. \<open>request\<close> is one caller's request, and \<open>OpenSession\<close> leaves the
    ticker it starts to \<open>Dsi_Mux\<close>. The reader drops the connection on an over-long packet, and a request returns and frees its ID
    (\<open>transport\<close>).
  \<^item> \<open>Dsi_Mux\<close>: callers, reader, ticker and \<^verbatim>\<open>Close\<close> of one connection interleaved at the mutex and channel
    operations, as the relation \<open>step\<close>. The ticker may tick from the start and \<^verbatim>\<open>Close\<close> is one step, so there are more runs
    than in the code. Replies reach the caller that asked, IDs in flight are distinct, the reader recovers packets and routes them as \<open>readLoop\<close> says
    when no request is answered twice, and when it can and cannot get stuck.
  \<^item> \<open>Dsi_Linear\<close>: the connection with its server. The callers see the answers of a server that takes the requests one after another, as long
    as no ID is used again while an answer to it is under way; and what happens when one is.
  \<^item> \<open>Dsi_Serve\<close>: a connection over a transport that carries the packets of a server behaves as the server itself (\<open>env_sim\<close>).
  \<^item> \<open>Wire\<close> (\<^verbatim>\<open>wire.go\<close>), \<open>Result_Codes\<close> (\<^verbatim>\<open>result.go\<close>), \<open>Server_Info\<close> (\<^verbatim>\<open>serverinfo.go\<close>), \<open>Entry\<close> (\<^verbatim>\<open>entry.go\<close>): builders, readers and
    the two reply parsers. \<open>wire_field\<close> and \<open>two_fields\<close> carry the round trips from fields to whole layouts: what a server writes in the documented
    layout is read back, and what is too short is an error.
  \<^item> \<open>Session\<close>, \<open>Login\<close> (\<^verbatim>\<open>session.go\<close>): commands, version choice, volumes, enumeration, \<^verbatim>\<open>Stat\<close>, and the choice of the login
    method. Directory and volume listings are complete; what \<^verbatim>\<open>Login\<close> puts on the wire. \<open>afp_layer\<close> is the contract
    between a session and its connection, discharged for DSI.
  \<^item> \<open>Uam\<close> (\<^verbatim>\<open>uam.go\<close>), \<open>Srp\<close> (\<^verbatim>\<open>srp.go\<close>): the login methods, each against a server written from the protocol: both
    sides compute the same key, the server obtains the password or checks the proof, and what success proves.
  \<^item> \<open>Fork\<close> (\<^verbatim>\<open>fork.go\<close>), \<open>Fork_Write\<close> (\<^verbatim>\<open>write.go\<close>): chunked reads and writes. For every order of the chunks a read returns
    the bytes of the file and a write leaves the file as one write of the whole buffer would; the copy loops end. Also what lost connections
    and replies longer than asked for do to a read and to a copy.
  \<^item> \<open>Vol_Ops\<close> (\<^verbatim>\<open>ops.go\<close>, \<^verbatim>\<open>setparams.go\<close>), \<open>Symlink\<close> (\<^verbatim>\<open>symlink.go\<close>): changes of the tree, and links that read back as
    written and are not overwritten. The server of \<open>Symlink\<close> makes a file on a soft create only where there is none.
  \<^item> \<open>Conn_Manager\<close> (\<^verbatim>\<open>nfsfs/conn.go\<close>): \<open>cm_do_among\<close> is one call of \<^verbatim>\<open>do\<close> with anything other callers do
    between its critical sections as an argument, \<open>cm_do\<close> the call on its own, and \<open>cm_step\<close> has all callers interleaved at the mutex.
    At most two attempts, one successful dial per generation, and the interleaving that leaves an operation with no volume.
  \<^item> \<open>Nfs_File\<close> (\<^verbatim>\<open>nfsfs/file.go\<close>), \<open>Nfs_Fs\<close> (\<^verbatim>\<open>nfsfs/fs.go\<close>, \<^verbatim>\<open>nfsfs/serve.go\<close>): open files, every operation of the file system, and \<^verbatim>\<open>Serve\<close> with its
    capacity handler.
    Reads survive a lost link, names resolve inside the volume, \<^verbatim>\<open>MkdirAll\<close> is complete, exclusive creation is not
    safe to repeat.
  \<^item> \<open>Afp_Keeps\<close>: what requests keep of a connection, every AFP operation keeps (\<open>request_keeps\<close>). \<open>Request_Types\<close>: every request of every operation has
    the fields its command code calls for, in the DSI command it belongs to.
  \<^item> \<open>Cli\<close> (\<^verbatim>\<open>cmd/goafp/main.go\<close>, \<^verbatim>\<open>dsi.Dial\<close>): \<open>goafp_main\<close> and all commands, over the connections of the program (\<open>hosts\<close>).
    \<open>Cli_Conns\<close>: \<open>conn_tracking\<close> follows the open connections
    through early returns and deferred calls; every command but \<^verbatim>\<open>mount\<close> closes all it dialed. \<open>Cli_Transfer\<close>, \<open>Cli_Transfer_Dsi\<close>: what
    \<^verbatim>\<open>put\<close> uploads \<^verbatim>\<open>get\<close> downloads, first over any client, then over the program's own connections with only the server and its
    transport left open.
  \<^item> \<open>Mkbig\<close> (\<^verbatim>\<open>test/integration/mkbig\<close>): the program that writes the file the integration tests read back.
  \<^item> This theory: the operations of the AFP layer over a DSI connection, taken together.

  \<^bold>\<open>Concurrency.\<close> The operations of the AFP layer are stated for one caller per connection, whose goroutines take
  turns in any order; that callers do not disturb one another's replies is \<open>Dsi_Mux\<close> and \<open>Dsi_Linear\<close>. The operations of the
  file system are stated for calls of \<^verbatim>\<open>do\<close> that no other caller interferes with; \<open>cm_do_among\<close> and \<open>cm_step\<close> say what interference can do.
  The methods of a \<^verbatim>\<open>File\<close> hold its mutex and
  are atomic with respect to one another.

  \<^bold>\<open>Not modelled.\<close> go-nfs behind \<^verbatim>\<open>Serve\<close> (a third-party server that calls the file system), the messages on standard error and the
  usage text (they only print), name resolution and TCP (parameters), the durations of timeouts, the named server flags of
  \<^verbatim>\<open>serverinfo.go\<close> (no code uses them), memory limits other than \<^verbatim>\<open>make\<close> with an impossible length, and the Go tests.
\<close>

section \<open>The AFP operations over a DSI connection\<close>

text \<open>
  (C16) What the AFP operations guarantee over one DSI connection whose writes and waits end, for every
  server and every order of answers. The guest, cleartext and DHX2 logins, the volume operations, \<^verbatim>\<open>Stat\<close>
  and all changes of the tree, opening, reading, writing, truncating and closing forks and making symbolic links
  return, do not panic, and leave the connection in order with no request ID leaked; so does \<^verbatim>\<open>Login\<close> unless it
  chooses SRP. The SRP login, \<^verbatim>\<open>Login\<close> and \<^verbatim>\<open>ReadLink\<close> return too, though the server can make them panic,
  and leave the connection in order either way. \<^verbatim>\<open>ReadDir\<close> and the two copy loops, which a server or a source can
  keep busy for ever, leave it in order whenever they end. The parsers of the server information and of parameter
  blocks do not panic on any bytes.
\<close>
theorem afp_operations_total:
  assumes "crypto_ok C" and "fork_ok f"
  shows "let E = dsi_env N nfd nfc order; ok = (\<lambda>s. dsi_ok (sconn s)) in
    io_safe ok (loginGuest E) \<and> io_safe ok (loginCleartext E user pw) \<and> io_safe ok (loginDHX2 E C user pw) \<and>
    io_safe ok (Logout E) \<and> io_safe ok (ListVolumes E) \<and> io_safe ok (OpenVolume E name) \<and>
    io_safe ok (Volume_Close E v) \<and> io_safe ok (Stat E v d path) \<and>
    io_safe ok (CreateFile E v d path ow) \<and> io_safe ok (Mkdir E v d path) \<and> io_safe ok (Delete E v d path) \<and>
    io_safe ok (Rename E v d path to) \<and> io_safe ok (SetUnixPrivs E v d path uid gid mode) \<and>
    io_safe ok (SetModTime E v d path mtime) \<and> io_safe ok (StatFS E v) \<and>
    io_safe ok (OpenFork E v d path) \<and> io_safe ok (OpenForkRW E v d path) \<and> io_safe ok (Fork_Close E f) \<and>
    io_safe ok (ReadAt E f p off) \<and> io_safe ok (WriteAt E f p off) \<and> io_safe ok (Fork_Truncate E f sz) \<and>
    io_safe ok (Symlink E v d path target) \<and>
    (user = [] \<or> uamDHX2 \<in> set (UAMs info) \<or> uamSRP \<notin> set (UAMs info) \<longrightarrow> io_safe ok (Login E C info user pw)) \<and>
    io_ends ok (Login E C info user pw) \<and> io_ends ok (loginSRP E C user pw) \<and> io_ends ok (ReadLink E v d path) \<and>
    io_keeps ok (ReadDir E v d path) \<and> io_keeps (\<lambda>st. ok (fst st)) (WriteToContext E f wr) \<and>
    io_keeps (\<lambda>st. ok (fst st)) (ReadFromContext E f) \<and>
    ParseServerInfo block \<noteq> Panic \<and> parseEntryParams nfc block isDir bitmap \<noteq> Panic"
  unfolding Let_def OpenFork_def OpenForkRW_def
  by (intro conjI impI afp.loginGuest_safe afp.loginCleartext_safe afp.loginDHX2_safe [OF assms(1)] afp.session_ops_safe
      afp.vol_ops_safe afp.openFork_safe afp.Fork_Close_safe afp.ReadAt_safe [OF assms(2)] afp.WriteAt_safe
      afp.Fork_Truncate_safe afp.Symlink_safe afp.Login_safe [OF assms(1)] afp.Login_ends [OF assms(1)] afp.loginSRP_ends
      afp.ReadLink_ends orderly.ReadDir_keeps [OF TrueI] orderly.copy_keeps ParseServerInfo_not_Panic parseEntryParams_not_Panic)

theorem afp_operations_total_witness:
  "dsi_ok (fresh_dsi ()) \<and>
   (\<exists>r s'. loginDHX2 (dsi_env down_net (\<lambda>x. x) (\<lambda>x. x) (\<lambda>_ n. [0..<n])) sample_crypto ''ann'' ''pw''
        (NewSession (fresh_dsi ())) = Some (r, s') \<and> r \<noteq> Panic \<and> dsi_ok (sconn s'))"
proof -
  have ok: "dsi_ok (fresh_dsi ())" by (simp add: dsi_ok_def fresh_dsi_def) (simp add: NewConn_def)
  note total = afp_operations_total [OF sample_crypto_ok sample_fork_ok, where N = down_net and nfd = "\<lambda>x. x"
      and nfc = "\<lambda>x. x" and order = "\<lambda>_ n. [0..<n]" and user = "''ann''" and pw = "''pw''", unfolded Let_def,
      THEN conjunct2, THEN conjunct2, THEN conjunct1]
  from io_safeD [OF total, of "NewSession (fresh_dsi ())"] ok show ?thesis by (simp add: NewSession_def)
qed

end
